(* ===== verification/Nt_Prelude.thy ===== *)
theory Nt_Prelude
  imports Main "HOL-Library.Word"
begin

text \<open>
  Shared vocabulary of the development: the machine types of the i386 build
  (\<open>UCHAR\<close>, \<open>ULONG\<close>), the wrap-around of 32-bit unsigned arithmetic, memory regions
  and runs of consecutive positions.

  A \<open>ULONG\<close> that takes part in index arithmetic is a \<^typ>\<open>nat\<close> kept below
  \<open>2 ^ 32\<close>, and every addition, multiplication or subtraction the C code performs on
  it is wrapped in \<open>u32\<close> or \<open>u32_sub\<close>.  A \<open>UCHAR\<close> or \<open>ULONG\<close> that is treated as a
  bit pattern is a word.  A buffer the code reaches through a pointer is a total function
  from offsets to values: C has no bounds, so an access past the end reaches whatever
  lies there.
\<close>

unbundle bit_operations_syntax

named_theorems u32_simps \<open>removal of 32-bit wrap-around where the value fits\<close>
named_theorems table_facts \<open>what the byte lookup tables hold\<close>

type_synonym uchar = "8 word"
type_synonym ulong = "32 word"
type_synonym ptr = nat

abbreviation (input) NULL :: ptr where
  "NULL \<equiv> 0"

abbreviation (input) MAXULONG :: nat where
  "MAXULONG \<equiv> 4294967295"

section \<open>Unsigned 32-bit arithmetic\<close>

definition u32 :: "nat \<Rightarrow> nat" where
  "u32 n = n mod 4294967296"

definition u32_sub :: "nat \<Rightarrow> nat \<Rightarrow> nat" where
  "u32_sub a b = (if b \<le> a then u32 (a - b) else u32 (4294967296 - u32 (b - a)))"

lemma u32_less [simp]: "u32 n < 4294967296"
  by (simp add: u32_def)

lemma u32_id [simp, u32_simps]: "n < 4294967296 \<Longrightarrow> u32 n = n"
  by (simp add: u32_def)

lemma u32_le: "u32 n \<le> n"
  by (simp add: u32_def)

lemma u32_sub_id [simp, u32_simps]: "b \<le> a \<Longrightarrow> a < 4294967296 \<Longrightarrow> u32_sub a b = a - b"
  by (simp add: u32_sub_def)

lemma u32_mult8_dvd: "8 dvd u32 (n * 8)"
  by (simp add: u32_def dvd_mod)

lemma u32_mult8_add_less: "m < u32 (n * 8) \<Longrightarrow> m + 8 < 4294967296"
proof -
  assume m: "m < u32 (n * 8)"
  obtain k where k: "u32 (n * 8) = 8 * k"
    using u32_mult8_dvd [of n] by (auto elim: dvdE)
  have "8 * k < 4294967296"
    using u32_less [of "n * 8"] k by simp
  then show ?thesis using m k by arith
qed

lemma u32_step8 [simp]: "m < u32 (n * 8) \<Longrightarrow> u32 (n * 8) - u32 (m + 8) < u32 (n * 8) - m"
  using u32_mult8_add_less [of m n] by simp

section \<open>Runs of consecutive positions\<close>

definition run :: "(nat \<Rightarrow> bool) \<Rightarrow> nat \<Rightarrow> nat \<Rightarrow> bool" where
  \<comment> \<open>\<open>n\<close> positions from \<open>s\<close> on satisfy \<open>P\<close>\<close>
  "run P s n \<longleftrightarrow> (\<forall>i<n. P (s + i))"

lemma run_0 [simp]: "run P s 0"
  by (simp add: run_def)

lemma run_Suc: "run P s (Suc n) \<longleftrightarrow> P s \<and> run P (Suc s) n"
  by (simp add: run_def All_less_Suc2)

lemma runI: "(\<And>i. s \<le> i \<Longrightarrow> i < s + n \<Longrightarrow> P i) \<Longrightarrow> run P s n"
  by (simp add: run_def)

lemma runD: "run P s n \<Longrightarrow> s \<le> i \<Longrightarrow> i < s + n \<Longrightarrow> P i"
  unfolding run_def by (drule spec [of _ "i - s"]) simp

lemma run_mono: "run P s n \<Longrightarrow> s \<le> s' \<Longrightarrow> s' + n' \<le> s + n \<Longrightarrow> run P s' n'"
  by (rule runI) (auto intro: runD)

lemma run_append: "run P s (m + n) \<longleftrightarrow> run P s m \<and> run P (s + m) n"
proof
  assume r: "run P s (m + n)"
  show "run P s m \<and> run P (s + m) n"
    by (rule conjI; rule run_mono [OF r]) auto
next
  assume r: "run P s m \<and> run P (s + m) n"
  show "run P s (m + n)"
  proof (rule runI)
    fix i assume "s \<le> i" "i < s + (m + n)"
    with r show "P i" by (cases "i < s + m") (auto intro: runD)
  qed
qed

lemma run_cong: "(\<And>i. s \<le> i \<Longrightarrow> i < s + n \<Longrightarrow> P i = Q i) \<Longrightarrow> run P s n = run Q s n"
  by (auto simp: run_def)

lemma run_glue:
  "run P s n \<Longrightarrow> run P s' n' \<Longrightarrow> s \<le> s' \<Longrightarrow> s' \<le> s + n \<Longrightarrow> m \<le> s' + n' - s \<Longrightarrow> run P s m"
proof (rule runI)
  fix i
  assume "run P s n" "run P s' n'" "s \<le> s'" "s' \<le> s + n" "m \<le> s' + n' - s" "s \<le> i" "i < s + m"
  then show "P i" by (cases "i < s'") (auto intro: runD)
qed

section \<open>Exhaustive checks over a byte\<close>

lemma byte_less [simp]: "unat (b :: uchar) < 256"
  using unsigned_less [of b, where ?'a = nat] by simp

lemma byte_exhaust: "list_all P [0..<256] \<Longrightarrow> P (unat (b :: uchar))"
  by (simp add: list_all_iff)

end
