(* ===== verification/Bitmap_Model.thy ===== *)
theory Bitmap_Model
  imports Nt_Prelude
begin

text \<open>
  The bit map package of the NT run-time library (\<open>RTL/BITMAP.C\<close>): the header, the byte
  lookup tables and every operation, for clear bits and for set bits.

  \<open>Buffer\<close> is the memory the header's \<open>PULONG\<close> points at, one longword per index.
  The search routines read it bytewise through \<open>PUCHAR\<close> (the \<open>GET_BYTE\<close> macros), which
  on the little-endian i386 is \<open>buf_byte\<close>.  A loop of the C code is a recursive function
  whose arguments are the loop's variables; \<open>pos\<close> is the offset \<open>_CURRENT_POSITION\<close> has
  reached.  A search that returns from inside a loop gives \<open>Some\<close> of the returned index,
  one that runs to the end of the loop gives \<open>None\<close>.  Operations that write to the bit map
  return the new header.
\<close>

section \<open>Header and byte access\<close>

record RTL_BITMAP =
  SizeOfBitMap :: nat
  Buffer :: "nat \<Rightarrow> ulong"

definition buf_byte :: "(nat \<Rightarrow> ulong) \<Rightarrow> nat \<Rightarrow> uchar" where
  "buf_byte b i = ucast (drop_bit (8 * (i mod 4)) (b (i div 4)))"

definition buf_put_byte :: "(nat \<Rightarrow> ulong) \<Rightarrow> nat \<Rightarrow> uchar \<Rightarrow> (nat \<Rightarrow> ulong)" where
  "buf_put_byte b i v =
     b(i div 4 := (b (i div 4) AND NOT (push_bit (8 * (i mod 4)) 0xFF))
                  OR push_bit (8 * (i mod 4)) (ucast v))"

definition RightShiftUlong :: "ulong \<Rightarrow> nat \<Rightarrow> ulong" where
  "RightShiftUlong E1 E2 = (if E2 < 32 then drop_bit E2 E1 else 0)"

definition LeftShiftUlong :: "ulong \<Rightarrow> nat \<Rightarrow> ulong" where
  "LeftShiftUlong E1 E2 = (if E2 < 32 then push_bit E2 E1 else 0)"

section \<open>Lookup tables\<close>

definition RtlpBitsClearAnywhere :: "nat list" where
  "RtlpBitsClearAnywhere =
    [8, 7, 6, 6, 5, 5, 5, 5, 4, 4, 4, 4, 4, 4, 4, 4,
     4, 3, 3, 3, 3, 3, 3, 3, 3, 3, 3, 3, 3, 3, 3, 3,
     5, 4, 3, 3, 2, 2, 2, 2, 3, 2, 2, 2, 2, 2, 2, 2,
     4, 3, 2, 2, 2, 2, 2, 2, 3, 2, 2, 2, 2, 2, 2, 2,
     6, 5, 4, 4, 3, 3, 3, 3, 3, 2, 2, 2, 2, 2, 2, 2,
     4, 3, 2, 2, 2, 1, 1, 1, 3, 2, 1, 1, 2, 1, 1, 1,
     5, 4, 3, 3, 2, 2, 2, 2, 3, 2, 1, 1, 2, 1, 1, 1,
     4, 3, 2, 2, 2, 1, 1, 1, 3, 2, 1, 1, 2, 1, 1, 1,
     7, 6, 5, 5, 4, 4, 4, 4, 3, 3, 3, 3, 3, 3, 3, 3,
     4, 3, 2, 2, 2, 2, 2, 2, 3, 2, 2, 2, 2, 2, 2, 2,
     5, 4, 3, 3, 2, 2, 2, 2, 3, 2, 1, 1, 2, 1, 1, 1,
     4, 3, 2, 2, 2, 1, 1, 1, 3, 2, 1, 1, 2, 1, 1, 1,
     6, 5, 4, 4, 3, 3, 3, 3, 3, 2, 2, 2, 2, 2, 2, 2,
     4, 3, 2, 2, 2, 1, 1, 1, 3, 2, 1, 1, 2, 1, 1, 1,
     5, 4, 3, 3, 2, 2, 2, 2, 3, 2, 1, 1, 2, 1, 1, 1,
     4, 3, 2, 2, 2, 1, 1, 1, 3, 2, 1, 1, 2, 1, 1, 0]"

definition RtlpBitsClearLow :: "nat list" where
  "RtlpBitsClearLow =
    [8, 0, 1, 0, 2, 0, 1, 0, 3, 0, 1, 0, 2, 0, 1, 0,
     4, 0, 1, 0, 2, 0, 1, 0, 3, 0, 1, 0, 2, 0, 1, 0,
     5, 0, 1, 0, 2, 0, 1, 0, 3, 0, 1, 0, 2, 0, 1, 0,
     4, 0, 1, 0, 2, 0, 1, 0, 3, 0, 1, 0, 2, 0, 1, 0,
     6, 0, 1, 0, 2, 0, 1, 0, 3, 0, 1, 0, 2, 0, 1, 0,
     4, 0, 1, 0, 2, 0, 1, 0, 3, 0, 1, 0, 2, 0, 1, 0,
     5, 0, 1, 0, 2, 0, 1, 0, 3, 0, 1, 0, 2, 0, 1, 0,
     4, 0, 1, 0, 2, 0, 1, 0, 3, 0, 1, 0, 2, 0, 1, 0,
     7, 0, 1, 0, 2, 0, 1, 0, 3, 0, 1, 0, 2, 0, 1, 0,
     4, 0, 1, 0, 2, 0, 1, 0, 3, 0, 1, 0, 2, 0, 1, 0,
     5, 0, 1, 0, 2, 0, 1, 0, 3, 0, 1, 0, 2, 0, 1, 0,
     4, 0, 1, 0, 2, 0, 1, 0, 3, 0, 1, 0, 2, 0, 1, 0,
     6, 0, 1, 0, 2, 0, 1, 0, 3, 0, 1, 0, 2, 0, 1, 0,
     4, 0, 1, 0, 2, 0, 1, 0, 3, 0, 1, 0, 2, 0, 1, 0,
     5, 0, 1, 0, 2, 0, 1, 0, 3, 0, 1, 0, 2, 0, 1, 0,
     4, 0, 1, 0, 2, 0, 1, 0, 3, 0, 1, 0, 2, 0, 1, 0]"

definition RtlpBitsClearHigh :: "nat list" where
  "RtlpBitsClearHigh =
    [8, 7, 6, 6, 5, 5, 5, 5, 4, 4, 4, 4, 4, 4, 4, 4,
     3, 3, 3, 3, 3, 3, 3, 3, 3, 3, 3, 3, 3, 3, 3, 3,
     2, 2, 2, 2, 2, 2, 2, 2, 2, 2, 2, 2, 2, 2, 2, 2,
     2, 2, 2, 2, 2, 2, 2, 2, 2, 2, 2, 2, 2, 2, 2, 2,
     1, 1, 1, 1, 1, 1, 1, 1, 1, 1, 1, 1, 1, 1, 1, 1,
     1, 1, 1, 1, 1, 1, 1, 1, 1, 1, 1, 1, 1, 1, 1, 1,
     1, 1, 1, 1, 1, 1, 1, 1, 1, 1, 1, 1, 1, 1, 1, 1,
     1, 1, 1, 1, 1, 1, 1, 1, 1, 1, 1, 1, 1, 1, 1, 1,
     0, 0, 0, 0, 0, 0, 0, 0, 0, 0, 0, 0, 0, 0, 0, 0,
     0, 0, 0, 0, 0, 0, 0, 0, 0, 0, 0, 0, 0, 0, 0, 0,
     0, 0, 0, 0, 0, 0, 0, 0, 0, 0, 0, 0, 0, 0, 0, 0,
     0, 0, 0, 0, 0, 0, 0, 0, 0, 0, 0, 0, 0, 0, 0, 0,
     0, 0, 0, 0, 0, 0, 0, 0, 0, 0, 0, 0, 0, 0, 0, 0,
     0, 0, 0, 0, 0, 0, 0, 0, 0, 0, 0, 0, 0, 0, 0, 0,
     0, 0, 0, 0, 0, 0, 0, 0, 0, 0, 0, 0, 0, 0, 0, 0,
     0, 0, 0, 0, 0, 0, 0, 0, 0, 0, 0, 0, 0, 0, 0, 0]"

definition RtlpBitsClearTotal :: "nat list" where
  "RtlpBitsClearTotal =
    [8, 7, 7, 6, 7, 6, 6, 5, 7, 6, 6, 5, 6, 5, 5, 4,
     7, 6, 6, 5, 6, 5, 5, 4, 6, 5, 5, 4, 5, 4, 4, 3,
     7, 6, 6, 5, 6, 5, 5, 4, 6, 5, 5, 4, 5, 4, 4, 3,
     6, 5, 5, 4, 5, 4, 4, 3, 5, 4, 4, 3, 4, 3, 3, 2,
     7, 6, 6, 5, 6, 5, 5, 4, 6, 5, 5, 4, 5, 4, 4, 3,
     6, 5, 5, 4, 5, 4, 4, 3, 5, 4, 4, 3, 4, 3, 3, 2,
     6, 5, 5, 4, 5, 4, 4, 3, 5, 4, 4, 3, 4, 3, 3, 2,
     5, 4, 4, 3, 4, 3, 3, 2, 4, 3, 3, 2, 3, 2, 2, 1,
     7, 6, 6, 5, 6, 5, 5, 4, 6, 5, 5, 4, 5, 4, 4, 3,
     6, 5, 5, 4, 5, 4, 4, 3, 5, 4, 4, 3, 4, 3, 3, 2,
     6, 5, 5, 4, 5, 4, 4, 3, 5, 4, 4, 3, 4, 3, 3, 2,
     5, 4, 4, 3, 4, 3, 3, 2, 4, 3, 3, 2, 3, 2, 2, 1,
     6, 5, 5, 4, 5, 4, 4, 3, 5, 4, 4, 3, 4, 3, 3, 2,
     5, 4, 4, 3, 4, 3, 3, 2, 4, 3, 3, 2, 3, 2, 2, 1,
     5, 4, 4, 3, 4, 3, 3, 2, 4, 3, 3, 2, 3, 2, 2, 1,
     4, 3, 3, 2, 3, 2, 2, 1, 3, 2, 2, 1, 2, 1, 1, 0]"

definition FillMask :: "uchar list" where
  "FillMask = [0x00, 0x01, 0x03, 0x07, 0x0F, 0x1F, 0x3F, 0x7F, 0xFF]"

definition ZeroMask :: "uchar list" where
  "ZeroMask = [0xFF, 0xFE, 0xFC, 0xF8, 0xF0, 0xE0, 0xC0, 0x80, 0x00]"

definition BitsClearAnywhere :: "uchar \<Rightarrow> nat" where
  "BitsClearAnywhere b = RtlpBitsClearAnywhere ! unat b"

definition BitsClearLow :: "uchar \<Rightarrow> nat" where
  "BitsClearLow b = RtlpBitsClearLow ! unat b"

definition BitsClearHigh :: "uchar \<Rightarrow> nat" where
  "BitsClearHigh b = RtlpBitsClearHigh ! unat b"

definition BitsClearTotal :: "uchar \<Rightarrow> nat" where
  "BitsClearTotal b = RtlpBitsClearTotal ! unat b"

definition RtlpBitSetAnywhere :: "uchar \<Rightarrow> nat" where
  "RtlpBitSetAnywhere b = RtlpBitsClearAnywhere ! unat (NOT b)"

definition RtlpBitsSetLow :: "uchar \<Rightarrow> nat" where
  "RtlpBitsSetLow b = RtlpBitsClearLow ! unat (NOT b)"

definition RtlpBitsSetHigh :: "uchar \<Rightarrow> nat" where
  "RtlpBitsSetHigh b = RtlpBitsClearHigh ! unat (NOT b)"

definition RtlpBitsSetTotal :: "uchar \<Rightarrow> nat" where
  "RtlpBitsSetTotal b = RtlpBitsClearTotal ! unat (NOT b)"

section \<open>Initialisation\<close>

definition RtlInitializeBitMap :: "(nat \<Rightarrow> ulong) \<Rightarrow> nat \<Rightarrow> RTL_BITMAP" where
  "RtlInitializeBitMap BitMapBuffer Size = \<lparr>SizeOfBitMap = Size, Buffer = BitMapBuffer\<rparr>"

text \<open>
  The two fill routines of \<open>MOVEMEM.ASM\<close> get a length in bytes.  One ignores the low two
  bits of it, the other stores the last bytes one by one.
\<close>

definition RtlFillMemoryUlong :: "(nat \<Rightarrow> ulong) \<Rightarrow> nat \<Rightarrow> ulong \<Rightarrow> (nat \<Rightarrow> ulong)" where
  "RtlFillMemoryUlong b len pattern = (\<lambda>i. if i < len div 4 then pattern else b i)"

definition RtlZeroMemory :: "(nat \<Rightarrow> ulong) \<Rightarrow> nat \<Rightarrow> (nat \<Rightarrow> ulong)" where
  "RtlZeroMemory b len =
     (\<lambda>i. if i < len div 4 then 0
          else if i = len div 4 then b i AND NOT (mask (8 * (len mod 4)))
          else b i)"

definition RtlClearAllBits :: "RTL_BITMAP \<Rightarrow> RTL_BITMAP" where
  "RtlClearAllBits bm =
     bm\<lparr>Buffer := RtlZeroMemory (Buffer bm)
          (u32 (u32 (SizeOfBitMap bm + 31) div 32 * 4))\<rparr>"

definition RtlSetAllBits :: "RTL_BITMAP \<Rightarrow> RTL_BITMAP" where
  "RtlSetAllBits bm =
     bm\<lparr>Buffer := RtlFillMemoryUlong (Buffer bm)
          (u32 (u32 (SizeOfBitMap bm + 31) div 32 * 4)) 0xFFFFFFFF\<rparr>"

definition SizeInBytes :: "RTL_BITMAP \<Rightarrow> nat" where
  "SizeInBytes bm = u32 (SizeOfBitMap bm + 7) div 8"

text \<open>
  The searches first force the unused bits of the last byte to the value they do not
  look for.
\<close>

definition SetUnusedBits :: "RTL_BITMAP \<Rightarrow> RTL_BITMAP" where
  "SetUnusedBits bm =
     (if SizeOfBitMap bm mod 8 \<noteq> 0
      then bm\<lparr>Buffer := buf_put_byte (Buffer bm) (u32_sub (SizeInBytes bm) 1)
             (buf_byte (Buffer bm) (u32_sub (SizeInBytes bm) 1) OR ZeroMask ! (SizeOfBitMap bm mod 8))\<rparr>
      else bm)"

definition ClearUnusedBits :: "RTL_BITMAP \<Rightarrow> RTL_BITMAP" where
  "ClearUnusedBits bm =
     (if SizeOfBitMap bm mod 8 \<noteq> 0
      then bm\<lparr>Buffer := buf_put_byte (Buffer bm) (u32_sub (SizeInBytes bm) 1)
             (buf_byte (Buffer bm) (u32_sub (SizeInBytes bm) 1) AND FillMask ! (SizeOfBitMap bm mod 8))\<rparr>
      else bm)"

section \<open>Fitting a mask into a byte\<close>

lemma byte_all: "list_all (\<lambda>n. P (word_of_nat n :: uchar)) [0..<256] \<Longrightarrow> P b"
  using byte_exhaust [of "\<lambda>n. P (word_of_nat n)" b] by simp

lemma BitsClearLow_shift: "m \<noteq> 0 \<Longrightarrow> BitsClearLow m < BitsClearLow (push_bit 1 m)"
  by (rule byte_all [of "\<lambda>m. m \<noteq> 0 \<longrightarrow> BitsClearLow m < BitsClearLow (push_bit 1 m)", THEN mp])
    code_simp

lemma BitsClearLow_le: "BitsClearLow b \<le> 8"
  by (rule byte_all [of "\<lambda>b. BitsClearLow b \<le> 8"]) code_simp

text \<open>
  The mask is shifted left until it meets no set bit (for set bits: until every bit of it
  is matched).  A \<open>UCHAR\<close> mask loses its high bits and is zero after eight shifts at the
  latest, so the loop ends.
\<close>

function FitClear :: "uchar \<Rightarrow> uchar \<Rightarrow> nat \<Rightarrow> nat" where
  "FitClear BitMask CurrentByte i =
     (if BitMask AND CurrentByte \<noteq> 0
      then FitClear (push_bit 1 BitMask) CurrentByte (u32 (i + 1)) else i)"
  by pat_completeness auto
termination
proof (relation "measure (\<lambda>(BitMask, CurrentByte, i). 8 - BitsClearLow BitMask)", goal_cases)
  case (2 BitMask CurrentByte i)
  then have "BitMask \<noteq> 0" by auto
  then show ?case
    using BitsClearLow_shift [of BitMask] BitsClearLow_le [of "push_bit 1 BitMask"]
    by auto
qed simp

function FitSet :: "uchar \<Rightarrow> uchar \<Rightarrow> nat \<Rightarrow> nat" where
  "FitSet BitMask CurrentByte i =
     (if BitMask AND CurrentByte \<noteq> BitMask
      then FitSet (push_bit 1 BitMask) CurrentByte (u32 (i + 1)) else i)"
  by pat_completeness auto
termination
proof (relation "measure (\<lambda>(BitMask, CurrentByte, i). 8 - BitsClearLow BitMask)", goal_cases)
  case (2 BitMask CurrentByte i)
  then have "BitMask \<noteq> 0" by auto
  then show ?case
    using BitsClearLow_shift [of BitMask] BitsClearLow_le [of "push_bit 1 BitMask"]
    by auto
qed simp

declare FitClear.simps [simp del] FitSet.simps [simp del]

section \<open>Searching for a run of clear bits\<close>

text \<open>
  \<open>FindClearSmall\<close>, \<open>FindClearMedium\<close> and \<open>FindClearLarge\<close> are the three byte loops of
  \<open>RtlFindClearBits\<close>, for at most 9, at most 14 and more bits.  \<open>FindClearPass\<close> is one
  iteration of its main loop.
\<close>

function FindClearSmall ::
  "(nat \<Rightarrow> ulong) \<Rightarrow> nat \<Rightarrow> nat \<Rightarrow> nat \<Rightarrow> nat \<Rightarrow> nat \<Rightarrow> uchar \<Rightarrow> nat option" where
  "FindClearSmall b Size NumberToFind EndByteIndex pos CurrentBitIndex PreviousByte =
     (if CurrentBitIndex < u32 (EndByteIndex * 8) then
        let CurrentByte = buf_byte b pos;
            StartingIndex = u32_sub CurrentBitIndex (BitsClearHigh PreviousByte)
        in if NumberToFind \<le> BitsClearAnywhere CurrentByte
           then Some (u32 (CurrentBitIndex + FitClear (FillMask ! NumberToFind) CurrentByte 0))
           else if NumberToFind \<le> BitsClearHigh PreviousByte + BitsClearLow CurrentByte \<and>
                   u32 (StartingIndex + NumberToFind) \<le> Size
           then Some StartingIndex
           else FindClearSmall b Size NumberToFind EndByteIndex (pos + 1)
                  (u32 (CurrentBitIndex + 8)) CurrentByte
      else None)"
  by pat_completeness auto
termination
  by (relation "measure (\<lambda>(b, Size, NumberToFind, EndByteIndex, pos, CurrentBitIndex, PreviousByte).
        u32 (EndByteIndex * 8) - CurrentBitIndex)") auto

function FindClearMedium ::
  "(nat \<Rightarrow> ulong) \<Rightarrow> nat \<Rightarrow> nat \<Rightarrow> nat \<Rightarrow> nat \<Rightarrow> nat \<Rightarrow> uchar \<Rightarrow> uchar \<Rightarrow> nat option" where
  "FindClearMedium b Size NumberToFind EndByteIndex pos CurrentBitIndex PreviousPreviousByte PreviousByte =
     (if CurrentBitIndex < u32 (EndByteIndex * 8) then
        let CurrentByte = buf_byte b pos;
            StartingIndex = u32_sub CurrentBitIndex (BitsClearHigh PreviousByte);
            StartingIndex' = u32_sub (u32_sub CurrentBitIndex 8) (BitsClearHigh PreviousPreviousByte)
        in if NumberToFind \<le> BitsClearHigh PreviousByte + BitsClearLow CurrentByte \<and>
              u32 (StartingIndex + NumberToFind) \<le> Size
           then Some StartingIndex
           else if PreviousByte = 0 \<and>
                   NumberToFind \<le> BitsClearHigh PreviousPreviousByte + 8 + BitsClearLow CurrentByte \<and>
                   u32 (StartingIndex' + NumberToFind) \<le> Size
           then Some StartingIndex'
           else FindClearMedium b Size NumberToFind EndByteIndex (pos + 1)
                  (u32 (CurrentBitIndex + 8)) PreviousByte CurrentByte
      else None)"
  by pat_completeness auto
termination
  by (relation "measure (\<lambda>(b, Size, NumberToFind, EndByteIndex, pos, CurrentBitIndex, pp, p).
        u32 (EndByteIndex * 8) - CurrentBitIndex)") auto

text \<open>\<open>StartOfRunIndex\<close> is a \<open>LONG\<close> and starts at -1 when the scan starts at byte 0.\<close>

function FindClearLarge ::
  "(nat \<Rightarrow> ulong) \<Rightarrow> nat \<Rightarrow> nat \<Rightarrow> nat \<Rightarrow> nat \<Rightarrow> nat \<Rightarrow> uchar \<Rightarrow> int \<Rightarrow> nat option" where
  "FindClearLarge b Size NumberToFind EndByteIndex CurrentByteIndex ZeroBytesFound
       StartOfRunByte StartOfRunIndex =
     (if CurrentByteIndex < EndByteIndex then
        let CurrentByte = buf_byte b CurrentByteIndex;
            ZeroBytesNeeded = (NumberToFind - 7) div 8;
            StartingIndex = nat ((StartOfRunIndex * 8 + (8 - int (BitsClearHigh StartOfRunByte)))
                                 mod 4294967296)
        in if ZeroBytesFound \<ge> ZeroBytesNeeded \<and>
              NumberToFind \<le> u32 (BitsClearHigh StartOfRunByte + u32 (ZeroBytesFound * 8)
                                    + BitsClearLow CurrentByte) \<and>
              u32 (StartingIndex + NumberToFind) \<le> Size
           then Some StartingIndex
           else if CurrentByte = 0
           then FindClearLarge b Size NumberToFind EndByteIndex (CurrentByteIndex + 1)
                  (u32 (ZeroBytesFound + 1)) StartOfRunByte StartOfRunIndex
           else FindClearLarge b Size NumberToFind EndByteIndex (CurrentByteIndex + 1)
                  0 CurrentByte (int CurrentByteIndex)
      else None)"
  by pat_completeness auto
termination
  by (relation "measure (\<lambda>(b, Size, NumberToFind, EndByteIndex, CurrentByteIndex, z, s, i).
        EndByteIndex - CurrentByteIndex)") auto

declare FindClearSmall.simps [simp del] FindClearMedium.simps [simp del]
  FindClearLarge.simps [simp del]

definition FindClearPass :: "(nat \<Rightarrow> ulong) \<Rightarrow> nat \<Rightarrow> nat \<Rightarrow> nat \<Rightarrow> nat \<Rightarrow> nat option" where
  "FindClearPass b Size NumberToFind StartByteIndex EndByteIndex =
     (if NumberToFind \<le> 9
      then FindClearSmall b Size NumberToFind EndByteIndex StartByteIndex
             (u32 (StartByteIndex * 8)) 0xFF
      else if NumberToFind < 15
      then FindClearMedium b Size NumberToFind EndByteIndex StartByteIndex
             (u32 (StartByteIndex * 8)) 0xFF 0xFF
      else FindClearLarge b Size NumberToFind EndByteIndex StartByteIndex 0 0xFF
             (int StartByteIndex - 1))"

text \<open>The byte index at which the second iteration of the main loop stops.\<close>

definition SecondEndByteIndex :: "nat \<Rightarrow> nat \<Rightarrow> nat \<Rightarrow> nat" where
  "SecondEndByteIndex NumberToFind HintByte Bytes =
     (if NumberToFind < 2 then HintByte
      else let EndByteIndex = u32 (HintByte + (NumberToFind - 2) div 8 + 1)
           in if EndByteIndex > Bytes then Bytes else EndByteIndex)"

definition RtlFindClearBits :: "RTL_BITMAP \<Rightarrow> nat \<Rightarrow> nat \<Rightarrow> RTL_BITMAP \<times> nat" where
  "RtlFindClearBits BitMapHeader NumberToFind HintIndex =
     (let Size = SizeOfBitMap BitMapHeader;
          Bytes = SizeInBytes BitMapHeader;
          bm = SetUnusedBits BitMapHeader;
          HintByte = (if HintIndex \<ge> Size then 0 else HintIndex) div 8
      in case FindClearPass (Buffer bm) Size NumberToFind HintByte Bytes of
           Some StartingIndex \<Rightarrow> (bm, StartingIndex)
         | None \<Rightarrow>
             if HintByte \<noteq> 0
             then case FindClearPass (Buffer bm) Size NumberToFind 0
                         (SecondEndByteIndex NumberToFind HintByte Bytes) of
                    Some StartingIndex \<Rightarrow> (bm, StartingIndex)
                  | None \<Rightarrow> (bm, MAXULONG)
             else (bm, MAXULONG))"

section \<open>Searching for a run of set bits\<close>

function FindSetSmall ::
  "(nat \<Rightarrow> ulong) \<Rightarrow> nat \<Rightarrow> nat \<Rightarrow> nat \<Rightarrow> nat \<Rightarrow> nat \<Rightarrow> uchar \<Rightarrow> nat option" where
  "FindSetSmall b Size NumberToFind EndByteIndex pos CurrentBitIndex PreviousByte =
     (if CurrentBitIndex < u32 (EndByteIndex * 8) then
        let CurrentByte = buf_byte b pos;
            StartingIndex = u32_sub CurrentBitIndex (RtlpBitsSetHigh PreviousByte)
        in if NumberToFind \<le> RtlpBitSetAnywhere CurrentByte
           then Some (u32 (CurrentBitIndex + FitSet (FillMask ! NumberToFind) CurrentByte 0))
           else if NumberToFind \<le> RtlpBitsSetHigh PreviousByte + RtlpBitsSetLow CurrentByte \<and>
                   u32 (StartingIndex + NumberToFind) \<le> Size
           then Some StartingIndex
           else FindSetSmall b Size NumberToFind EndByteIndex (pos + 1)
                  (u32 (CurrentBitIndex + 8)) CurrentByte
      else None)"
  by pat_completeness auto
termination
  by (relation "measure (\<lambda>(b, Size, NumberToFind, EndByteIndex, pos, CurrentBitIndex, PreviousByte).
        u32 (EndByteIndex * 8) - CurrentBitIndex)") auto

function FindSetMedium ::
  "(nat \<Rightarrow> ulong) \<Rightarrow> nat \<Rightarrow> nat \<Rightarrow> nat \<Rightarrow> nat \<Rightarrow> nat \<Rightarrow> uchar \<Rightarrow> uchar \<Rightarrow> nat option" where
  "FindSetMedium b Size NumberToFind EndByteIndex pos CurrentBitIndex PreviousPreviousByte PreviousByte =
     (if CurrentBitIndex < u32 (EndByteIndex * 8) then
        let CurrentByte = buf_byte b pos;
            StartingIndex = u32_sub CurrentBitIndex (RtlpBitsSetHigh PreviousByte);
            StartingIndex' = u32_sub (u32_sub CurrentBitIndex 8) (RtlpBitsSetHigh PreviousPreviousByte)
        in if NumberToFind \<le> RtlpBitsSetHigh PreviousByte + RtlpBitsSetLow CurrentByte \<and>
              u32 (StartingIndex + NumberToFind) \<le> Size
           then Some StartingIndex
           else if PreviousByte = 0xFF \<and>
                   NumberToFind \<le> RtlpBitsSetHigh PreviousPreviousByte + 8 + RtlpBitsSetLow CurrentByte \<and>
                   u32 (StartingIndex' + NumberToFind) \<le> Size
           then Some StartingIndex'
           else FindSetMedium b Size NumberToFind EndByteIndex (pos + 1)
                  (u32 (CurrentBitIndex + 8)) PreviousByte CurrentByte
      else None)"
  by pat_completeness auto
termination
  by (relation "measure (\<lambda>(b, Size, NumberToFind, EndByteIndex, pos, CurrentBitIndex, pp, p).
        u32 (EndByteIndex * 8) - CurrentBitIndex)") auto

function FindSetLarge ::
  "(nat \<Rightarrow> ulong) \<Rightarrow> nat \<Rightarrow> nat \<Rightarrow> nat \<Rightarrow> nat \<Rightarrow> nat \<Rightarrow> uchar \<Rightarrow> int \<Rightarrow> nat option" where
  "FindSetLarge b Size NumberToFind EndByteIndex CurrentByteIndex OneBytesFound
       StartOfRunByte StartOfRunIndex =
     (if CurrentByteIndex < EndByteIndex then
        let CurrentByte = buf_byte b CurrentByteIndex;
            OneBytesNeeded = (NumberToFind - 7) div 8;
            StartingIndex = nat ((StartOfRunIndex * 8 + (8 - int (RtlpBitsSetHigh StartOfRunByte)))
                                 mod 4294967296)
        in if OneBytesFound \<ge> OneBytesNeeded \<and>
              NumberToFind \<le> u32 (RtlpBitsSetHigh StartOfRunByte + u32 (OneBytesFound * 8)
                                    + RtlpBitsSetLow CurrentByte) \<and>
              u32 (StartingIndex + NumberToFind) \<le> Size
           then Some StartingIndex
           else if CurrentByte = 0xFF
           then FindSetLarge b Size NumberToFind EndByteIndex (CurrentByteIndex + 1)
                  (u32 (OneBytesFound + 1)) StartOfRunByte StartOfRunIndex
           else FindSetLarge b Size NumberToFind EndByteIndex (CurrentByteIndex + 1)
                  0 CurrentByte (int CurrentByteIndex)
      else None)"
  by pat_completeness auto
termination
  by (relation "measure (\<lambda>(b, Size, NumberToFind, EndByteIndex, CurrentByteIndex, z, s, i).
        EndByteIndex - CurrentByteIndex)") auto

declare FindSetSmall.simps [simp del] FindSetMedium.simps [simp del]
  FindSetLarge.simps [simp del]

definition FindSetPass :: "(nat \<Rightarrow> ulong) \<Rightarrow> nat \<Rightarrow> nat \<Rightarrow> nat \<Rightarrow> nat \<Rightarrow> nat option" where
  "FindSetPass b Size NumberToFind StartByteIndex EndByteIndex =
     (if NumberToFind \<le> 9
      then FindSetSmall b Size NumberToFind EndByteIndex StartByteIndex
             (u32 (StartByteIndex * 8)) 0
      else if NumberToFind < 15
      then FindSetMedium b Size NumberToFind EndByteIndex StartByteIndex
             (u32 (StartByteIndex * 8)) 0 0
      else FindSetLarge b Size NumberToFind EndByteIndex StartByteIndex 0 0
             (int StartByteIndex - 1))"

definition RtlFindSetBits :: "RTL_BITMAP \<Rightarrow> nat \<Rightarrow> nat \<Rightarrow> RTL_BITMAP \<times> nat" where
  "RtlFindSetBits BitMapHeader NumberToFind HintIndex =
     (let Size = SizeOfBitMap BitMapHeader;
          Bytes = SizeInBytes BitMapHeader;
          bm = ClearUnusedBits BitMapHeader;
          HintByte = (if HintIndex \<ge> Size then 0 else HintIndex) div 8
      in case FindSetPass (Buffer bm) Size NumberToFind HintByte Bytes of
           Some StartingIndex \<Rightarrow> (bm, StartingIndex)
         | None \<Rightarrow>
             if HintByte \<noteq> 0
             then case FindSetPass (Buffer bm) Size NumberToFind 0
                         (SecondEndByteIndex NumberToFind HintByte Bytes) of
                    Some StartingIndex \<Rightarrow> (bm, StartingIndex)
                  | None \<Rightarrow> (bm, MAXULONG)
             else (bm, MAXULONG))"

section \<open>Setting and clearing a range\<close>

text \<open>
  \<open>SetLongs\<close> and \<open>ClearLongs\<close> are the loops over whole longwords; they return the memory,
  the longword index reached and the number of bits left.  The \<open>ASSERT\<close> on the range is
  empty in the free build.
\<close>

function ClearLongs :: "(nat \<Rightarrow> ulong) \<Rightarrow> nat \<Rightarrow> nat \<Rightarrow> (nat \<Rightarrow> ulong) \<times> nat \<times> nat" where
  "ClearLongs b CurrentLong NumberToClear =
     (if NumberToClear \<ge> 32
      then ClearLongs (b(CurrentLong := 0)) (CurrentLong + 1) (NumberToClear - 32)
      else (b, CurrentLong, NumberToClear))"
  by pat_completeness auto
termination
  by (relation "measure (\<lambda>(b, CurrentLong, NumberToClear). NumberToClear)") auto

function SetLongs :: "(nat \<Rightarrow> ulong) \<Rightarrow> nat \<Rightarrow> nat \<Rightarrow> (nat \<Rightarrow> ulong) \<times> nat \<times> nat" where
  "SetLongs b CurrentLong NumberToSet =
     (if NumberToSet \<ge> 32
      then SetLongs (b(CurrentLong := 0xFFFFFFFF)) (CurrentLong + 1) (NumberToSet - 32)
      else (b, CurrentLong, NumberToSet))"
  by pat_completeness auto
termination
  by (relation "measure (\<lambda>(b, CurrentLong, NumberToSet). NumberToSet)") auto

declare ClearLongs.simps [simp del] SetLongs.simps [simp del]

definition RtlClearBits :: "RTL_BITMAP \<Rightarrow> nat \<Rightarrow> nat \<Rightarrow> RTL_BITMAP" where
  "RtlClearBits bm StartingIndex NumberToClear =
     (if NumberToClear = 0 then bm
      else
        let BitOffset = StartingIndex mod 32;
            CurrentLong = StartingIndex div 32;
            b = Buffer bm
        in if u32 (BitOffset + NumberToClear) \<le> 32
           then bm\<lparr>Buffer := b(CurrentLong := b CurrentLong AND
                  NOT (LeftShiftUlong (RightShiftUlong 0xFFFFFFFF (u32_sub 32 NumberToClear)) BitOffset))\<rparr>
           else
             let b1 = b(CurrentLong := b CurrentLong AND NOT (LeftShiftUlong 0xFFFFFFFF BitOffset));
                 (b2, CurrentLong2, Left) =
                   ClearLongs b1 (CurrentLong + 1) (u32_sub NumberToClear (32 - BitOffset))
             in if Left > 0
                then bm\<lparr>Buffer := b2(CurrentLong2 := b2 CurrentLong2 AND LeftShiftUlong 0xFFFFFFFF Left)\<rparr>
                else bm\<lparr>Buffer := b2\<rparr>)"

definition RtlSetBits :: "RTL_BITMAP \<Rightarrow> nat \<Rightarrow> nat \<Rightarrow> RTL_BITMAP" where
  "RtlSetBits bm StartingIndex NumberToSet =
     (if NumberToSet = 0 then bm
      else
        let BitOffset = StartingIndex mod 32;
            CurrentLong = StartingIndex div 32;
            b = Buffer bm
        in if u32 (BitOffset + NumberToSet) \<le> 32
           then bm\<lparr>Buffer := b(CurrentLong := b CurrentLong OR
                  LeftShiftUlong (RightShiftUlong 0xFFFFFFFF (u32_sub 32 NumberToSet)) BitOffset)\<rparr>
           else
             let b1 = b(CurrentLong := b CurrentLong OR LeftShiftUlong 0xFFFFFFFF BitOffset);
                 (b2, CurrentLong2, Left) =
                   SetLongs b1 (CurrentLong + 1) (u32_sub NumberToSet (32 - BitOffset))
             in if Left > 0
                then bm\<lparr>Buffer := b2(CurrentLong2 := b2 CurrentLong2 OR NOT (LeftShiftUlong 0xFFFFFFFF Left))\<rparr>
                else bm\<lparr>Buffer := b2\<rparr>)"

definition RtlFindClearBitsAndSet :: "RTL_BITMAP \<Rightarrow> nat \<Rightarrow> nat \<Rightarrow> RTL_BITMAP \<times> nat" where
  "RtlFindClearBitsAndSet BitMapHeader NumberToFind HintIndex =
     (let (bm, StartingIndex) = RtlFindClearBits BitMapHeader NumberToFind HintIndex
      in if StartingIndex \<noteq> MAXULONG
         then (RtlSetBits bm StartingIndex NumberToFind, StartingIndex)
         else (bm, StartingIndex))"

definition RtlFindSetBitsAndClear :: "RTL_BITMAP \<Rightarrow> nat \<Rightarrow> nat \<Rightarrow> RTL_BITMAP \<times> nat" where
  "RtlFindSetBitsAndClear BitMapHeader NumberToFind HintIndex =
     (let (bm, StartingIndex) = RtlFindSetBits BitMapHeader NumberToFind HintIndex
      in if StartingIndex \<noteq> MAXULONG
         then (RtlClearBits bm StartingIndex NumberToFind, StartingIndex)
         else (bm, StartingIndex))"

section \<open>Longest and first runs\<close>

text \<open>
  The loop state of the longest-run search: the best run so far and the open run.
\<close>

record run_state =
  LongestRunSize :: nat
  LongestRunIndex :: nat
  CurrentRunSize :: nat
  CurrentRunIndex :: nat

definition CloseRun :: "run_state \<Rightarrow> run_state" where
  "CloseRun st =
     (if CurrentRunSize st > LongestRunSize st
      then st\<lparr>LongestRunSize := CurrentRunSize st, LongestRunIndex := CurrentRunIndex st\<rparr>
      else st)"

definition LongestClearStep :: "uchar \<Rightarrow> nat \<Rightarrow> run_state \<Rightarrow> run_state" where
  "LongestClearStep CurrentByte CurrentByteIndex st =
     (if CurrentByte \<noteq> 0 then
        let st1 = CloseRun (st\<lparr>CurrentRunSize := u32 (CurrentRunSize st + BitsClearLow CurrentByte)\<rparr>);
            st2 = st1\<lparr>CurrentRunSize := BitsClearHigh CurrentByte,
                      CurrentRunIndex := u32 (u32 (CurrentByteIndex * 8) + (8 - BitsClearHigh CurrentByte))\<rparr>;
            Temp = BitsClearAnywhere CurrentByte
        in if LongestRunSize st2 < 8 \<and> CurrentRunSize st2 < 8 \<and>
              Temp > LongestRunSize st2 \<and> Temp > CurrentRunSize st2
           then st2\<lparr>LongestRunIndex := u32 (u32 (CurrentByteIndex * 8) + FitClear (FillMask ! Temp) CurrentByte 0),
                    LongestRunSize := Temp\<rparr>
           else st2
      else st\<lparr>CurrentRunSize := u32 (CurrentRunSize st + 8)\<rparr>)"

function LongestClearLoop :: "(nat \<Rightarrow> ulong) \<Rightarrow> nat \<Rightarrow> nat \<Rightarrow> run_state \<Rightarrow> run_state" where
  "LongestClearLoop b Bytes CurrentByteIndex st =
     (if CurrentByteIndex < Bytes
      then LongestClearLoop b Bytes (CurrentByteIndex + 1)
             (LongestClearStep (buf_byte b CurrentByteIndex) CurrentByteIndex st)
      else st)"
  by pat_completeness auto
termination
  by (relation "measure (\<lambda>(b, Bytes, CurrentByteIndex, st). Bytes - CurrentByteIndex)") auto

definition LongestSetStep :: "uchar \<Rightarrow> nat \<Rightarrow> run_state \<Rightarrow> run_state" where
  "LongestSetStep CurrentByte CurrentByteIndex st =
     (if CurrentByte \<noteq> 0xFF then
        let st1 = CloseRun (st\<lparr>CurrentRunSize := u32 (CurrentRunSize st + RtlpBitsSetLow CurrentByte)\<rparr>);
            st2 = st1\<lparr>CurrentRunSize := RtlpBitsSetHigh CurrentByte,
                      CurrentRunIndex := u32 (u32 (CurrentByteIndex * 8) + (8 - RtlpBitsSetHigh CurrentByte))\<rparr>;
            Temp = RtlpBitSetAnywhere CurrentByte
        in if LongestRunSize st2 < 8 \<and> CurrentRunSize st2 < 8 \<and>
              Temp > LongestRunSize st2 \<and> Temp > CurrentRunSize st2
           then st2\<lparr>LongestRunIndex := u32 (u32 (CurrentByteIndex * 8) + FitSet (FillMask ! Temp) CurrentByte 0),
                    LongestRunSize := Temp\<rparr>
           else st2
      else st\<lparr>CurrentRunSize := u32 (CurrentRunSize st + 8)\<rparr>)"

function LongestSetLoop :: "(nat \<Rightarrow> ulong) \<Rightarrow> nat \<Rightarrow> nat \<Rightarrow> run_state \<Rightarrow> run_state" where
  "LongestSetLoop b Bytes CurrentByteIndex st =
     (if CurrentByteIndex < Bytes
      then LongestSetLoop b Bytes (CurrentByteIndex + 1)
             (LongestSetStep (buf_byte b CurrentByteIndex) CurrentByteIndex st)
      else st)"
  by pat_completeness auto
termination
  by (relation "measure (\<lambda>(b, Bytes, CurrentByteIndex, st). Bytes - CurrentByteIndex)") auto

declare LongestClearLoop.simps [simp del] LongestSetLoop.simps [simp del]

abbreviation start_run :: run_state where
  "start_run \<equiv> \<lparr>LongestRunSize = 0, LongestRunIndex = 0, CurrentRunSize = 0, CurrentRunIndex = 0\<rparr>"

text \<open>The result is the new header, \<open>*StartingIndex\<close> and the returned size.\<close>

definition RtlFindLongestRunClear :: "RTL_BITMAP \<Rightarrow> RTL_BITMAP \<times> nat \<times> nat" where
  "RtlFindLongestRunClear BitMapHeader =
     (let bm = SetUnusedBits BitMapHeader;
          st = CloseRun (LongestClearLoop (Buffer bm) (SizeInBytes BitMapHeader) 0 start_run)
      in (bm, LongestRunIndex st, LongestRunSize st))"

definition RtlFindLongestRunSet :: "RTL_BITMAP \<Rightarrow> RTL_BITMAP \<times> nat \<times> nat" where
  "RtlFindLongestRunSet BitMapHeader =
     (let bm = ClearUnusedBits BitMapHeader;
          st = CloseRun (LongestSetLoop (Buffer bm) (SizeInBytes BitMapHeader) 0 start_run)
      in (bm, LongestRunIndex st, LongestRunSize st))"

function FirstClearLoop :: "(nat \<Rightarrow> ulong) \<Rightarrow> nat \<Rightarrow> nat \<Rightarrow> nat \<Rightarrow> nat \<Rightarrow> nat \<times> nat" where
  "FirstClearLoop b Bytes CurrentByteIndex Size Index =
     (if CurrentByteIndex < Bytes then
        let CurrentByte = buf_byte b CurrentByteIndex
        in if CurrentByte = 0xFF \<and> Size = 0
           then FirstClearLoop b Bytes (CurrentByteIndex + 1) Size Index
           else if CurrentByte = 0
           then FirstClearLoop b Bytes (CurrentByteIndex + 1) (u32 (Size + 8))
                  (if Index = MAXULONG then u32 (CurrentByteIndex * 8) else Index)
           else if Size \<noteq> 0
           then (u32 (Size + BitsClearLow CurrentByte), Index)
           else if BitsClearHigh CurrentByte = 0
           then (BitsClearAnywhere CurrentByte,
                 u32 (u32 (CurrentByteIndex * 8)
                      + FitClear (FillMask ! BitsClearAnywhere CurrentByte) CurrentByte 0))
           else FirstClearLoop b Bytes (CurrentByteIndex + 1) (BitsClearHigh CurrentByte)
                  (u32 (u32 (CurrentByteIndex * 8) + (8 - BitsClearHigh CurrentByte)))
      else (Size, Index))"
  by pat_completeness auto
termination
  by (relation "measure (\<lambda>(b, Bytes, CurrentByteIndex, Size, Index). Bytes - CurrentByteIndex)") auto

function FirstSetLoop :: "(nat \<Rightarrow> ulong) \<Rightarrow> nat \<Rightarrow> nat \<Rightarrow> nat \<Rightarrow> nat \<Rightarrow> nat \<times> nat" where
  "FirstSetLoop b Bytes CurrentByteIndex Size Index =
     (if CurrentByteIndex < Bytes then
        let CurrentByte = buf_byte b CurrentByteIndex
        in if CurrentByte = 0 \<and> Size = 0
           then FirstSetLoop b Bytes (CurrentByteIndex + 1) Size Index
           else if CurrentByte = 0xFF
           then FirstSetLoop b Bytes (CurrentByteIndex + 1) (u32 (Size + 8))
                  (if Index = MAXULONG then u32 (CurrentByteIndex * 8) else Index)
           else if Size \<noteq> 0
           then (u32 (Size + RtlpBitsSetLow CurrentByte), Index)
           else if RtlpBitsSetHigh CurrentByte = 0
           then (RtlpBitSetAnywhere CurrentByte,
                 u32 (u32 (CurrentByteIndex * 8)
                      + FitSet (FillMask ! RtlpBitSetAnywhere CurrentByte) CurrentByte 0))
           else FirstSetLoop b Bytes (CurrentByteIndex + 1) (RtlpBitsSetHigh CurrentByte)
                  (u32 (u32 (CurrentByteIndex * 8) + (8 - RtlpBitsSetHigh CurrentByte)))
      else (Size, Index))"
  by pat_completeness auto
termination
  by (relation "measure (\<lambda>(b, Bytes, CurrentByteIndex, Size, Index). Bytes - CurrentByteIndex)") auto

declare FirstClearLoop.simps [simp del] FirstSetLoop.simps [simp del]

definition RtlFindFirstRunClear :: "RTL_BITMAP \<Rightarrow> RTL_BITMAP \<times> nat \<times> nat" where
  "RtlFindFirstRunClear BitMapHeader =
     (let bm = SetUnusedBits BitMapHeader;
          (RunSize, RunIndex) = FirstClearLoop (Buffer bm) (SizeInBytes BitMapHeader) 0 0 MAXULONG
      in (bm, RunIndex, RunSize))"

definition RtlFindFirstRunSet :: "RTL_BITMAP \<Rightarrow> RTL_BITMAP \<times> nat \<times> nat" where
  "RtlFindFirstRunSet BitMapHeader =
     (let bm = ClearUnusedBits BitMapHeader;
          (RunSize, RunIndex) = FirstSetLoop (Buffer bm) (SizeInBytes BitMapHeader) 0 0 MAXULONG
      in (bm, RunIndex, RunSize))"

section \<open>Counting\<close>

function CountClearLoop :: "(nat \<Rightarrow> ulong) \<Rightarrow> nat \<Rightarrow> nat \<Rightarrow> nat \<Rightarrow> nat" where
  "CountClearLoop b Bytes i TotalClear =
     (if i < Bytes
      then CountClearLoop b Bytes (i + 1) (u32 (TotalClear + BitsClearTotal (buf_byte b i)))
      else TotalClear)"
  by pat_completeness auto
termination
  by (relation "measure (\<lambda>(b, Bytes, i, TotalClear). Bytes - i)") auto

function CountSetLoop :: "(nat \<Rightarrow> ulong) \<Rightarrow> nat \<Rightarrow> nat \<Rightarrow> nat \<Rightarrow> nat" where
  "CountSetLoop b Bytes i TotalSet =
     (if i < Bytes
      then CountSetLoop b Bytes (i + 1) (u32 (TotalSet + RtlpBitsSetTotal (buf_byte b i)))
      else TotalSet)"
  by pat_completeness auto
termination
  by (relation "measure (\<lambda>(b, Bytes, i, TotalSet). Bytes - i)") auto

declare CountClearLoop.simps [simp del] CountSetLoop.simps [simp del]

definition RtlNumberOfClearBits :: "RTL_BITMAP \<Rightarrow> RTL_BITMAP \<times> nat" where
  "RtlNumberOfClearBits BitMapHeader =
     (let bm = SetUnusedBits BitMapHeader
      in (bm, CountClearLoop (Buffer bm) (SizeInBytes BitMapHeader) 0 0))"

definition RtlNumberOfSetBits :: "RTL_BITMAP \<Rightarrow> RTL_BITMAP \<times> nat" where
  "RtlNumberOfSetBits BitMapHeader =
     (let bm = ClearUnusedBits BitMapHeader
      in (bm, CountSetLoop (Buffer bm) (SizeInBytes BitMapHeader) 0 0))"

section \<open>Testing a range\<close>

function WholeBytes :: "(nat \<Rightarrow> ulong) \<Rightarrow> uchar \<Rightarrow> nat \<Rightarrow> nat \<Rightarrow> bool" where
  \<comment> \<open>every byte from \<open>i\<close> up to \<open>EndingByte\<close> has the value \<open>v\<close>\<close>
  "WholeBytes b v i EndingByte =
     (if i < EndingByte then buf_byte b i = v \<and> WholeBytes b v (i + 1) EndingByte else True)"
  by pat_completeness auto
termination
  by (relation "measure (\<lambda>(b, v, i, EndingByte). EndingByte - i)") auto

declare WholeBytes.simps [simp del]

definition RtlAreBitsClear :: "RTL_BITMAP \<Rightarrow> nat \<Rightarrow> nat \<Rightarrow> bool" where
  "RtlAreBitsClear BitMapHeader StartingIndex Length =
     (if u32 (StartingIndex + Length) > SizeOfBitMap BitMapHeader \<or> Length = 0 then False
      else
        let b = Buffer BitMapHeader;
            EndingIndex = u32_sub (u32 (StartingIndex + Length)) 1;
            StartingByte = StartingIndex div 8;
            EndingByte = EndingIndex div 8;
            StartingOffset = StartingIndex mod 8;
            EndingOffset = EndingIndex mod 8
        in if StartingByte = EndingByte
           then ZeroMask ! StartingOffset AND FillMask ! (EndingOffset + 1) AND buf_byte b StartingByte = 0
           else ZeroMask ! StartingOffset AND buf_byte b StartingByte = 0 \<and>
                WholeBytes b 0 (StartingByte + 1) EndingByte \<and>
                FillMask ! (EndingOffset + 1) AND
                  buf_byte b (StartingByte + 1 + (EndingByte - (StartingByte + 1))) = 0)"

definition RtlAreBitsSet :: "RTL_BITMAP \<Rightarrow> nat \<Rightarrow> nat \<Rightarrow> bool" where
  "RtlAreBitsSet BitMapHeader StartingIndex Length =
     (if u32 (StartingIndex + Length) > SizeOfBitMap BitMapHeader \<or> Length = 0 then False
      else
        let b = Buffer BitMapHeader;
            EndingIndex = u32_sub (u32 (StartingIndex + Length)) 1;
            StartingByte = StartingIndex div 8;
            EndingByte = EndingIndex div 8;
            StartingOffset = StartingIndex mod 8;
            EndingOffset = EndingIndex mod 8
        in if StartingByte = EndingByte
           then ZeroMask ! StartingOffset AND FillMask ! (EndingOffset + 1) AND NOT (buf_byte b StartingByte) = 0
           else ZeroMask ! StartingOffset AND NOT (buf_byte b StartingByte) = 0 \<and>
                WholeBytes b 0xFF (StartingByte + 1) EndingByte \<and>
                FillMask ! (EndingOffset + 1) AND
                  NOT (buf_byte b (StartingByte + 1 + (EndingByte - (StartingByte + 1)))) = 0)"

end
