(* ===== verification/Bitmap_Bits.thy ===== *)
theory Bitmap_Bits
  imports Bitmap_Model
begin

text \<open>
  Facts shared by the bit map proofs: the bit view of a buffer, what the lookup tables hold,
  where the mask loops stop, and the symmetry between clear and set bits (the code for set
  bits on a buffer is the code for clear bits on its complement).
\<close>

section \<open>The bit view\<close>

definition buf_bit :: "(nat \<Rightarrow> ulong) \<Rightarrow> nat \<Rightarrow> bool" where
  "buf_bit b i = bit (b (i div 32)) (i mod 32)"

abbreviation bit_at :: "RTL_BITMAP \<Rightarrow> nat \<Rightarrow> bool" where
  "bit_at bm \<equiv> buf_bit (Buffer bm)"

abbreviation is_clear :: "(nat \<Rightarrow> ulong) \<Rightarrow> nat \<Rightarrow> bool" where
  "is_clear b i \<equiv> \<not> buf_bit b i"

definition wf_bitmap :: "RTL_BITMAP \<Rightarrow> bool" where
  \<comment> \<open>the size can be rounded up to whole longwords without overflow\<close>
  "wf_bitmap bm \<longleftrightarrow> SizeOfBitMap bm + 31 < 4294967296"

lemma div_32: "j div 32 = j div 8 div (4::nat)"
  by (simp add: div_mult2_eq [symmetric])

lemma mod_32: "j mod 32 = 8 * (j div 8 mod 4) + j mod (8::nat)"
  using mod_mult2_eq [of j 8 4] by simp

lemma byte_index:
  "k < 8 \<Longrightarrow> (8 * i + k) div 32 = i div 4"
  "k < 8 \<Longrightarrow> (8 * i + k) mod 32 = 8 * (i mod 4) + (k::nat)"
  by (simp_all add: div_32 mod_32)

lemma bit_buf_byte: "bit (buf_byte b i) k \<longleftrightarrow> k < 8 \<and> buf_bit b (8 * i + k)"
  using byte_index [of k i]
  by (auto simp: buf_byte_def buf_bit_def bit_ucast_iff bit_drop_bit_eq)

lemma bit_buf_byte_div: "buf_bit b j = bit (buf_byte b (j div 8)) (j mod 8)"
  by (simp add: bit_buf_byte)

lemma ulong_255: "(255 :: ulong) = mask 8"
  by (simp add: mask_eq_exp_minus_1)

lemma bit_ulong_255: "bit (255 :: ulong) n \<longleftrightarrow> n < 8"
  unfolding ulong_255 by (simp only: bit_mask_iff) auto

lemma div_eq_window: "k div 8 = c \<longleftrightarrow> 8 * c \<le> k \<and> k - 8 * c < (8::nat)"
  by auto

lemma bit_put_word:
  fixes w :: ulong and v :: uchar
  assumes "k < 32"
  shows "bit ((w AND NOT (push_bit (8 * c) 255)) OR push_bit (8 * c) (ucast v)) k =
         (if k div 8 = c then bit v (k mod 8) else bit w k)"
proof -
  have m: "bit (push_bit (8 * c) (255::ulong)) k \<longleftrightarrow> k div 8 = c"
    using assms unfolding div_eq_window by (simp only: bit_push_bit_iff bit_ulong_255) simp
  have "k mod 8 = k - 8 * c" if "k div 8 = c"
    using that by (simp add: modulo_nat_def)
  then have p: "bit (push_bit (8 * c) (ucast v :: ulong)) k \<longleftrightarrow> k div 8 = c \<and> bit v (k mod 8)"
    using assms bit_imp_le_length [of v "k - 8 * c"] unfolding bit_push_bit_iff bit_ucast_iff
    by (auto simp: div_eq_window)
  show ?thesis
    using assms by (simp only: bit_or_iff bit_and_iff bit_not_iff m p) simp
qed

lemma buf_bit_put_byte:
  "buf_bit (buf_put_byte b i v) j = (if j div 8 = i then bit v (j mod 8) else buf_bit b j)"
proof (cases "j div 32 = i div 4")
  case True
  have "j mod 32 div 8 = i mod 4 \<longleftrightarrow> j div 8 mod 4 = i mod 4" "j mod 32 mod 8 = j mod 8"
    by (simp_all add: mod_32)
  moreover have "j div 8 mod 4 = i mod 4 \<longleftrightarrow> j div 8 = i"
    using True by (metis div_32 div_mult_mod_eq)
  ultimately have "j mod 32 div 8 = i mod 4 \<longleftrightarrow> j div 8 = i" "j mod 32 mod 8 = j mod 8"
    by simp_all
  then show ?thesis
    using True bit_put_word [of "j mod 32" "b (i div 4)" "i mod 4" v]
    by (simp add: buf_bit_def buf_put_byte_def)
next
  case False
  then have "j div 8 \<noteq> i" by (auto simp: div_32)
  with False show ?thesis by (simp add: buf_bit_def buf_put_byte_def)
qed

section \<open>What the tables hold\<close>

lemma bit_uchar_less: "bit (v :: uchar) k \<Longrightarrow> k < 8"
  using bit_imp_le_length [of v k] by simp

lemma bit_FillMask: "r \<le> 8 \<Longrightarrow> bit (FillMask ! r) k \<longleftrightarrow> k < 8 \<and> k < r"
proof -
  assume r: "r \<le> 8"
  have "list_all (\<lambda>r. list_all (\<lambda>k. bit (FillMask ! r) k \<longleftrightarrow> k < r) [0..<8]) [0..<9]"
    by code_simp
  then show ?thesis
    using r bit_uchar_less [of "FillMask ! r" k] by (fastforce simp: list_all_iff)
qed

lemma bit_ZeroMask: "r \<le> 8 \<Longrightarrow> bit (ZeroMask ! r) k \<longleftrightarrow> k < 8 \<and> r \<le> k"
proof -
  assume r: "r \<le> 8"
  have "list_all (\<lambda>r. list_all (\<lambda>k. bit (ZeroMask ! r) k \<longleftrightarrow> r \<le> k) [0..<8]) [0..<9]"
    by code_simp
  then show ?thesis
    using r bit_uchar_less [of "ZeroMask ! r" k] by (fastforce simp: list_all_iff)
qed

abbreviation byte_clear :: "uchar \<Rightarrow> nat \<Rightarrow> bool" where
  "byte_clear b k \<equiv> \<not> bit b k"

definition clear_upto :: "uchar \<Rightarrow> nat \<Rightarrow> nat \<Rightarrow> bool" where
  "clear_upto b s n = list_all (\<lambda>k. \<not> bit b (s + k)) [0..<n]"

lemma clear_upto_run: "clear_upto b s n = run (byte_clear b) s n"
  by (auto simp: clear_upto_def run_def list_all_iff)

lemma BitsClearLow_check:
  "BitsClearLow b \<le> 8 \<and> clear_upto b 0 (BitsClearLow b) \<and>
   (BitsClearLow b < 8 \<longrightarrow> bit b (BitsClearLow b))"
  by (rule byte_all [of "\<lambda>b. BitsClearLow b \<le> 8 \<and> clear_upto b 0 (BitsClearLow b) \<and>
        (BitsClearLow b < 8 \<longrightarrow> bit b (BitsClearLow b))"]) code_simp

lemma BitsClearHigh_check:
  "BitsClearHigh b \<le> 8 \<and> clear_upto b (8 - BitsClearHigh b) (BitsClearHigh b) \<and>
   (BitsClearHigh b < 8 \<longrightarrow> bit b (7 - BitsClearHigh b))"
  by (rule byte_all [of "\<lambda>b. BitsClearHigh b \<le> 8 \<and> clear_upto b (8 - BitsClearHigh b) (BitsClearHigh b) \<and>
        (BitsClearHigh b < 8 \<longrightarrow> bit b (7 - BitsClearHigh b))"]) code_simp

lemma BitsClearAnywhere_check:
  "BitsClearAnywhere b \<le> 8 \<and>
   list_ex (\<lambda>s. s + BitsClearAnywhere b \<le> 8 \<and> clear_upto b s (BitsClearAnywhere b)) [0..<9] \<and>
   list_all (\<lambda>s. s + Suc (BitsClearAnywhere b) \<le> 8 \<longrightarrow> \<not> clear_upto b s (Suc (BitsClearAnywhere b))) [0..<8]"
  by (rule byte_all [of "\<lambda>b. BitsClearAnywhere b \<le> 8 \<and>
   list_ex (\<lambda>s. s + BitsClearAnywhere b \<le> 8 \<and> clear_upto b s (BitsClearAnywhere b)) [0..<9] \<and>
   list_all (\<lambda>s. s + Suc (BitsClearAnywhere b) \<le> 8 \<longrightarrow> \<not> clear_upto b s (Suc (BitsClearAnywhere b))) [0..<8]"])
    code_simp

lemma BitsClearTotal_check:
  "BitsClearTotal b = length (filter (\<lambda>k. \<not> bit b k) [0..<8])"
  by (rule byte_all [of "\<lambda>b. BitsClearTotal b = length (filter (\<lambda>k. \<not> bit b k) [0..<8])"]) code_simp

lemma low_le [simp]: "BitsClearLow b \<le> 8"
  using BitsClearLow_check [of b] by simp

lemma low_run: "run (byte_clear b) 0 (BitsClearLow b)"
  using BitsClearLow_check [of b] by (simp add: clear_upto_run)

lemma low_max: "n \<le> 8 \<Longrightarrow> run (byte_clear b) 0 n \<Longrightarrow> n \<le> BitsClearLow b"
  using BitsClearLow_check [of b] runD [of "byte_clear b" 0 n "BitsClearLow b"] by linarith

lemma high_le [simp]: "BitsClearHigh b \<le> 8"
  using BitsClearHigh_check [of b] by simp

lemma high_run: "run (byte_clear b) (8 - BitsClearHigh b) (BitsClearHigh b)"
  using BitsClearHigh_check [of b] by (simp add: clear_upto_run)

lemma high_max: "n \<le> 8 \<Longrightarrow> run (byte_clear b) (8 - n) n \<Longrightarrow> n \<le> BitsClearHigh b"
proof (rule ccontr)
  assume n: "n \<le> 8" "run (byte_clear b) (8 - n) n" and "\<not> n \<le> BitsClearHigh b"
  then have "BitsClearHigh b < 8" "8 - n \<le> 7 - BitsClearHigh b" "7 - BitsClearHigh b < 8 - n + n"
    by auto
  then show False
    using BitsClearHigh_check [of b] runD [OF n(2), of "7 - BitsClearHigh b"] by blast
qed

lemma anywhere_le [simp]: "BitsClearAnywhere b \<le> 8"
  using BitsClearAnywhere_check [of b] by simp

lemma anywhere_run:
  obtains s where "s + BitsClearAnywhere b \<le> 8" "run (byte_clear b) s (BitsClearAnywhere b)"
  using BitsClearAnywhere_check [of b] by (auto simp: clear_upto_run list_ex_iff)

lemma anywhere_max:
  assumes "s + n \<le> 8" "run (byte_clear b) s n"
  shows "n \<le> BitsClearAnywhere b"
proof (rule ccontr)
  assume "\<not> n \<le> BitsClearAnywhere b"
  then have n: "Suc (BitsClearAnywhere b) \<le> n" by simp
  then have "run (byte_clear b) s (Suc (BitsClearAnywhere b))" "s + Suc (BitsClearAnywhere b) \<le> 8" "s < 8"
    using assms by (auto intro: run_mono)
  moreover have "\<forall>s\<in>{0..<8}. s + Suc (BitsClearAnywhere b) \<le> 8 \<longrightarrow> \<not> run (byte_clear b) s (Suc (BitsClearAnywhere b))"
    using BitsClearAnywhere_check [of b] unfolding clear_upto_run list_all_iff by simp
  ultimately show False by auto
qed

lemma low_high_zero [simp]:
  "BitsClearLow 0 = 8" "BitsClearHigh 0 = 8" "BitsClearAnywhere 0 = 8"
  "BitsClearLow 255 = 0" "BitsClearHigh 255 = 0" "BitsClearAnywhere 255 = 0"
  by code_simp+

lemma high_less: "b \<noteq> 0 \<Longrightarrow> BitsClearHigh b < 8"
proof (rule ccontr)
  assume "b \<noteq> 0" "\<not> BitsClearHigh b < 8"
  then have "run (byte_clear b) 0 8"
    using high_run [of b] high_le [of b] by (simp add: not_less)
  then have "b = 0"
    by (auto intro!: bit_word_eqI simp: run_def)
  with \<open>b \<noteq> 0\<close> show False by simp
qed

text \<open>The mask loop finds the first position in the byte where the run fits.\<close>

lemma FitClear_spec:
  assumes mask: "\<And>k. bit m k \<longleftrightarrow> k < 8 \<and> i \<le> k \<and> k < i + n"
    and fit: "i \<le> s" "s + n \<le> 8" "run (byte_clear b) s n"
  shows "i \<le> FitClear m b i \<and> FitClear m b i \<le> s \<and> run (byte_clear b) (FitClear m b i) n \<and>
         (\<forall>j. i \<le> j \<longrightarrow> j < FitClear m b i \<longrightarrow> \<not> run (byte_clear b) j n)"
  using mask fit
proof (induction m b i rule: FitClear.induct)
  case (1 m b i)
  show ?case
  proof (cases "m AND b = 0")
    case True
    have "run (byte_clear b) i n"
    proof (rule runI)
      fix k assume k: "i \<le> k" "k < i + n"
      then have "k < 8" using "1.prems"(2,3) by linarith
      with k have "bit m k" using "1.prems"(1) by simp
      moreover have "\<not> bit (m AND b) k" using True by simp
      ultimately show "\<not> bit b k" by (simp add: bit_and_iff)
    qed
    then show ?thesis using True 1 by (simp add: FitClear.simps [of m b i])
  next
    case False
    then obtain k where k: "bit (m AND b) k" by (auto simp: bit_eq_iff)
    then have kb: "bit b k" "i \<le> k" "k < i + n" using 1 by (auto simp: bit_and_iff)
    then have nr: "\<not> run (byte_clear b) i n" by (auto dest: runD)
    with "1.prems" have less: "i + 1 \<le> s" by (metis Suc_eq_plus1 le_antisym not_less_eq_eq)
    then have u: "u32 (i + 1) = i + 1" using "1.prems"(3) by simp
    have mask': "bit (push_bit 1 m) k \<longleftrightarrow> k < 8 \<and> i + 1 \<le> k \<and> k < i + 1 + n" for k
      using "1.prems"(1) [of "k - 1"] unfolding bit_push_bit_iff by auto
    have eq: "FitClear m b i = FitClear (push_bit 1 m) b (i + 1)"
      using False u by (simp only: FitClear.simps [of m b i]) simp
    note IH = "1.IH" [OF False, unfolded u, OF mask' less "1.prems"(3,4)]
    have "\<not> run (byte_clear b) j n" if "i \<le> j" "j < FitClear (push_bit 1 m) b (i + 1)" for j
      using IH nr that by (cases "j = i") auto
    with IH show ?thesis unfolding eq by auto
  qed
qed

lemma FitClear_first:
  assumes n: "n \<le> BitsClearAnywhere b"
  defines "r \<equiv> FitClear (FillMask ! n) b 0"
  shows "r + n \<le> 8" "run (byte_clear b) r n" "\<And>j. j < r \<Longrightarrow> \<not> run (byte_clear b) j n"
proof -
  obtain s where s: "s + BitsClearAnywhere b \<le> 8" "run (byte_clear b) s (BitsClearAnywhere b)"
    by (rule anywhere_run)
  then have s': "s + n \<le> 8" "run (byte_clear b) s n"
    using n by (auto intro: run_mono)
  have "n \<le> 8" using n anywhere_le [of b] by linarith
  then have "bit (FillMask ! n) k \<longleftrightarrow> k < 8 \<and> 0 \<le> k \<and> k < 0 + n" for k
    by (simp add: bit_FillMask)
  from FitClear_spec [OF this _ s']
  show "r + n \<le> 8" "run (byte_clear b) r n" "\<And>j. j < r \<Longrightarrow> \<not> run (byte_clear b) j n"
    unfolding r_def using s'(1) by auto
qed

section \<open>Clear and set are symmetric\<close>

definition compl_buf :: "(nat \<Rightarrow> ulong) \<Rightarrow> (nat \<Rightarrow> ulong)" where
  "compl_buf b = (\<lambda>i. NOT (b i))"

definition compl_bm :: "RTL_BITMAP \<Rightarrow> RTL_BITMAP" where
  "compl_bm bm = bm\<lparr>Buffer := compl_buf (Buffer bm)\<rparr>"

lemma buf_bit_compl [simp]: "buf_bit (compl_buf b) i = (\<not> buf_bit b i)"
  by (simp add: buf_bit_def compl_buf_def bit_not_iff)

lemma compl_buf_compl [simp]: "compl_buf (compl_buf b) = b"
  by (simp add: compl_buf_def)

lemma compl_bm_simps [simp]:
  "SizeOfBitMap (compl_bm bm) = SizeOfBitMap bm" "Buffer (compl_bm bm) = compl_buf (Buffer bm)"
  "compl_bm (compl_bm bm) = bm" "SizeInBytes (compl_bm bm) = SizeInBytes bm"
  "wf_bitmap (compl_bm bm) = wf_bitmap bm"
  by (simp_all add: compl_bm_def SizeInBytes_def wf_bitmap_def)

lemma buf_byte_eqI: "(\<And>k. k < 8 \<Longrightarrow> bit v k = buf_bit b (8 * i + k)) \<Longrightarrow> buf_byte b i = v"
  by (rule bit_word_eqI) (simp add: bit_buf_byte)

lemma buf_byte_compl [simp]: "buf_byte (compl_buf b) i = NOT (buf_byte b i)"
  by (rule buf_byte_eqI) (simp add: bit_not_iff bit_buf_byte)

lemma buf_eqI: "(\<And>i. buf_bit b i = buf_bit c i) \<Longrightarrow> b = c"
proof (rule ext, rule bit_word_eqI)
  fix x k
  assume eq: "\<And>i. buf_bit b i = buf_bit c i" and k: "k < LENGTH(32)"
  have "(32 * x + k) div 32 = x" "(32 * x + k) mod 32 = k" using k by simp_all
  then show "bit (b x) k = bit (c x) k"
    using eq [of "32 * x + k"] by (simp add: buf_bit_def)
qed

lemma set_tables_compl [simp]:
  "RtlpBitSetAnywhere b = BitsClearAnywhere (NOT b)" "RtlpBitsSetLow b = BitsClearLow (NOT b)"
  "RtlpBitsSetHigh b = BitsClearHigh (NOT b)" "RtlpBitsSetTotal b = BitsClearTotal (NOT b)"
  by (simp_all add: RtlpBitSetAnywhere_def RtlpBitsSetLow_def RtlpBitsSetHigh_def
      RtlpBitsSetTotal_def BitsClearAnywhere_def BitsClearLow_def BitsClearHigh_def BitsClearTotal_def)

lemma and_eq_left_iff: "m AND b = m \<longleftrightarrow> m AND NOT b = (0 :: uchar)"
  by (auto simp: bit_eq_iff bit_and_iff bit_not_iff)

lemma FitSet_compl: "FitSet m b i = FitClear m (NOT b) i"
proof (induction m b i rule: FitSet.induct)
  case (1 m b i)
  then show ?case
    by (auto simp: FitSet.simps [of m b i] FitClear.simps [of m "NOT b" i] and_eq_left_iff)
qed

lemma NOT_eq_swap: "NOT b = (0 :: uchar) \<longleftrightarrow> b = 255" "NOT b = (255 :: uchar) \<longleftrightarrow> b = 0"
proof -
  have "NOT (255 :: uchar) = 0" "NOT (0 :: uchar) = 255" by simp_all
  then show "NOT b = (0 :: uchar) \<longleftrightarrow> b = 255" "NOT b = (255 :: uchar) \<longleftrightarrow> b = 0"
    by (metis bit.double_compl)+
qed

section \<open>The unused bits of the last byte\<close>

lemma SizeInBytes_bounds:
  assumes "wf_bitmap bm"
  shows "SizeOfBitMap bm \<le> 8 * SizeInBytes bm" "8 * SizeInBytes bm < SizeOfBitMap bm + 8"
    "8 * SizeInBytes bm < 4294967296"
  using assms by (auto simp: wf_bitmap_def SizeInBytes_def)

lemma SetUnusedBits_size [simp]: "SizeOfBitMap (SetUnusedBits bm) = SizeOfBitMap bm"
  by (simp add: SetUnusedBits_def)

lemma bit_SetUnusedBits:
  assumes "wf_bitmap bm"
  shows "bit_at (SetUnusedBits bm) j \<longleftrightarrow>
         bit_at bm j \<or> SizeOfBitMap bm \<le> j \<and> j < 8 * SizeInBytes bm"
proof (cases "SizeOfBitMap bm mod 8 = 0")
  case True
  then have "8 * SizeInBytes bm = SizeOfBitMap bm"
    using assms by (auto simp: wf_bitmap_def SizeInBytes_def)
  then show ?thesis using True by (auto simp: SetUnusedBits_def)
next
  case False
  define q where "q = SizeOfBitMap bm div 8"
  define r where "r = SizeOfBitMap bm mod 8"
  have qr: "SizeOfBitMap bm = 8 * q + r" "0 < r" "r < 8"
    using False by (auto simp: q_def r_def)
  have B: "SizeInBytes bm = q + 1" and S: "u32_sub (SizeInBytes bm) 1 = q"
    using assms qr by (auto simp: wf_bitmap_def SizeInBytes_def)
  have j: "j div 8 = q \<longleftrightarrow> 8 * q \<le> j \<and> j < 8 * (q + 1)" by auto
  show ?thesis
  proof (cases "j div 8 = q")
    case True
    then have "j = 8 * q + j mod 8" by (metis mult_div_mod_eq)
    then have "r \<le> j mod 8 \<longleftrightarrow> 8 * q + r \<le> j" by linarith
    then show ?thesis
      using False True qr B S j
      by (auto simp: SetUnusedBits_def buf_bit_put_byte bit_or_iff bit_ZeroMask bit_buf_byte)
  next
    case F: False
    then show ?thesis
      using False qr B S j by (auto simp: SetUnusedBits_def buf_bit_put_byte)
  qed
qed

lemma compl_put_byte: "buf_put_byte (compl_buf b) i (NOT v) = compl_buf (buf_put_byte b i v)"
  by (rule buf_eqI) (auto simp: buf_bit_put_byte bit_not_iff)

lemma FillMask_ZeroMask: "r \<le> 8 \<Longrightarrow> FillMask ! r = NOT (ZeroMask ! r)"
  by (rule bit_word_eqI) (auto simp: bit_not_iff bit_FillMask bit_ZeroMask)

lemma ClearUnusedBits_compl: "ClearUnusedBits bm = compl_bm (SetUnusedBits (compl_bm bm))"
proof (cases "SizeOfBitMap bm mod 8 = 0")
  case True
  then show ?thesis by (simp add: ClearUnusedBits_def SetUnusedBits_def)
next
  case False
  let ?i = "u32_sub (SizeInBytes bm) 1" and ?r = "SizeOfBitMap bm mod 8" and ?b = "Buffer bm"
  have "?r \<le> 8" by (simp add: less_imp_le)
  then have v: "FillMask ! ?r = NOT (ZeroMask ! ?r)"
    by (rule FillMask_ZeroMask)
  have "compl_buf (buf_put_byte (compl_buf ?b) ?i w) = buf_put_byte ?b ?i (NOT w)" for w
    by (simp add: compl_put_byte [symmetric])
  then show ?thesis
    using False by (simp add: ClearUnusedBits_def SetUnusedBits_def v compl_bm_def SizeInBytes_def)
qed

lemma bit_ClearUnusedBits:
  "wf_bitmap bm \<Longrightarrow> bit_at (ClearUnusedBits bm) j \<longleftrightarrow>
     bit_at bm j \<and> \<not> (SizeOfBitMap bm \<le> j \<and> j < 8 * SizeInBytes bm)"
  by (simp add: ClearUnusedBits_compl bit_SetUnusedBits)

lemma ClearUnusedBits_size [simp]: "SizeOfBitMap (ClearUnusedBits bm) = SizeOfBitMap bm"
  by (simp add: ClearUnusedBits_compl)

lemma SizeInBytes_unused [simp]:
  "SizeInBytes (SetUnusedBits bm) = SizeInBytes bm" "SizeInBytes (ClearUnusedBits bm) = SizeInBytes bm"
  by (simp_all add: SizeInBytes_def)

lemma wf_unused [simp]:
  "wf_bitmap (SetUnusedBits bm) = wf_bitmap bm" "wf_bitmap (ClearUnusedBits bm) = wf_bitmap bm"
  by (simp_all add: wf_bitmap_def)

end
