(* ===== verification/Bitmap_Find.thy ===== *)
theory Bitmap_Find
  imports Bitmap_Bits
begin

text \<open>
  \<open>RtlFindClearBits\<close> and \<open>RtlFindSetBits\<close>: what they return is a run of the requested
  length inside the bit map, and when they report none there is none, up to the one case
  the byte loop for long runs misses.
\<close>

section \<open>Runs across byte boundaries\<close>

lemma byte_run: "s + n \<le> 8 \<Longrightarrow> run (byte_clear (buf_byte b p)) s n = run (is_clear b) (8 * p + s) n"
  unfolding run_def by (simp add: bit_buf_byte add.assoc)

definition open_run :: "(nat \<Rightarrow> ulong) \<Rightarrow> nat \<Rightarrow> nat \<Rightarrow> nat \<Rightarrow> nat \<Rightarrow> bool" where
  \<comment> \<open>\<open>h\<close> clear bits end at bit \<open>e\<close>, and no more among runs from \<open>lo\<close> on of length up to \<open>c\<close>\<close>
  "open_run b lo e h c \<longleftrightarrow> lo + h \<le> e \<and> run (is_clear b) (e - h) h \<and>
     (\<forall>s. lo \<le> s \<longrightarrow> s \<le> e \<longrightarrow> e - s \<le> c \<longrightarrow> run (is_clear b) s (e - s) \<longrightarrow> e - s \<le> h)"

definition high_at :: "(nat \<Rightarrow> ulong) \<Rightarrow> nat \<Rightarrow> nat \<Rightarrow> uchar \<Rightarrow> bool" where
  \<comment> \<open>\<open>v\<close> is the byte before \<open>p\<close>, or all ones where the scan starts\<close>
  "high_at b lo p v \<longleftrightarrow> lo < p \<and> v = buf_byte b (p - 1) \<or> p = lo \<and> v = 255"

definition found :: "(nat \<Rightarrow> ulong) \<Rightarrow> nat \<Rightarrow> nat \<Rightarrow> nat \<Rightarrow> nat \<Rightarrow> bool" where
  "found b lo hi n r \<longleftrightarrow> lo \<le> r \<and> r + n \<le> hi \<and> run (is_clear b) r n"

definition no_clear_run :: "(nat \<Rightarrow> ulong) \<Rightarrow> nat \<Rightarrow> nat \<Rightarrow> nat \<Rightarrow> bool" where
  "no_clear_run b lo hi n \<longleftrightarrow> (\<forall>s. 0 < n \<longrightarrow> lo \<le> s \<longrightarrow> s + n \<le> hi \<longrightarrow> \<not> run (is_clear b) s n)"

definition tail_set :: "(nat \<Rightarrow> ulong) \<Rightarrow> nat \<Rightarrow> nat \<Rightarrow> bool" where
  "tail_set b Size hi \<longleftrightarrow> (\<forall>j. Size \<le> j \<longrightarrow> j < hi \<longrightarrow> buf_bit b j)"

lemma tail_set_run:
  assumes "tail_set b Size hi" "run (is_clear b) s n" "0 < n" "s + n \<le> hi"
  shows "s + n \<le> Size"
proof (rule ccontr)
  assume "\<not> s + n \<le> Size"
  then have "buf_bit b (s + n - 1)" using assms by (auto simp: tail_set_def)
  moreover have "is_clear b (s + n - 1)" by (rule runD [OF assms(2)]) (use assms in auto)
  ultimately show False by simp
qed

lemma high_at_open: "lo \<le> p \<Longrightarrow> high_at b lo p v \<Longrightarrow> open_run b (8 * lo) (8 * p) (BitsClearHigh v) 8"
proof -
  assume lo: "lo \<le> p" and h: "high_at b lo p v"
  show ?thesis
  proof (cases "lo < p")
    case True
    then obtain q where q: "p = Suc q" by (cases p) auto
    have v: "v = buf_byte b q" using h True q by (auto simp: high_at_def)
    have hl: "BitsClearHigh v \<le> 8" by simp
    have r: "run (is_clear b) (8 * p - BitsClearHigh v) (BitsClearHigh v)"
      using high_run [of v] byte_run [of "8 - BitsClearHigh v" "BitsClearHigh v" b q] hl
      unfolding v q by (simp add: add.commute)
    have "8 * p - s \<le> BitsClearHigh v"
      if s: "s \<le> 8 * p" "8 * p - s \<le> 8" "run (is_clear b) s (8 * p - s)" for s
    proof -
      have e: "8 * q + (8 - (8 * p - s)) = s" using s q by simp
      show ?thesis
        using high_max [of "8 * p - s" v] byte_run [of "8 - (8 * p - s)" "8 * p - s" b q] s
        unfolding v e by simp
    qed
    moreover have "8 * lo + BitsClearHigh v \<le> 8 * p" using hl True by linarith
    ultimately show ?thesis using r by (auto simp: open_run_def)
  next
    case False
    then have "p = lo" "v = 255" using h lo by (auto simp: high_at_def)
    then show ?thesis by (auto simp: open_run_def)
  qed
qed

lemma open_run_hit:
  assumes "open_run b lo (8 * p) h c" "n \<le> h + BitsClearLow (buf_byte b p)"
  shows "run (is_clear b) (8 * p - h) n" "lo \<le> 8 * p - h" "8 * p - h + n \<le> 8 * (p + 1)"
proof -
  have h: "lo + h \<le> 8 * p" "run (is_clear b) (8 * p - h) h"
    using assms(1) by (auto simp: open_run_def)
  have l: "run (is_clear b) (8 * p) (BitsClearLow (buf_byte b p))"
    using low_run [of "buf_byte b p"] byte_run [of 0 "BitsClearLow (buf_byte b p)" b p] by simp
  show "run (is_clear b) (8 * p - h) n"
    by (rule run_glue [OF h(2) l]) (use h(1) assms(2) in auto)
  show "lo \<le> 8 * p - h" using h by simp
  have "n \<le> h + 8" using assms(2) low_le [of "buf_byte b p"] by linarith
  then show "8 * p - h + n \<le> 8 * (p + 1)" using h(1) by simp
qed

lemma open_run_cross:
  assumes "open_run b lo (8 * p) h c" "run (is_clear b) s n"
    and "lo \<le> s" "s \<le> 8 * p" "8 * p - s \<le> c" "8 * p \<le> s + n" "s + n \<le> 8 * (p + 1)"
  shows "n \<le> h + BitsClearLow (buf_byte b p)" "8 * p - h \<le> s"
proof -
  have "run (is_clear b) s (8 * p - s)" by (rule run_mono [OF assms(2)]) (use assms in auto)
  then have h: "8 * p - s \<le> h" using assms unfolding open_run_def by blast
  have "run (is_clear b) (8 * p + 0) (s + n - 8 * p)" by (rule run_mono [OF assms(2)]) (use assms in auto)
  then have "run (byte_clear (buf_byte b p)) 0 (s + n - 8 * p)"
    using byte_run [of 0 "s + n - 8 * p" b p] assms by simp
  then have "s + n - 8 * p \<le> BitsClearLow (buf_byte b p)" using low_max assms by simp
  with h assms show "n \<le> h + BitsClearLow (buf_byte b p)" by simp
  show "8 * p - h \<le> s" using h by simp
qed

section \<open>The three byte loops\<close>

lemma FindClearSmall_spec:
  assumes "n \<le> 9" "8 * hi < 4294967296" "tail_set b Size (8 * hi)"
    and "lo \<le> p" "p \<le> hi" "high_at b lo p v" "no_clear_run b (8 * lo) (8 * p) n"
  shows "case FindClearSmall b Size n hi p (8 * p) v of
           Some r \<Rightarrow> found b (8 * lo) (8 * hi) n r | None \<Rightarrow> no_clear_run b (8 * lo) (8 * hi) n"
  using assms(4-7)
proof (induction "hi - p" arbitrary: p v)
  case 0
  then have "p = hi" by simp
  with 0 assms(2) show ?case by (simp add: FindClearSmall.simps mult.commute)
next
  case (Suc k)
  let ?c = "buf_byte b p" and ?h = "BitsClearHigh v"
  have p: "p < hi" "8 * p + 8 < 4294967296" using Suc.hyps(2) assms(2) by auto
  have o: "open_run b (8 * lo) (8 * p) ?h 8" using Suc.prems by (intro high_at_open)
  then have oh: "8 * lo + ?h \<le> 8 * p" by (simp add: open_run_def)
  have unfold: "FindClearSmall b Size n hi p (8 * p) v =
     (if n \<le> BitsClearAnywhere ?c then Some (8 * p + FitClear (FillMask ! n) ?c 0)
      else if n \<le> ?h + BitsClearLow ?c \<and> 8 * p - ?h + n \<le> Size then Some (8 * p - ?h)
      else FindClearSmall b Size n hi (p + 1) (8 * (p + 1)) ?c)"
  proof -
    have "n \<le> BitsClearAnywhere ?c \<Longrightarrow> FitClear (FillMask ! n) ?c 0 \<le> 8"
      using FitClear_first(1) [of n ?c] by simp
    then show ?thesis
      using p oh assms(1,2) by (subst FindClearSmall.simps) (auto simp: Let_def ac_simps)
  qed
  show ?case
  proof (cases "n \<le> BitsClearAnywhere ?c")
    case True
    note f = FitClear_first [OF True]
    have "run (is_clear b) (8 * p + FitClear (FillMask ! n) ?c 0) n" using f byte_run by blast
    then show ?thesis using True f(1) p Suc.prems unfold by (simp add: found_def)
  next
    case nA: False
    show ?thesis
    proof (cases "n \<le> ?h + BitsClearLow ?c \<and> 8 * p - ?h + n \<le> Size")
      case True
      then have "n \<le> ?h + BitsClearLow ?c" by simp
      from open_run_hit [OF o this] have "found b (8 * lo) (8 * hi) n (8 * p - ?h)"
        using p by (auto simp: found_def)
      then show ?thesis using nA True unfold by simp
    next
      case False
      have "no_clear_run b (8 * lo) (8 * (p + 1)) n"
        unfolding no_clear_run_def
      proof (intro allI impI notI)
        fix s assume s: "0 < n" "8 * lo \<le> s" "s + n \<le> 8 * (p + 1)" "run (is_clear b) s n"
        have gt: "8 * p < s + n" using Suc.prems(4) s unfolding no_clear_run_def by (meson not_le)
        have le: "s + n \<le> Size" using tail_set_run [OF assms(3) s(4,1)] s p by simp
        show False
        proof (cases "8 * p \<le> s")
          case True
          then have e: "8 * p + (s - 8 * p) = s" by simp
          have "n \<le> BitsClearAnywhere ?c"
            by (rule anywhere_max [of "s - 8 * p"])
              (use True s byte_run [of "s - 8 * p" n b p, unfolded e] in auto)
          with nA show False by simp
        next
          case F: False
          have "8 * p - s \<le> 8" using gt assms(1) by simp
          then show False using open_run_cross [OF o s(4,2)] F gt s le False by auto
        qed
      qed
      moreover have "high_at b lo (p + 1) ?c" using Suc.prems by (simp add: high_at_def)
      ultimately show ?thesis
        using Suc.hyps(1) [of "p + 1" ?c] Suc.hyps(2) Suc.prems p unfold nA False by auto
    qed
  qed
qed

lemma clear_byte_zero: "run (is_clear b) (8 * p) 8 \<Longrightarrow> buf_byte b p = 0"
  by (rule buf_byte_eqI) (auto simp: run_def)

lemma open_run_zero:
  assumes "open_run b lo (8 * q) h c" "run (is_clear b) (8 * q) 8"
  shows "open_run b lo (8 * (q + 1)) (h + 8) (c + 8)"
proof -
  have h: "lo + h \<le> 8 * q" "run (is_clear b) (8 * q - h) h"
    and m: "\<And>s. lo \<le> s \<Longrightarrow> s \<le> 8 * q \<Longrightarrow> 8 * q - s \<le> c \<Longrightarrow> run (is_clear b) s (8 * q - s) \<Longrightarrow> 8 * q - s \<le> h"
    using assms(1) by (auto simp: open_run_def)
  have "run (is_clear b) (8 * q - h) (h + 8)"
    by (rule run_glue [OF h(2) assms(2)]) (use h(1) in auto)
  moreover have "8 * (q + 1) - s \<le> h + 8"
    if s: "lo \<le> s" "8 * (q + 1) - s \<le> c + 8" "run (is_clear b) s (8 * (q + 1) - s)" for s
  proof (cases "s \<le> 8 * q")
    case True
    then have "run (is_clear b) s (8 * q - s)" using s(3) by (auto intro: run_mono)
    moreover have "8 * q - s \<le> c" using True s(2) by simp
    ultimately have "8 * q - s \<le> h" using m True s(1) by blast
    then show ?thesis by simp
  next
    case False
    then show ?thesis by simp
  qed
  ultimately show ?thesis using h(1) by (simp add: open_run_def)
qed

lemma FindClearMedium_spec:
  assumes "9 < n" "n < 15" "8 * hi < 4294967296" "tail_set b Size (8 * hi)"
    and "lo \<le> p" "p \<le> hi" "high_at b lo p v" "lo < p \<longrightarrow> high_at b lo (p - 1) w"
    and "no_clear_run b (8 * lo) (8 * p) n"
  shows "case FindClearMedium b Size n hi p (8 * p) w v of
           Some r \<Rightarrow> found b (8 * lo) (8 * hi) n r | None \<Rightarrow> no_clear_run b (8 * lo) (8 * hi) n"
  using assms(5-9)
proof (induction "hi - p" arbitrary: p v w)
  case 0
  then have "p = hi" by simp
  with 0 assms(3) show ?case by (simp add: FindClearMedium.simps mult.commute)
next
  case (Suc k)
  let ?c = "buf_byte b p" and ?h = "BitsClearHigh v" and ?g = "BitsClearHigh w + 8"
  have p: "p < hi" "8 * p + 8 < 4294967296" using Suc.hyps(2) assms(3) by auto
  have o: "open_run b (8 * lo) (8 * p) ?h 8" using Suc.prems by (intro high_at_open)
  then have oh: "8 * lo + ?h \<le> 8 * p" by (simp add: open_run_def)
  have o0: "open_run b (8 * lo) (8 * p) ?g (8 + 8)" if "v = 0"
  proof -
    have lp: "lo < p" using Suc.prems(3) that by (auto simp: high_at_def)
    have "open_run b (8 * lo) (8 * (p - 1)) (BitsClearHigh w) 8"
      using Suc.prems lp by (intro high_at_open) auto
    moreover have "run (is_clear b) (8 * (p - 1)) 8"
      using o that lp by (auto simp: open_run_def right_diff_distrib')
    ultimately have "open_run b (8 * lo) (8 * (p - 1 + 1)) ?g (8 + 8)" by (rule open_run_zero)
    moreover have "p - 1 + 1 = p" using lp by simp
    ultimately show ?thesis by simp
  qed
  then have og: "8 * lo + ?g \<le> 8 * p" if "v = 0" using that by (simp add: open_run_def)
  have unfold: "FindClearMedium b Size n hi p (8 * p) w v =
     (if n \<le> ?h + BitsClearLow ?c \<and> 8 * p - ?h + n \<le> Size then Some (8 * p - ?h)
      else if v = 0 \<and> n \<le> ?g + BitsClearLow ?c \<and> 8 * p - ?g + n \<le> Size then Some (8 * p - ?g)
      else FindClearMedium b Size n hi (p + 1) (8 * (p + 1)) v ?c)"
    using p oh og assms(2,3) by (subst FindClearMedium.simps) (auto simp: Let_def algebra_simps)
  have hit: "found b (8 * lo) (8 * hi) n (8 * p - h)"
    if "open_run b (8 * lo) (8 * p) h c" "n \<le> h + BitsClearLow ?c" for h c
    using open_run_hit [OF that] p by (auto simp: found_def)
  show ?case
  proof (cases "n \<le> ?h + BitsClearLow ?c \<and> 8 * p - ?h + n \<le> Size")
    case True
    then show ?thesis using hit [OF o] unfold by simp
  next
    case n1: False
    show ?thesis
    proof (cases "v = 0 \<and> n \<le> ?g + BitsClearLow ?c \<and> 8 * p - ?g + n \<le> Size")
      case True
      then have "FindClearMedium b Size n hi p (8 * p) w v = Some (8 * p - ?g)"
        unfolding unfold if_not_P [OF n1] by (rule if_P)
      then show ?thesis using hit [OF o0] True by simp
    next
      case n2: False
      have "no_clear_run b (8 * lo) (8 * (p + 1)) n"
        unfolding no_clear_run_def
      proof (intro allI impI notI)
        fix s assume s: "0 < n" "8 * lo \<le> s" "s + n \<le> 8 * (p + 1)" "run (is_clear b) s n"
        have gt: "8 * p < s + n" using Suc.prems(5) s unfolding no_clear_run_def by (meson not_le)
        have le: "s + n \<le> Size" using tail_set_run [OF assms(4) s(4,1)] s p by simp
        have sp: "s \<le> 8 * p" "8 * p - s \<le> 13" using gt s assms(1,2) by auto
        show False
        proof (cases "8 * p - s \<le> 8")
          case True
          then show False using open_run_cross [OF o s(4,2)] gt s le n1 sp by auto
        next
          case F: False
          have "lo < p" using F s by auto
          then have "v = buf_byte b (p - 1)" using Suc.prems(3) by (auto simp: high_at_def)
          moreover have "buf_byte b (p - 1) = 0"
            by (rule clear_byte_zero, rule run_mono [OF s(4)]) (use F gt \<open>lo < p\<close> in auto)
          ultimately have "v = 0" by simp
          then show False using open_run_cross [OF o0 s(4,2)] gt s le n2 sp by auto
        qed
      qed
      moreover have "high_at b lo (p + 1) ?c" using Suc.prems by (simp add: high_at_def)
      ultimately show ?thesis
        using Suc.hyps(1) [of "p + 1" ?c v] Suc.hyps(2) Suc.prems p unfold n1 n2 by auto
    qed
  qed
qed

text \<open>
  The loop for long runs compares \<open>ZeroBytesFound\<close> with \<open>ZeroBytesNeeded\<close> before it counts
  the current byte.  A run of \<open>n\<close> bits with \<open>n mod 8 = 7\<close> that starts with the seven high
  bits of a byte and ends with a whole byte is therefore only seen when one more byte is
  read, and missed when it ends where the scan ends.
\<close>

definition no_long_run :: "(nat \<Rightarrow> ulong) \<Rightarrow> nat \<Rightarrow> nat \<Rightarrow> nat \<Rightarrow> bool" where
  "no_long_run b lo hi n \<longleftrightarrow>
     (\<forall>s. lo \<le> s \<longrightarrow> s + n \<le> hi \<longrightarrow> run (is_clear b) s n \<longrightarrow> s + n = hi \<and> n mod 8 = 7)"

lemma low_less: "b \<noteq> 0 \<Longrightarrow> BitsClearLow b < 8"
proof (rule ccontr)
  assume "b \<noteq> 0" "\<not> BitsClearLow b < 8"
  then have "run (byte_clear b) 0 8"
    using low_run [of b] low_le [of b] by (simp add: not_less)
  then have "b = 0" by (auto intro!: bit_word_eqI simp: run_def)
  with \<open>b \<noteq> 0\<close> show False by simp
qed

lemma open_run_uncap:
  assumes o: "open_run b lo e h 8" and h: "h < 8"
  shows "open_run b lo e h c"
proof -
  have "e - s \<le> h" if s: "lo \<le> s" "s \<le> e" "run (is_clear b) s (e - s)" for s
  proof (cases "e - s \<le> 8")
    case True
    then show ?thesis using o s by (auto simp: open_run_def)
  next
    case False
    then have "run (is_clear b) (e - 8) 8" "lo \<le> e - 8" "8 \<le> e"
      using s by (auto intro: run_mono)
    then have "8 \<le> h" using o unfolding open_run_def
      by (metis diff_diff_cancel diff_le_self order_refl)
    with h show ?thesis by simp
  qed
  then show ?thesis using o by (simp add: open_run_def)
qed

lemma FindClearLarge_spec:
  assumes "15 \<le> n" "n < 4294967296" "8 * hi < 4294967296" "tail_set b Size (8 * hi)"
    and "lo \<le> p" "p \<le> hi" "open_run b (8 * lo) (8 * p) (BitsClearHigh v + 8 * z) (8 * p)"
    and "v \<noteq> 0" "i = int p - 1 - int z"
    and "\<And>s. 8 * lo \<le> s \<Longrightarrow> s + n \<le> 8 * p \<Longrightarrow> run (is_clear b) s n \<Longrightarrow>
           s + n = 8 * p \<and> n = BitsClearHigh v + 8 * z \<and> BitsClearHigh v = 7"
  shows "case FindClearLarge b Size n hi p z v i of
           Some r \<Rightarrow> found b (8 * lo) (8 * hi) n r | None \<Rightarrow> no_long_run b (8 * lo) (8 * hi) n"
  using assms(5-10)
proof (induction "hi - p" arbitrary: p v z i)
  case 0
  then have "p = hi" by simp
  have "s + n = 8 * hi \<and> n mod 8 = 7" if "8 * lo \<le> s" "s + n \<le> 8 * hi" "run (is_clear b) s n" for s
  proof -
    have "s + n = 8 * hi" "n = 7 + 8 * z" using 0(7) [of s] that \<open>p = hi\<close> by auto
    then show ?thesis by simp
  qed
  with \<open>p = hi\<close> show ?case by (simp add: FindClearLarge.simps no_long_run_def)
next
  case (Suc k)
  let ?c = "buf_byte b p" and ?h = "BitsClearHigh v + 8 * z" and ?need = "(n - 7) div 8"
  have p: "p < hi" "8 * p + 8 < 4294967296" using Suc.hyps(2) assms(3) by auto
  note o = Suc.prems(3)
  then have oh: "8 * lo + ?h \<le> 8 * p" by (simp add: open_run_def)
  have hv: "BitsClearHigh v < 8" using Suc.prems(4) by (rule high_less)
  have unfold: "FindClearLarge b Size n hi p z v i =
     (if ?need \<le> z \<and> n \<le> ?h + BitsClearLow ?c \<and> 8 * p - ?h + n \<le> Size then Some (8 * p - ?h)
      else if ?c = 0 then FindClearLarge b Size n hi (p + 1) (z + 1) v i
      else FindClearLarge b Size n hi (p + 1) 0 ?c (int p))"
  proof -
    have "i * 8 + (8 - int (BitsClearHigh v)) = int (8 * p - ?h)"
      using Suc.prems(5) oh by simp
    then have st: "nat ((i * 8 + (8 - int (BitsClearHigh v))) mod 4294967296) = 8 * p - ?h"
      using p by simp
    have lc: "BitsClearLow ?c \<le> 8" by simp
    have sum: "u32 (BitsClearHigh v + u32 (z * 8) + BitsClearLow ?c) = ?h + BitsClearLow ?c"
    proof -
      have "?h + BitsClearLow ?c < 4294967296" using oh p lc by linarith
      moreover have "u32 (z * 8) = 8 * z" using oh p by simp
      ultimately show ?thesis by simp
    qed
    have "u32 (z + 1) = z + 1" using oh p by simp
    moreover have "u32 (8 * p - ?h + n) = 8 * p - ?h + n" if "n \<le> ?h + BitsClearLow ?c"
      using that oh p lc by (intro u32_id) linarith
    ultimately show ?thesis
      using p by (subst FindClearLarge.simps) (auto simp: Let_def st sum)
  qed
  show ?case
  proof (cases "?need \<le> z \<and> n \<le> ?h + BitsClearLow ?c \<and> 8 * p - ?h + n \<le> Size")
    case True
    then have "n \<le> ?h + BitsClearLow ?c" by simp
    from open_run_hit [OF o this] have "found b (8 * lo) (8 * hi) n (8 * p - ?h)"
      using p by (auto simp: found_def)
    then show ?thesis using True unfold by simp
  next
    case miss: False
    have cross: "s + n = 8 * (p + 1) \<and> n = 15 + 8 * z \<and> BitsClearHigh v = 7 \<and> ?c = 0"
      if s: "8 * lo \<le> s" "s + n \<le> 8 * (p + 1)" "run (is_clear b) s n" for s
    proof -
      have le: "s + n \<le> Size" using tail_set_run [OF assms(4) s(3)] s p assms(1) by simp
      have gt: "8 * p < s + n"
      proof (rule ccontr)
        assume "\<not> 8 * p < s + n"
        then have "s + n \<le> 8 * p" by simp
        then have "s + n = 8 * p \<and> n = ?h \<and> BitsClearHigh v = 7" by (rule Suc.prems(6) [OF s(1) _ s(3)])
        then show False using miss le by auto
      qed
      have cr: "n \<le> ?h + BitsClearLow ?c" "8 * p - ?h \<le> s"
        using open_run_cross [OF o s(3,1)] gt s assms(1) by auto
      then have "\<not> ?need \<le> z" using miss le by auto
      then have n: "15 + 8 * z \<le> n" by auto
      have "BitsClearLow ?c = 8"
        using n cr(1) hv low_le [of ?c] by linarith
      moreover have "BitsClearHigh v = 7" "n = 15 + 8 * z"
        using n cr(1) hv low_le [of ?c] by linarith+
      moreover have "?c = 0" using low_less [of ?c] \<open>BitsClearLow ?c = 8\<close> by auto
      ultimately show ?thesis using cr(2) gt s oh by auto
    qed
    show ?thesis
    proof (cases "?c = 0")
      case True
      then have "run (is_clear b) (8 * p) 8" by (simp add: run_def bit_buf_byte_div)
      then have "open_run b (8 * lo) (8 * (p + 1)) (?h + 8) (8 * p + 8)"
        by (rule open_run_zero [OF o])
      then have o': "open_run b (8 * lo) (8 * (p + 1)) (BitsClearHigh v + 8 * (z + 1)) (8 * (p + 1))"
        by (simp add: ac_simps)
      have "case FindClearLarge b Size n hi (p + 1) (z + 1) v i of
              Some r \<Rightarrow> found b (8 * lo) (8 * hi) n r | None \<Rightarrow> no_long_run b (8 * lo) (8 * hi) n"
        by (rule Suc.hyps(1) [OF _ _ _ o']) (use Suc.hyps(2) Suc.prems p cross in auto)
      then show ?thesis unfolding unfold if_not_P [OF miss] if_P [OF True] .
    next
      case False
      have "high_at b lo (p + 1) ?c" using Suc.prems by (simp add: high_at_def)
      then have "open_run b (8 * lo) (8 * (p + 1)) (BitsClearHigh ?c) 8"
        using Suc.prems by (intro high_at_open) auto
      then have "open_run b (8 * lo) (8 * (p + 1)) (BitsClearHigh ?c) (8 * (p + 1))"
        using high_less [OF False] by (rule open_run_uncap)
      then have o': "open_run b (8 * lo) (8 * (p + 1)) (BitsClearHigh ?c + 8 * 0) (8 * (p + 1))"
        by simp
      have "case FindClearLarge b Size n hi (p + 1) 0 ?c (int p) of
              Some r \<Rightarrow> found b (8 * lo) (8 * hi) n r | None \<Rightarrow> no_long_run b (8 * lo) (8 * hi) n"
        by (rule Suc.hyps(1) [OF _ _ _ o']) (use Suc.hyps(2) Suc.prems p cross False in auto)
      then show ?thesis unfolding unfold if_not_P [OF miss] if_not_P [OF False] .
    qed
  qed
qed
end
