(* ===== verification/Bitmap_Update.thy ===== *)
theory Bitmap_Update imports Bitmap_Bits begin

text \<open>
  The effect of \<open>RtlSetBits\<close>, \<open>RtlClearBits\<close>, \<open>RtlSetAllBits\<close> and \<open>RtlClearAllBits\<close> on the
  bits of the bitmap: the bits of the range change and no other bit of memory does.
\<close>

lemma ulong_ones: "(0xFFFFFFFF :: ulong) = mask 32"
  by (simp add: mask_eq_exp_minus_1)

lemma bit_ones: "bit (0xFFFFFFFF :: ulong) k \<longleftrightarrow> k < 32"
  unfolding ulong_ones by (simp add: bit_mask_iff)

lemma impossible_bit_ulong: "possible_bit TYPE(ulong) k \<longleftrightarrow> k < 32"
  by simp

lemma bit_LeftShift_ones: "bit (LeftShiftUlong 0xFFFFFFFF j) k \<longleftrightarrow> k < 32 \<and> j \<le> k"
  unfolding LeftShiftUlong_def ulong_ones by (auto simp only: bit_push_bit_iff bit_mask_iff split: if_splits) auto

lemma bit_range_mask:
  assumes "0 < n" "j + n \<le> 32"
  shows "bit (LeftShiftUlong (RightShiftUlong 0xFFFFFFFF (32 - n)) j) k \<longleftrightarrow> k < 32 \<and> j \<le> k \<and> k < j + n"
  using assms unfolding LeftShiftUlong_def RightShiftUlong_def ulong_ones
  by (auto simp only: bit_push_bit_iff bit_drop_bit_eq bit_mask_iff o_apply split: if_splits) auto

lemma SetLongs_spec:
  "SetLongs b c n = ((\<lambda>i. if c \<le> i \<and> i < c + n div 32 then 0xFFFFFFFF else b i), c + n div 32, n mod 32)"
proof (induction b c n rule: SetLongs.induct)
  case (1 b c n)
  show ?case
  proof (cases "32 \<le> n")
    case True
    then have "n div 32 = Suc ((n - 32) div 32)" "(n - 32) mod 32 = n mod 32"
      by (simp_all add: le_div_geq le_mod_geq)
    moreover have "SetLongs b c n = SetLongs (b(c := 0xFFFFFFFF)) (c + 1) (n - 32)"
      using True by (subst SetLongs.simps) simp
    ultimately show ?thesis unfolding "1.IH" [OF True] by (auto intro!: ext)
  next
    case False
    then show ?thesis by (subst SetLongs.simps) (auto intro!: ext)
  qed
qed

lemma ClearLongs_compl:
  "ClearLongs b c n = (case SetLongs (compl_buf b) c n of (b', r) \<Rightarrow> (compl_buf b', r))"
proof (induction b c n rule: ClearLongs.induct)
  case (1 b c n)
  have "compl_buf (b(c := 0)) = (compl_buf b)(c := 0xFFFFFFFF)"
    by (rule ext) (simp add: compl_buf_def)
  then show ?case
    using "1.IH" by (subst ClearLongs.simps, subst SetLongs.simps) (simp del: fun_upd_apply)
qed

lemma bit_RtlSetBits:
  assumes "wf_bitmap bm" "s + n \<le> SizeOfBitMap bm"
  shows "bit_at (RtlSetBits bm s n) i \<longleftrightarrow> bit_at bm i \<or> s \<le> i \<and> i < s + n"
proof (cases "n = 0")
  case True
  then show ?thesis by (auto simp: RtlSetBits_def)
next
  case n0: False
  define q where "q = s div 32"
  define j where "j = s mod 32"
  have s: "s = 32 * q + j" "j < 32" by (auto simp: q_def j_def)
  define c where "c = i div 32"
  define k where "k = i mod 32"
  have i: "i = 32 * c + k" "k < 32" by (auto simp: c_def k_def)
  have lim: "s + n + 31 < 4294967296" using assms by (simp add: wf_bitmap_def)
  show ?thesis
  proof (cases "j + n \<le> 32")
    case True
    then have "j + n < 4294967296" by simp
    then show ?thesis
      using True n0 s i bit_range_mask [of n j k]
      by (auto simp: RtlSetBits_def q_def [symmetric] j_def [symmetric] buf_bit_def
          c_def [symmetric] k_def [symmetric] Let_def bit_or_iff)
  next
    case False
    define m where "m = n - (32 - j)"
    have m: "n = 32 - j + m" "0 < m" using False s by (auto simp: m_def)
    define e where "e = q + 1 + m div 32"
    have sn: "s + n = 32 * e + m mod 32" using s m by (simp add: e_def)
    have qe: "q < e" by (simp add: e_def)
    have "\<not> u32 (j + n) \<le> 32" "u32_sub n (32 - j) = m" using False lim s m by auto
    then have "Buffer (RtlSetBits bm s n) c =
        (if c = q then Buffer bm q OR LeftShiftUlong 0xFFFFFFFF j
         else if q < c \<and> c < e then 0xFFFFFFFF
         else if c = e \<and> 0 < m mod 32 then Buffer bm e OR NOT (LeftShiftUlong 0xFFFFFFFF (m mod 32))
         else Buffer bm c)"
      using n0 qe
      by (auto simp: RtlSetBits_def q_def [symmetric] j_def [symmetric] Let_def SetLongs_spec e_def)
    then have "bit (Buffer (RtlSetBits bm s n) c) k =
        (if c = q then bit (Buffer bm q) k \<or> j \<le> k
         else if q < c \<and> c < e then True
         else if c = e \<and> 0 < m mod 32 then bit (Buffer bm e) k \<or> k < m mod 32
         else bit (Buffer bm c) k)"
      using i by (auto simp only: bit_or_iff bit_not_iff bit_LeftShift_ones bit_ones impossible_bit_ulong split: if_splits)
    moreover have "m mod 32 < 32" by simp
    ultimately show ?thesis
      using s i sn qe unfolding buf_bit_def c_def [symmetric] k_def [symmetric]
      by (cases "c < q"; cases "c < e") auto
  qed
qed

lemma RtlClearBits_compl: "RtlClearBits bm s n = compl_bm (RtlSetBits (compl_bm bm) s n)"
proof -
  have upd: "compl_buf (b(i := v)) = (compl_buf b)(i := NOT v)" for b i v
    by (rule ext) (simp add: compl_buf_def)
  have app: "compl_buf b i = NOT (b i)" for b i by (simp add: compl_buf_def)
  show ?thesis
    by (simp add: RtlClearBits_def RtlSetBits_def Let_def ClearLongs_compl upd app compl_bm_def
        del: fun_upd_apply split: prod.splits)
qed

lemma bit_RtlClearBits:
  assumes "wf_bitmap bm" "s + n \<le> SizeOfBitMap bm"
  shows "bit_at (RtlClearBits bm s n) i \<longleftrightarrow> bit_at bm i \<and> \<not> (s \<le> i \<and> i < s + n)"
  using assms bit_RtlSetBits [of "compl_bm bm" s n i] by (simp add: RtlClearBits_compl)

lemma range_update_size [simp]:
  "SizeOfBitMap (RtlSetBits bm s n) = SizeOfBitMap bm" "SizeOfBitMap (RtlClearBits bm s n) = SizeOfBitMap bm"
  by (simp_all add: RtlSetBits_def RtlClearBits_def Let_def split: prod.splits)

lemma RtlClearBits_wf [simp]:
  "wf_bitmap (RtlSetBits bm s n) = wf_bitmap bm" "wf_bitmap (RtlClearBits bm s n) = wf_bitmap bm"
  by (simp_all add: wf_bitmap_def)

section \<open>Whole bitmaps\<close>

lemma fill_words:
  assumes "wf_bitmap bm"
  shows "u32 (u32 (SizeOfBitMap bm + 31) div 32 * 4) = 4 * ((SizeOfBitMap bm + 31) div 32)"
  using assms unfolding wf_bitmap_def by simp

lemma buf_bit_fill:
  "buf_bit (\<lambda>i. if i < w then v else b i) i = (if i < 32 * w then bit v (i mod 32) else buf_bit b i)"
  by (simp add: buf_bit_def less_mult_imp_div_less div_less_iff_less_mult mult.commute)

lemma bit_RtlSetAllBits:
  assumes "wf_bitmap bm"
  shows "bit_at (RtlSetAllBits bm) i \<longleftrightarrow> i < 32 * ((SizeOfBitMap bm + 31) div 32) \<or> bit_at bm i"
proof -
  let ?w = "(SizeOfBitMap bm + 31) div 32"
  have "Buffer (RtlSetAllBits bm) = (\<lambda>i. if i < ?w then 0xFFFFFFFF else Buffer bm i)"
    by (simp add: RtlSetAllBits_def RtlFillMemoryUlong_def fill_words [OF assms] fun_eq_iff)
  moreover have "bit (0xFFFFFFFF :: ulong) (i mod 32)" by (simp only: bit_ones)
  ultimately show ?thesis by (simp only: buf_bit_fill) simp
qed

lemma bit_RtlClearAllBits:
  assumes "wf_bitmap bm"
  shows "bit_at (RtlClearAllBits bm) i \<longleftrightarrow> bit_at bm i \<and> \<not> i < 32 * ((SizeOfBitMap bm + 31) div 32)"
proof -
  let ?w = "(SizeOfBitMap bm + 31) div 32"
  have "Buffer (RtlClearAllBits bm) = (\<lambda>i. if i < ?w then 0 else Buffer bm i)"
    by (simp add: RtlClearAllBits_def RtlZeroMemory_def fill_words [OF assms] fun_eq_iff)
  then show ?thesis by (simp add: buf_bit_fill)
qed

lemma all_bits_size [simp]:
  "SizeOfBitMap (RtlSetAllBits bm) = SizeOfBitMap bm" "SizeOfBitMap (RtlClearAllBits bm) = SizeOfBitMap bm"
  by (simp_all add: RtlSetAllBits_def RtlClearAllBits_def)

section \<open>Properties\<close>

text \<open>
  C17: \<open>RtlSetBits\<close> sets exactly the bits of its range: a bit anywhere in memory is
  set afterwards iff it was set before or lies in the range, and the size is kept.
\<close>

theorem RtlSetBits_exact:
  assumes "wf_bitmap bm" "s + n \<le> SizeOfBitMap bm"
  shows "SizeOfBitMap (RtlSetBits bm s n) = SizeOfBitMap bm \<and>
    (bit_at (RtlSetBits bm s n) i \<longleftrightarrow> bit_at bm i \<or> s \<le> i \<and> i < s + n)"
  using bit_RtlSetBits [OF assms] by simp

theorem RtlSetBits_exact_witness:
  "SizeOfBitMap (RtlSetBits \<lparr>SizeOfBitMap = 100, Buffer = \<lambda>_. 0\<rparr> 30 40) = 100 \<and>
   bit_at (RtlSetBits \<lparr>SizeOfBitMap = 100, Buffer = \<lambda>_. 0\<rparr> 30 40) 69 \<and>
   \<not> bit_at (RtlSetBits \<lparr>SizeOfBitMap = 100, Buffer = \<lambda>_. 0\<rparr> 30 40) 70"
  using RtlSetBits_exact [of "\<lparr>SizeOfBitMap = 100, Buffer = \<lambda>_. 0\<rparr>" 30 40 69]
    RtlSetBits_exact [of "\<lparr>SizeOfBitMap = 100, Buffer = \<lambda>_. 0\<rparr>" 30 40 70]
  by (simp add: wf_bitmap_def buf_bit_def)

text \<open>
  C18: \<open>RtlClearBits\<close> clears exactly the bits of its range and changes no other bit
  of memory.
\<close>

theorem RtlClearBits_exact:
  assumes "wf_bitmap bm" "s + n \<le> SizeOfBitMap bm"
  shows "SizeOfBitMap (RtlClearBits bm s n) = SizeOfBitMap bm \<and>
    (bit_at (RtlClearBits bm s n) i \<longleftrightarrow> bit_at bm i \<and> \<not> (s \<le> i \<and> i < s + n))"
  using bit_RtlClearBits [OF assms] by simp

theorem RtlClearBits_exact_witness:
  "SizeOfBitMap (RtlClearBits \<lparr>SizeOfBitMap = 100, Buffer = \<lambda>_. mask 32\<rparr> 30 40) = 100 \<and>
   \<not> bit_at (RtlClearBits \<lparr>SizeOfBitMap = 100, Buffer = \<lambda>_. mask 32\<rparr> 30 40) 30 \<and>
   bit_at (RtlClearBits \<lparr>SizeOfBitMap = 100, Buffer = \<lambda>_. mask 32\<rparr> 30 40) 29"
  using RtlClearBits_exact [of "\<lparr>SizeOfBitMap = 100, Buffer = \<lambda>_. mask 32\<rparr>" 30 40 30]
    RtlClearBits_exact [of "\<lparr>SizeOfBitMap = 100, Buffer = \<lambda>_. mask 32\<rparr>" 30 40 29]
  by (simp add: wf_bitmap_def buf_bit_def bit_mask_iff)



text \<open>
  C29: After \<open>RtlSetAllBits\<close> every bit of the bitmap is set, after \<open>RtlClearAllBits\<close>
  none is, and neither writes past the last longword of the bitmap.
\<close>

theorem RtlAllBits_exact:
  assumes "wf_bitmap bm"
  shows "(i < SizeOfBitMap bm \<longrightarrow> bit_at (RtlSetAllBits bm) i \<and> \<not> bit_at (RtlClearAllBits bm) i) \<and>
    (32 * ((SizeOfBitMap bm + 31) div 32) \<le> i \<longrightarrow>
       bit_at (RtlSetAllBits bm) i = bit_at bm i \<and> bit_at (RtlClearAllBits bm) i = bit_at bm i)"
proof -
  have "SizeOfBitMap bm \<le> 32 * ((SizeOfBitMap bm + 31) div 32)" by linarith
  then show ?thesis by (auto simp: bit_RtlSetAllBits [OF assms] bit_RtlClearAllBits [OF assms])
qed

theorem RtlAllBits_exact_witness:
  "bit_at (RtlSetAllBits \<lparr>SizeOfBitMap = 33, Buffer = \<lambda>_. 0\<rparr>) 32 \<and>
   \<not> bit_at (RtlSetAllBits \<lparr>SizeOfBitMap = 33, Buffer = \<lambda>_. 0\<rparr>) 64"
  using RtlAllBits_exact [of "\<lparr>SizeOfBitMap = 33, Buffer = \<lambda>_. 0\<rparr>" 32]
    RtlAllBits_exact [of "\<lparr>SizeOfBitMap = 33, Buffer = \<lambda>_. 0\<rparr>" 64]
  by (simp add: wf_bitmap_def buf_bit_def)

end
