(* ===== verification/Bitmap_Search.thy ===== *)
theory Bitmap_Search
  imports Bitmap_Find Bitmap_Update "HOL-Library.Code_Target_Nat"
begin

text \<open>
  \<open>RtlFindClearBits\<close> and \<open>RtlFindSetBits\<close>: a run that is returned lies inside the bitmap and
  has the wanted value, and a run that exists is found, one shape of run excepted.
\<close>

section \<open>One pass and the two passes\<close>

definition no_search_run :: "(nat \<Rightarrow> ulong) \<Rightarrow> nat \<Rightarrow> nat \<Rightarrow> nat \<Rightarrow> bool" where
  "no_search_run b lo hi n \<longleftrightarrow>
     (\<forall>s. lo \<le> s \<longrightarrow> s + n \<le> hi \<longrightarrow> run (is_clear b) s n \<longrightarrow> 15 \<le> n \<and> n mod 8 = 7 \<and> s + n = hi)"

lemma FindClearPass_spec:
  assumes "0 < n" "n < 4294967296" "8 * hi < 4294967296" "tail_set b Size (8 * hi)" "lo \<le> hi"
  shows "case FindClearPass b Size n lo hi of
           Some r \<Rightarrow> found b (8 * lo) (8 * hi) n r | None \<Rightarrow> no_search_run b (8 * lo) (8 * hi) n"
proof -
  have lo: "u32 (lo * 8) = 8 * lo" using assms by (simp add: u32_id)
  have start: "high_at b lo lo 255" "no_clear_run b (8 * lo) (8 * lo) n"
    by (auto simp: high_at_def no_clear_run_def)
  have zero: "BitsClearHigh 255 = 0" by code_simp
  have empty: "open_run b (8 * lo) (8 * lo) (BitsClearHigh 255 + 8 * 0) (8 * lo)"
    unfolding zero open_run_def by auto
  consider "n \<le> 9" | "9 < n" "n < 15" | "15 \<le> n" by linarith
  then show ?thesis
  proof cases
    case 1
    then show ?thesis
      using FindClearSmall_spec [OF 1 assms(3,4) le_refl assms(5) start] assms(1)
      by (auto simp: FindClearPass_def lo no_clear_run_def no_search_run_def split: option.splits)
  next
    case 2
    then show ?thesis
      using FindClearMedium_spec [OF 2 assms(3,4) le_refl assms(5) start(1) _ start(2), of 255] assms(1)
      by (auto simp: FindClearPass_def lo no_clear_run_def no_search_run_def split: option.splits)
  next
    case 3
    have "case FindClearLarge b Size n hi lo 0 255 (int lo - 1) of
        Some r \<Rightarrow> found b (8 * lo) (8 * hi) n r | None \<Rightarrow> no_long_run b (8 * lo) (8 * hi) n"
      by (rule FindClearLarge_spec [OF 3 assms(2,3,4) le_refl assms(5) empty]) (use assms(1) in auto)
    then show ?thesis
      using 3 by (auto simp: FindClearPass_def no_long_run_def no_search_run_def split: option.splits)
  qed
qed

definition missed_run :: "nat \<Rightarrow> nat \<Rightarrow> nat \<Rightarrow> bool" where
  \<comment> \<open>the runs the search for fifteen or more bits overlooks\<close>
  "missed_run Size s n \<longleftrightarrow> 15 \<le> n \<and> n mod 8 = 7 \<and> s + n = Size \<and> Size mod 8 = 0"

lemma SecondEndByteIndex_bounds:
  assumes "h < 536870912" "n < 4294967296" "h \<le> B"
  shows "SecondEndByteIndex n h B \<le> B"
    and "SecondEndByteIndex n h B = B \<or> 8 * h + n \<le> 8 * SecondEndByteIndex n h B + 1 \<and>
           (n mod 8 = 7 \<longrightarrow> 8 * SecondEndByteIndex n h B = 8 * h + n + 1)"
proof -
  have "h + (n - 2) div 8 + 1 < 4294967296" using assms(1,2) by linarith
  then have [simp]: "u32 (Suc (h + (n - 2) div 8)) = h + (n - 2) div 8 + 1" by simp
  show "SecondEndByteIndex n h B \<le> B" using assms(3) by (auto simp: SecondEndByteIndex_def Let_def)
  have n: "n \<le> 8 * ((n - 2) div 8) + 9" by linarith
  have "n mod 8 = 7 \<Longrightarrow> 8 * ((n - 2) div 8) + 7 = n" by presburger
  with n show "SecondEndByteIndex n h B = B \<or> 8 * h + n \<le> 8 * SecondEndByteIndex n h B + 1 \<and>
           (n mod 8 = 7 \<longrightarrow> 8 * SecondEndByteIndex n h B = 8 * h + n + 1)"
    by (auto simp: SecondEndByteIndex_def Let_def)
qed

lemma RtlFindClearBits_cases:
  assumes "wf_bitmap bm" "0 < n" "n < 4294967296"
  shows "fst (RtlFindClearBits bm n h) = SetUnusedBits bm"
    and "(let r = snd (RtlFindClearBits bm n h)
         in r + n \<le> SizeOfBitMap bm \<and> run (is_clear (Buffer bm)) r n \<or>
            r = MAXULONG \<and> (\<forall>s. s + n \<le> SizeOfBitMap bm \<longrightarrow> run (is_clear (Buffer bm)) s n \<longrightarrow>
              missed_run (SizeOfBitMap bm) s n))"
proof -
  define S where "S = SizeOfBitMap bm"
  define B where "B = SizeInBytes bm"
  define b where "b = Buffer (SetUnusedBits bm)"
  define H where "H = (if h \<ge> S then 0 else h) div 8"
  define E where "E = SecondEndByteIndex n H B"
  have sz: "S \<le> 8 * B" "8 * B < S + 8" "8 * B < 4294967296"
    using SizeInBytes_bounds [OF assms(1)] by (auto simp: S_def B_def)
  have H: "H \<le> B" "H < 536870912" "8 * H \<le> S" using sz by (auto simp: H_def)
  have tail: "tail_set b S (8 * B)"
    by (auto simp: tail_set_def b_def S_def B_def bit_SetUnusedBits [OF assms(1)])
  have bits: "buf_bit b j = bit_at bm j" if "j < S" for j
    using that by (auto simp: b_def S_def bit_SetUnusedBits [OF assms(1)])
  have runs: "run (is_clear b) s n \<longleftrightarrow> run (is_clear (Buffer bm)) s n" if "s + n \<le> S" for s
    by (rule run_cong) (use that bits in auto)
  have E: "E \<le> B" "E = B \<or> 8 * H + n \<le> 8 * E + 1 \<and> (n mod 8 = 7 \<longrightarrow> 8 * E = 8 * H + n + 1)"
    unfolding E_def using SecondEndByteIndex_bounds [OF H(2) assms(3) H(1)] by blast+
  have tailE: "tail_set b S (8 * E)" using tail E(1) by (auto simp: tail_set_def)
  note pass1 = FindClearPass_spec [OF assms(2,3) sz(3) tail H(1)]
  have pass2: "case FindClearPass b S n 0 E of
      Some r \<Rightarrow> found b 0 (8 * E) n r | None \<Rightarrow> no_search_run b 0 (8 * E) n"
    using FindClearPass_spec [OF assms(2,3) _ tailE, of 0] E(1) sz(3) unfolding mult_0_right by simp
  have hit: "r + n \<le> S \<and> run (is_clear (Buffer bm)) r n" if "found b lo hi n r" "hi \<le> 8 * B" for r lo hi
  proof -
    have "r + n \<le> 8 * B" "run (is_clear b) r n" using that by (auto simp: found_def)
    with tail_set_run [OF tail this(2) assms(2)] show ?thesis using runs by simp
  qed
  have none: "missed_run S s n"
    if 1: "no_search_run b (8 * H) (8 * B) n" and 2: "H \<noteq> 0 \<longrightarrow> no_search_run b 0 (8 * E) n"
      and s: "s + n \<le> S" "run (is_clear (Buffer bm)) s n" for s
  proof (cases "8 * H \<le> s")
    case True
    then have "15 \<le> n \<and> n mod 8 = 7 \<and> s + n = 8 * B" using 1 s runs sz by (auto simp: no_search_run_def)
    then show ?thesis using s sz unfolding missed_run_def by auto
  next
    case False
    then have "H \<noteq> 0" by auto
    have "s + n \<le> 8 * E" using E False s(1) sz(1) by auto
    then have x: "15 \<le> n \<and> n mod 8 = 7 \<and> s + n = 8 * E"
      using 2 \<open>H \<noteq> 0\<close> s runs by (auto simp: no_search_run_def)
    then have "E = B" using E(2) False by auto
    then show ?thesis using x s sz unfolding missed_run_def by auto
  qed
  have res: "RtlFindClearBits bm n h =
      (SetUnusedBits bm, case FindClearPass b S n H B of Some r \<Rightarrow> r | None \<Rightarrow>
        if H \<noteq> 0 then case FindClearPass b S n 0 E of Some r \<Rightarrow> r | None \<Rightarrow> MAXULONG else MAXULONG)"
    by (simp add: RtlFindClearBits_def Let_def S_def B_def b_def H_def E_def split: option.splits)
  show "fst (RtlFindClearBits bm n h) = SetUnusedBits bm" by (simp add: res)
  show "let r = snd (RtlFindClearBits bm n h)
         in r + n \<le> SizeOfBitMap bm \<and> run (is_clear (Buffer bm)) r n \<or>
            r = MAXULONG \<and> (\<forall>s. s + n \<le> SizeOfBitMap bm \<longrightarrow> run (is_clear (Buffer bm)) s n \<longrightarrow>
              missed_run (SizeOfBitMap bm) s n)"
    using pass1 pass2 hit none E(1) unfolding res S_def [symmetric] Let_def snd_conv
    by (cases "FindClearPass b S n H B"; cases "FindClearPass b S n 0 E"; cases "H = 0") auto
qed

section \<open>The search for set bits\<close>

lemma FindSetSmall_compl: "FindSetSmall b S n e p c v = FindClearSmall (compl_buf b) S n e p c (NOT v)"
proof (induction b S n e p c v rule: FindSetSmall.induct)
  case (1 b S n e p c v)
  then show ?case
    by (subst FindSetSmall.simps, subst FindClearSmall.simps) (simp add: Let_def buf_byte_compl FitSet_compl)
qed

lemma FindSetMedium_compl:
  "FindSetMedium b S n e p c w v = FindClearMedium (compl_buf b) S n e p c (NOT w) (NOT v)"
proof (induction b S n e p c w v rule: FindSetMedium.induct)
  case (1 b S n e p c w v)
  then show ?case
    by (subst FindSetMedium.simps, subst FindClearMedium.simps) (simp add: Let_def buf_byte_compl NOT_eq_swap)
qed

lemma FindSetLarge_compl:
  "FindSetLarge b S n e p z v i = FindClearLarge (compl_buf b) S n e p z (NOT v) i"
proof (induction b S n e p z v i rule: FindSetLarge.induct)
  case (1 b S n e p z v i)
  then show ?case
    by (subst FindSetLarge.simps, subst FindClearLarge.simps) (auto simp: Let_def NOT_eq_swap)
qed

lemma NOT_start: "NOT (0 :: uchar) = 255"
  by simp

lemma FindSetPass_compl: "FindSetPass b S n l h = FindClearPass (compl_buf b) S n l h"
  unfolding FindSetPass_def FindClearPass_def FindSetSmall_compl FindSetMedium_compl FindSetLarge_compl
    NOT_start ..

lemma RtlFindSetBits_compl:
  "RtlFindSetBits bm n h =
     (case RtlFindClearBits (compl_bm bm) n h of (bm', r) \<Rightarrow> (compl_bm bm', r))"
  by (simp add: RtlFindSetBits_def RtlFindClearBits_def Let_def ClearUnusedBits_compl FindSetPass_compl
      split: option.splits)

section \<open>Properties\<close>

text \<open>
  C8: A run \<open>RtlFindClearBits\<close> returns lies inside the bitmap and all its bits are
  clear; the call changes no bit of the bitmap and keeps its size.
\<close>

theorem RtlFindClearBits_sound:
  assumes "wf_bitmap bm" "0 < n" "n < 4294967296"
    and "snd (RtlFindClearBits bm n h) = r" "r \<noteq> MAXULONG"
  shows "r + n \<le> SizeOfBitMap bm \<and> run (is_clear (Buffer bm)) r n \<and>
    SizeOfBitMap (fst (RtlFindClearBits bm n h)) = SizeOfBitMap bm \<and>
    (\<forall>j < SizeOfBitMap bm. bit_at (fst (RtlFindClearBits bm n h)) j = bit_at bm j)"
  using RtlFindClearBits_cases [OF assms(1-3), of h] assms(4,5)
  by (auto simp: Let_def bit_SetUnusedBits [OF assms(1)])

theorem RtlFindClearBits_sound_witness:
  "snd (RtlFindClearBits \<lparr>SizeOfBitMap = 40, Buffer = \<lambda>_. 0x1F\<rparr> 20 33) = 5 \<and>
   run (is_clear (\<lambda>_. 0x1F)) 5 20"
proof -
  have r: "snd (RtlFindClearBits \<lparr>SizeOfBitMap = 40, Buffer = \<lambda>_. 0x1F\<rparr> 20 33) = 5" by code_simp
  show ?thesis using RtlFindClearBits_sound [OF _ _ _ r] r by (simp add: wf_bitmap_def)
qed

text \<open>
  C10: \<open>RtlFindClearBits\<close> finds a run wherever the hint points: if a run of \<open>n\<close> clear
  bits exists, the result is not 0xffffffff, unless every such run has the one shape the
  search for fifteen or more bits overlooks.
\<close>

theorem RtlFindClearBits_complete:
  assumes "wf_bitmap bm" "0 < n" "s + n \<le> SizeOfBitMap bm" "run (is_clear (Buffer bm)) s n"
    and "\<not> missed_run (SizeOfBitMap bm) s n"
  shows "snd (RtlFindClearBits bm n h) \<noteq> MAXULONG"
proof -
  have n: "n < 4294967296" "SizeOfBitMap bm < 4294967295" using assms(1,3) by (auto simp: wf_bitmap_def)
  show ?thesis
    using RtlFindClearBits_cases(2) [OF assms(1,2) n(1), of h] assms n(2) by (auto simp: Let_def)
qed

theorem RtlFindClearBits_complete_witness:
  "snd (RtlFindClearBits \<lparr>SizeOfBitMap = 100, Buffer = \<lambda>_. 0x80000001\<rparr> 30 77) \<noteq> MAXULONG"
  by (rule RtlFindClearBits_complete [where s = 33])
     code_simp+


text \<open>
  C20: A run \<open>RtlFindSetBits\<close> returns lies inside the bitmap and all its bits are set;
  the call changes no bit of the bitmap and keeps its size.
\<close>

theorem RtlFindSetBits_sound:
  assumes "wf_bitmap bm" "0 < n" "n < 4294967296"
    and "snd (RtlFindSetBits bm n h) = r" "r \<noteq> MAXULONG"
  shows "r + n \<le> SizeOfBitMap bm \<and> run (bit_at bm) r n \<and>
    SizeOfBitMap (fst (RtlFindSetBits bm n h)) = SizeOfBitMap bm \<and>
    (\<forall>j < SizeOfBitMap bm. bit_at (fst (RtlFindSetBits bm n h)) j = bit_at bm j)"
  using RtlFindClearBits_cases [of "compl_bm bm" n h] assms
  by (auto simp: Let_def RtlFindSetBits_compl split_beta bit_SetUnusedBits)

theorem RtlFindSetBits_sound_witness:
  "snd (RtlFindSetBits \<lparr>SizeOfBitMap = 40, Buffer = \<lambda>_. 0xFF0\<rparr> 7 33) = 4 \<and>
   run (buf_bit (\<lambda>_. 0xFF0)) 4 7"
proof -
  have r: "snd (RtlFindSetBits \<lparr>SizeOfBitMap = 40, Buffer = \<lambda>_. 0xFF0\<rparr> 7 33) = 4" by code_simp
  show ?thesis using RtlFindSetBits_sound [OF _ _ _ r] r by (simp add: wf_bitmap_def)
qed

text \<open>
  C21: \<open>RtlFindSetBits\<close> returns a run whenever one exists that is not of the overlooked
  shape.
\<close>

theorem RtlFindSetBits_complete:
  assumes "wf_bitmap bm" "0 < n" "s + n \<le> SizeOfBitMap bm" "run (bit_at bm) s n"
    and "\<not> missed_run (SizeOfBitMap bm) s n"
  shows "snd (RtlFindSetBits bm n h) \<noteq> MAXULONG"
proof -
  have n: "n < 4294967296" "SizeOfBitMap bm < 4294967295" using assms(1,3) by (auto simp: wf_bitmap_def)
  show ?thesis
    using RtlFindClearBits_cases(2) [of "compl_bm bm" n h] assms n
    by (auto simp: Let_def RtlFindSetBits_compl split_beta)
qed

theorem RtlFindSetBits_complete_witness:
  "snd (RtlFindSetBits \<lparr>SizeOfBitMap = 100, Buffer = \<lambda>_. 0xFF0\<rparr> 8 77) \<noteq> MAXULONG"
  by (rule RtlFindSetBits_complete [where s = 36])
     code_simp+

end
