(* ===== verification/Bitmap_Alloc.thy ===== *)
theory Bitmap_Alloc
  imports Bitmap_Search
begin

text \<open>
  Allocation from a bitmap: \<open>RtlFindClearBitsAndSet\<close> and \<open>RtlFindSetBitsAndClear\<close>.  The
  interface \<open>run_allocator\<close> is what the two share, a search and an update of the run found;
  what an allocator promises to its callers is proved from it once.
\<close>

section \<open>The interface\<close>

definition apart :: "nat \<times> nat \<Rightarrow> nat \<times> nat \<Rightarrow> bool" where
  "apart x y \<longleftrightarrow> fst x + snd x \<le> fst y \<or> fst y + snd y \<le> fst x"

fun serve :: "(RTL_BITMAP \<Rightarrow> nat \<Rightarrow> nat \<Rightarrow> RTL_BITMAP \<times> nat) \<Rightarrow> RTL_BITMAP \<Rightarrow>
    (nat \<times> nat) list \<Rightarrow> (nat \<times> nat) list" where
  \<comment> \<open>the runs granted to a sequence of requests, each a size and a hint\<close>
  "serve alloc bm [] = []"
| "serve alloc bm ((n, h) # rs) =
     (let (bm', r) = alloc bm n h
      in if r \<noteq> MAXULONG then (r, n) # serve alloc bm' rs else serve alloc bm' rs)"

definition requests :: "(nat \<times> nat) list \<Rightarrow> bool" where
  "requests rs \<longleftrightarrow> (\<forall>(n, h) \<in> set rs. 0 < n \<and> n < 4294967296)"

lemma requests_Cons [simp]: "requests ((n, h) # rs) \<longleftrightarrow> 0 < n \<and> n < 4294967296 \<and> requests rs"
  by (auto simp: requests_def)

locale run_allocator =
  fixes search :: "RTL_BITMAP \<Rightarrow> nat \<Rightarrow> nat \<Rightarrow> RTL_BITMAP \<times> nat"
    and mark :: "RTL_BITMAP \<Rightarrow> nat \<Rightarrow> nat \<Rightarrow> RTL_BITMAP"
    and alloc :: "RTL_BITMAP \<Rightarrow> nat \<Rightarrow> nat \<Rightarrow> RTL_BITMAP \<times> nat"
    and free :: "RTL_BITMAP \<Rightarrow> nat \<Rightarrow> bool"
  assumes search_free: "wf_bitmap bm \<Longrightarrow> 0 < n \<Longrightarrow> n < 4294967296 \<Longrightarrow>
      snd (search bm n h) \<noteq> MAXULONG \<Longrightarrow>
      snd (search bm n h) + n \<le> SizeOfBitMap bm \<and> run (free bm) (snd (search bm n h)) n"
    and search_size: "wf_bitmap bm \<Longrightarrow> 0 < n \<Longrightarrow> n < 4294967296 \<Longrightarrow>
      SizeOfBitMap (fst (search bm n h)) = SizeOfBitMap bm"
    and search_keeps: "wf_bitmap bm \<Longrightarrow> 0 < n \<Longrightarrow> n < 4294967296 \<Longrightarrow> j < SizeOfBitMap bm \<Longrightarrow>
      free (fst (search bm n h)) j = free bm j"
    and mark_size: "SizeOfBitMap (mark bm s n) = SizeOfBitMap bm"
    and mark_exact: "wf_bitmap bm \<Longrightarrow> s + n \<le> SizeOfBitMap bm \<Longrightarrow>
      free (mark bm s n) j \<longleftrightarrow> free bm j \<and> \<not> (s \<le> j \<and> j < s + n)"
    and alloc_eq: "alloc bm n h =
      (let (bm', r) = search bm n h in if r \<noteq> MAXULONG then (mark bm' r n, r) else (bm', r))"
begin

lemma alloc_size:
  assumes "wf_bitmap bm" "0 < n" "n < 4294967296"
  shows "SizeOfBitMap (fst (alloc bm n h)) = SizeOfBitMap bm"
  using search_size [OF assms, of h] by (simp add: alloc_eq split_beta mark_size Let_def)

lemma alloc_wf:
  assumes "wf_bitmap bm" "0 < n" "n < 4294967296"
  shows "wf_bitmap (fst (alloc bm n h))"
  using alloc_size [OF assms, of h] assms(1) by (simp add: wf_bitmap_def)

lemma alloc_run:
  assumes "wf_bitmap bm" "0 < n" "n < 4294967296" "snd (alloc bm n h) \<noteq> MAXULONG"
  shows "snd (alloc bm n h) + n \<le> SizeOfBitMap bm" "run (free bm) (snd (alloc bm n h)) n"
  using search_free [OF assms(1-3), of h] assms(4) by (auto simp: alloc_eq split_beta Let_def split: if_splits)

lemma alloc_free:
  assumes "wf_bitmap bm" "0 < n" "n < 4294967296" "j < SizeOfBitMap bm"
  shows "free (fst (alloc bm n h)) j \<longleftrightarrow> free bm j \<and>
    \<not> (snd (alloc bm n h) \<noteq> MAXULONG \<and> snd (alloc bm n h) \<le> j \<and> j < snd (alloc bm n h) + n)"
proof -
  have sz: "SizeOfBitMap (fst (search bm n h)) = SizeOfBitMap bm" by (rule search_size [OF assms(1-3)])
  then have wf: "wf_bitmap (fst (search bm n h))" using assms(1) by (simp add: wf_bitmap_def)
  show ?thesis
    using mark_exact [OF wf, of "snd (search bm n h)" n j] search_keeps [OF assms, of h]
      search_free [OF assms(1-3), of h] sz
    by (auto simp: alloc_eq split_beta Let_def)
qed

lemma served_free:
  assumes "wf_bitmap bm" "requests rs" "(r, n) \<in> set (serve alloc bm rs)"
  shows "0 < n \<and> r + n \<le> SizeOfBitMap bm \<and> run (free bm) r n"
  using assms
proof (induction rs arbitrary: bm)
  case (Cons x rs)
  obtain m h where x: "x = (m, h)" by (cases x)
  have m: "0 < m" "m < 4294967296" "requests rs" using Cons.prems x by auto
  let ?bm = "fst (alloc bm m h)"
  note facts = alloc_run [OF Cons.prems(1) m(1,2), of h] alloc_wf [OF Cons.prems(1) m(1,2), of h]
    alloc_size [OF Cons.prems(1) m(1,2), of h]
  have "(r, n) \<in> set (serve alloc ?bm rs) \<or> r \<noteq> MAXULONG \<and> r = snd (alloc bm m h) \<and> n = m"
    using Cons.prems(3) x by (auto simp: Let_def split_beta split: if_splits)
  then show ?case
  proof
    assume "(r, n) \<in> set (serve alloc ?bm rs)"
    from Cons.IH [OF facts(3) m(3) this]
    have "0 < n" "r + n \<le> SizeOfBitMap bm" "run (free ?bm) r n" using facts(4) by auto
    then show ?thesis using alloc_free [OF Cons.prems(1) m(1,2)] by (auto simp: run_def)
  qed (use facts(1,2) m in auto)
qed simp

lemma served_apart:
  assumes "wf_bitmap bm" "requests rs"
  shows "sorted_wrt apart (serve alloc bm rs)"
  using assms
proof (induction rs arbitrary: bm)
  case (Cons x rs)
  obtain m h where x: "x = (m, h)" by (cases x)
  have m: "0 < m" "m < 4294967296" "requests rs" using Cons.prems x by auto
  let ?bm = "fst (alloc bm m h)" and ?r = "snd (alloc bm m h)"
  have wf: "wf_bitmap ?bm" by (rule alloc_wf [OF Cons.prems(1) m(1,2)])
  have sz: "SizeOfBitMap ?bm = SizeOfBitMap bm" by (rule alloc_size [OF Cons.prems(1) m(1,2)])
  have "apart (?r, m) y" if r: "?r \<noteq> MAXULONG" and y: "y \<in> set (serve alloc ?bm rs)" for y
  proof (rule ccontr)
    obtain s n where sn: "y = (s, n)" by (cases y)
    assume "\<not> apart (?r, m) y"
    then have "s < ?r + m" "?r < s + n" using sn by (auto simp: apart_def)
    moreover have y': "0 < n" "s + n \<le> SizeOfBitMap bm" "run (free ?bm) s n"
      using served_free [OF wf m(3)] y sn sz by auto
    ultimately have j: "s \<le> max ?r s" "max ?r s < s + n" "?r \<le> max ?r s" "max ?r s < ?r + m"
      using m by auto
    then have "free ?bm (max ?r s)" using runD [OF y'(3)] by blast
    then show False using alloc_free [OF Cons.prems(1) m(1,2), of "max ?r s" h] r j y'(2) by auto
  qed
  then show ?case using Cons.IH [OF wf m(3)] x by (auto simp: Let_def split_beta)
qed simp

end

section \<open>The two allocators\<close>

interpretation clear_allocator: run_allocator RtlFindClearBits RtlSetBits RtlFindClearBitsAndSet
  "\<lambda>bm j. \<not> bit_at bm j"
proof
  fix bm n h j s
  show "SizeOfBitMap (RtlSetBits bm s n) = SizeOfBitMap bm" by simp
  show "RtlFindClearBitsAndSet bm n h = (let (bm', r) = RtlFindClearBits bm n h
      in if r \<noteq> MAXULONG then (RtlSetBits bm' r n, r) else (bm', r))"
    by (simp add: RtlFindClearBitsAndSet_def)
  show "(\<not> bit_at (RtlSetBits bm s n) j) = (\<not> bit_at bm j \<and> \<not> (s \<le> j \<and> j < s + n))"
    if "wf_bitmap bm" "s + n \<le> SizeOfBitMap bm" using bit_RtlSetBits [OF that] by blast
  assume c: "wf_bitmap bm" "0 < n" "n < 4294967296"
  note cases = RtlFindClearBits_cases [OF c, of h]
  show "SizeOfBitMap (fst (RtlFindClearBits bm n h)) = SizeOfBitMap bm" by (simp add: cases(1))
  show "(\<not> bit_at (fst (RtlFindClearBits bm n h)) j) = (\<not> bit_at bm j)" if "j < SizeOfBitMap bm"
    using that by (simp add: cases(1) bit_SetUnusedBits [OF c(1)])
  show "snd (RtlFindClearBits bm n h) + n \<le> SizeOfBitMap bm \<and>
      run (\<lambda>j. \<not> bit_at bm j) (snd (RtlFindClearBits bm n h)) n"
    if "snd (RtlFindClearBits bm n h) \<noteq> MAXULONG"
    using that cases(2) by (auto simp: Let_def)
qed

interpretation set_allocator: run_allocator RtlFindSetBits RtlClearBits RtlFindSetBitsAndClear bit_at
proof
  fix bm n h j s
  show "SizeOfBitMap (RtlClearBits bm s n) = SizeOfBitMap bm" by simp
  show "RtlFindSetBitsAndClear bm n h = (let (bm', r) = RtlFindSetBits bm n h
      in if r \<noteq> MAXULONG then (RtlClearBits bm' r n, r) else (bm', r))"
    by (simp add: RtlFindSetBitsAndClear_def)
  show "bit_at (RtlClearBits bm s n) j = (bit_at bm j \<and> \<not> (s \<le> j \<and> j < s + n))"
    if "wf_bitmap bm" "s + n \<le> SizeOfBitMap bm" using bit_RtlClearBits [OF that] .
  assume "wf_bitmap bm" "0 < n" "n < 4294967296"
  then have c: "wf_bitmap (compl_bm bm)" "0 < n" "n < 4294967296" by simp_all
  note cases = RtlFindClearBits_cases [OF c, of h]
  show "SizeOfBitMap (fst (RtlFindSetBits bm n h)) = SizeOfBitMap bm"
    by (simp add: RtlFindSetBits_compl split_beta cases(1))
  show "bit_at (fst (RtlFindSetBits bm n h)) j = bit_at bm j" if "j < SizeOfBitMap bm"
    using that by (simp add: RtlFindSetBits_compl split_beta cases(1) bit_SetUnusedBits [OF c(1)])
  show "snd (RtlFindSetBits bm n h) + n \<le> SizeOfBitMap bm \<and> run (bit_at bm) (snd (RtlFindSetBits bm n h)) n"
    if "snd (RtlFindSetBits bm n h) \<noteq> MAXULONG"
    using that cases(2) by (auto simp: Let_def RtlFindSetBits_compl split_beta)
qed

section \<open>Properties\<close>

text \<open>
  C9: Any sequence of calls of \<open>RtlFindClearBitsAndSet\<close> grants runs that lie inside the
  bitmap, were clear before the first call and do not overlap one another.
\<close>

theorem RtlFindClearBitsAndSet_disjoint:
  assumes "wf_bitmap bm" "requests rs"
  shows "sorted_wrt apart (serve RtlFindClearBitsAndSet bm rs) \<and>
    (\<forall>(r, n) \<in> set (serve RtlFindClearBitsAndSet bm rs).
       r + n \<le> SizeOfBitMap bm \<and> run (is_clear (Buffer bm)) r n)"
  using clear_allocator.served_apart [OF assms] clear_allocator.served_free [OF assms] by auto

theorem RtlFindClearBitsAndSet_disjoint_witness:
  "serve RtlFindClearBitsAndSet \<lparr>SizeOfBitMap = 40, Buffer = \<lambda>_. 0\<rparr> [(8, 0), (16, 0), (30, 0)] = [(0, 8), (8, 16)] \<and>
   sorted_wrt apart (serve RtlFindClearBitsAndSet \<lparr>SizeOfBitMap = 40, Buffer = \<lambda>_. 0\<rparr> [(8, 0), (16, 0), (30, 0)])"
proof
  show "serve RtlFindClearBitsAndSet \<lparr>SizeOfBitMap = 40, Buffer = \<lambda>_. 0\<rparr> [(8, 0), (16, 0), (30, 0)] = [(0, 8), (8, 16)]"
    by code_simp
  show "sorted_wrt apart (serve RtlFindClearBitsAndSet \<lparr>SizeOfBitMap = 40, Buffer = \<lambda>_. 0\<rparr> [(8, 0), (16, 0), (30, 0)])"
    by (rule RtlFindClearBitsAndSet_disjoint [THEN conjunct1]) (simp_all add: wf_bitmap_def requests_def)
qed

text \<open>
  C16: After \<open>RtlFindClearBitsAndSet\<close> returned the run at \<open>r\<close>, exactly the bits of that
  run have become set in the bitmap; when it returned 0xffffffff no bit has changed.
\<close>

theorem RtlFindClearBitsAndSet_exact:
  assumes "wf_bitmap bm" "0 < n" "n < 4294967296" "snd (RtlFindClearBitsAndSet bm n h) = r"
    and "j < SizeOfBitMap bm"
  shows "SizeOfBitMap (fst (RtlFindClearBitsAndSet bm n h)) = SizeOfBitMap bm \<and>
    (bit_at (fst (RtlFindClearBitsAndSet bm n h)) j \<longleftrightarrow>
       bit_at bm j \<or> r \<noteq> MAXULONG \<and> r \<le> j \<and> j < r + n)"
  using clear_allocator.alloc_free [OF assms(1-3,5), of h] clear_allocator.alloc_size [OF assms(1-3), of h]
    assms(4) by blast

theorem RtlFindClearBitsAndSet_exact_witness:
  "snd (RtlFindClearBitsAndSet \<lparr>SizeOfBitMap = 40, Buffer = \<lambda>_. 0xF\<rparr> 10 0) = 4 \<and>
   bit_at (fst (RtlFindClearBitsAndSet \<lparr>SizeOfBitMap = 40, Buffer = \<lambda>_. 0xF\<rparr> 10 0)) 11"
proof -
  have r: "snd (RtlFindClearBitsAndSet \<lparr>SizeOfBitMap = 40, Buffer = \<lambda>_. 0xF\<rparr> 10 0) = 4" by code_simp
  show ?thesis using RtlFindClearBitsAndSet_exact [OF _ _ _ r, of 11] r by (simp add: wf_bitmap_def)
qed

text \<open>
  C22: Any sequence of calls of \<open>RtlFindSetBitsAndClear\<close> grants runs that lie inside the
  bitmap, were set before the first call and do not overlap one another.
\<close>

theorem RtlFindSetBitsAndClear_disjoint:
  assumes "wf_bitmap bm" "requests rs"
  shows "sorted_wrt apart (serve RtlFindSetBitsAndClear bm rs) \<and>
    (\<forall>(r, n) \<in> set (serve RtlFindSetBitsAndClear bm rs).
       r + n \<le> SizeOfBitMap bm \<and> run (bit_at bm) r n)"
  using set_allocator.served_apart [OF assms] set_allocator.served_free [OF assms] by auto

theorem RtlFindSetBitsAndClear_disjoint_witness:
  "serve RtlFindSetBitsAndClear \<lparr>SizeOfBitMap = 40, Buffer = \<lambda>_. 0xFFFFFFFF\<rparr> [(9, 0), (16, 0)] = [(0, 9), (9, 16)] \<and>
   sorted_wrt apart (serve RtlFindSetBitsAndClear \<lparr>SizeOfBitMap = 40, Buffer = \<lambda>_. 0xFFFFFFFF\<rparr> [(9, 0), (16, 0)])"
proof
  show "serve RtlFindSetBitsAndClear \<lparr>SizeOfBitMap = 40, Buffer = \<lambda>_. 0xFFFFFFFF\<rparr> [(9, 0), (16, 0)] = [(0, 9), (9, 16)]"
    by code_simp
  show "sorted_wrt apart (serve RtlFindSetBitsAndClear \<lparr>SizeOfBitMap = 40, Buffer = \<lambda>_. 0xFFFFFFFF\<rparr> [(9, 0), (16, 0)])"
    by (rule RtlFindSetBitsAndClear_disjoint [THEN conjunct1]) (simp_all add: wf_bitmap_def requests_def)
qed

end
