(* ===== verification/Bitmap_Runs.thy ===== *)
theory Bitmap_Runs
  imports Bitmap_Find "HOL-Library.Code_Target_Nat"
begin

text \<open>
  The longest and the first run of a bitmap.  \<open>run_inv\<close> and \<open>first_inv\<close> are the loop
  invariants of the two scans over the bytes.
\<close>

section \<open>Longest run\<close>

definition run_inv :: "(nat \<Rightarrow> ulong) \<Rightarrow> nat \<Rightarrow> run_state \<Rightarrow> bool" where
  \<comment> \<open>the state after the bits below \<open>e\<close>: a longest run of them, and the run still open at \<open>e\<close>\<close>
  "run_inv b e st \<longleftrightarrow>
     open_run b 0 e (CurrentRunSize st) e \<and>
     CurrentRunIndex st = e - CurrentRunSize st \<and>
     LongestRunIndex st + LongestRunSize st \<le> e \<and>
     run (is_clear b) (LongestRunIndex st) (LongestRunSize st) \<and>
     (\<forall>s n. s + n \<le> e \<longrightarrow> run (is_clear b) s n \<longrightarrow> n \<le> max (LongestRunSize st) (CurrentRunSize st))"

lemma run_inv_close:
  assumes "run_inv b e st"
  defines "st' \<equiv> CloseRun st"
  shows "LongestRunIndex st' + LongestRunSize st' \<le> e"
    and "run (is_clear b) (LongestRunIndex st') (LongestRunSize st')"
    and "\<And>s n. s + n \<le> e \<Longrightarrow> run (is_clear b) s n \<Longrightarrow> n \<le> LongestRunSize st'"
  using assms unfolding run_inv_def open_run_def st'_def CloseRun_def
  by (auto simp: max_def split: if_splits)

lemma run_inv_zero:
  assumes "run_inv b (8 * p) st" "buf_byte b p = 0" "8 * (p + 1) < 4294967296"
  shows "run_inv b (8 * (p + 1)) (LongestClearStep 0 p st)"
proof -
  have r: "run (is_clear b) (8 * p) 8" using assms(2) by (simp add: run_def bit_buf_byte_div)
  have o: "open_run b 0 (8 * p) (CurrentRunSize st) (8 * p)" using assms(1) by (simp add: run_inv_def)
  from open_run_zero [OF this r]
  have o': "open_run b 0 (8 * (p + 1)) (CurrentRunSize st + 8) (8 * (p + 1))" by (simp add: ac_simps)
  have cur: "CurrentRunSize st \<le> 8 * p" using o by (simp add: open_run_def)
  then have u: "u32 (CurrentRunSize st + 8) = CurrentRunSize st + 8"
    using assms(3) by simp
  have "n \<le> max (LongestRunSize st) (CurrentRunSize st + 8)"
    if s: "s + n \<le> 8 * (p + 1)" "run (is_clear b) s n" for s n
  proof (cases "s + n \<le> 8 * p")
    case True
    then show ?thesis using assms(1) s(2) unfolding run_inv_def by fastforce
  next
    case False
    show ?thesis
    proof (cases "s \<le> 8 * p")
      case True
      then show ?thesis using open_run_cross(1) [OF o s(2)] False s(1) assms(2) by simp
    qed (use s in simp)
  qed
  then show ?thesis
    using o' assms(1) cur unfolding run_inv_def LongestClearStep_def by (simp add: u)
qed

lemma byte_run_le:
  assumes "8 * p \<le> s" "s + n \<le> 8 * (p + 1)" "run (is_clear b) s n"
  shows "n \<le> BitsClearAnywhere (buf_byte b p)"
proof -
  have "8 * p + (s - 8 * p) = s" using assms(1) by simp
  then show ?thesis
    using byte_run [of "s - 8 * p" n b p] assms by (intro anywhere_max [of "s - 8 * p"]) auto
qed

lemma run_inv_byte:
  assumes inv: "run_inv b (8 * p) st" and c: "buf_byte b p \<noteq> 0" and lim: "8 * (p + 1) < 4294967296"
  shows "run_inv b (8 * (p + 1)) (LongestClearStep (buf_byte b p) p st)"
proof -
  let ?c = "buf_byte b p"
  let ?low = "BitsClearLow ?c" and ?high = "BitsClearHigh ?c" and ?any = "BitsClearAnywhere ?c"
  define st1 where "st1 = CloseRun (st\<lparr>CurrentRunSize := CurrentRunSize st + ?low\<rparr>)"
  have o: "open_run b 0 (8 * p) (CurrentRunSize st) (8 * p)"
    and ix: "CurrentRunIndex st = 8 * p - CurrentRunSize st" using inv by (auto simp: run_inv_def)
  have cur: "CurrentRunSize st \<le> 8 * p" using o by (simp add: open_run_def)
  have l1: "LongestRunIndex st1 + LongestRunSize st1 \<le> 8 * (p + 1) \<and>
      run (is_clear b) (LongestRunIndex st1) (LongestRunSize st1)"
    using inv open_run_hit [OF o, of "CurrentRunSize st + ?low"] cur
    by (auto simp: st1_def CloseRun_def run_inv_def ix)
  have before: "n \<le> LongestRunSize st1"
    if s: "s \<le> 8 * p" "s + n \<le> 8 * (p + 1)" "run (is_clear b) s n" for s n
  proof -
    have "n \<le> max (LongestRunSize st) (CurrentRunSize st + ?low)"
    proof (cases "s + n \<le> 8 * p")
      case True
      then have "n \<le> max (LongestRunSize st) (CurrentRunSize st)"
        using inv s(3) unfolding run_inv_def by blast
      then show ?thesis by simp
    next
      case False
      then show ?thesis using open_run_cross(1) [OF o s(3)] s by auto
    qed
    then show ?thesis by (auto simp: st1_def CloseRun_def)
  qed
  have "high_at b 0 (p + 1) ?c" by (simp add: high_at_def)
  then have "open_run b 0 (8 * (p + 1)) ?high 8" using high_at_open [of 0 "p + 1" b ?c] by simp
  then have o': "open_run b 0 (8 * (p + 1)) ?high (8 * (p + 1))"
    using high_less [OF c] by (rule open_run_uncap)
  have any: "run (is_clear b) (8 * p + FitClear (FillMask ! ?any) ?c 0) ?any"
    "FitClear (FillMask ! ?any) ?c 0 + ?any \<le> 8"
    using FitClear_first [of ?any ?c] byte_run [of "FitClear (FillMask ! ?any) ?c 0" ?any b p] by auto
  have all: "n \<le> max (LongestRunSize st1) ?any"
    if s: "s + n \<le> 8 * (p + 1)" "run (is_clear b) s n" for s n
    using before [of s n] byte_run_le [of p s n b] that by (cases "s \<le> 8 * p") auto
  have le8: "?any \<le> 8" "?high < 8" "?high \<le> 8" using high_less [OF c] by auto
  have "CurrentRunSize st + ?low \<le> 8 * p + 8" by (rule add_mono [OF cur low_le])
  then have "CurrentRunSize st + ?low < 4294967296" using lim by simp
  then have u: "u32 (CurrentRunSize st + ?low) = CurrentRunSize st + ?low" "u32 (p * 8) = 8 * p"
    "u32 (8 * p + (8 - ?high)) = 8 * p + (8 - ?high)"
    "u32 (8 * p + FitClear (FillMask ! ?any) ?c 0) = 8 * p + FitClear (FillMask ! ?any) ?c 0"
    using lim any(2) by simp_all
  define st2 where "st2 = st1\<lparr>CurrentRunSize := ?high, CurrentRunIndex := 8 * p + (8 - ?high)\<rparr>"
  have step: "LongestClearStep ?c p st =
      (if LongestRunSize st1 < 8 \<and> ?high < 8 \<and> ?any > LongestRunSize st1 \<and> ?any > ?high
       then st2\<lparr>LongestRunIndex := 8 * p + FitClear (FillMask ! ?any) ?c 0, LongestRunSize := ?any\<rparr>
       else st2)"
    using c lim by (simp add: LongestClearStep_def Let_def u st1_def [symmetric] st2_def)
  have fin: "max (LongestRunSize st1) ?any \<le> max (LongestRunSize (LongestClearStep ?c p st)) ?high"
    using le8 order_trans [OF le8(1), of "LongestRunSize st1"] by (auto simp: step st2_def not_less)
  show ?thesis
    unfolding run_inv_def
    using o' l1 any le8 order_trans [OF all fin]
    by (auto simp: step st2_def)
qed

lemma LongestClearLoop_inv:
  assumes "8 * hi < 4294967296" "p \<le> hi" "run_inv b (8 * p) st"
  shows "run_inv b (8 * hi) (LongestClearLoop b hi p st)"
  using assms(2,3)
proof (induction "hi - p" arbitrary: p st)
  case 0
  then show ?case by (simp add: LongestClearLoop.simps)
next
  case (Suc k)
  have "run_inv b (8 * (p + 1)) (LongestClearStep (buf_byte b p) p st)"
    using run_inv_zero [of b p st] run_inv_byte [of b p st] Suc assms(1) by (cases "buf_byte b p = 0") auto
  then have "run_inv b (8 * hi) (LongestClearLoop b hi (p + 1) (LongestClearStep (buf_byte b p) p st))"
    using Suc.hyps(1) [of "p + 1"] Suc.hyps(2) Suc.prems by simp
  moreover have "p < hi" using Suc.hyps(2) by simp
  ultimately show ?case by (simp add: LongestClearLoop.simps [of b hi p])
qed

lemma run_inv_start: "run_inv b 0 start_run"
  by (simp add: run_inv_def open_run_def)

lemma LongestClear_spec:
  assumes "8 * hi < 4294967296" "tail_set b Size (8 * hi)"
  defines "st \<equiv> CloseRun (LongestClearLoop b hi 0
      start_run)"
  shows "0 < LongestRunSize st \<Longrightarrow> LongestRunIndex st + LongestRunSize st \<le> Size"
    and "run (is_clear b) (LongestRunIndex st) (LongestRunSize st)"
    and "\<And>s n. s + n \<le> 8 * hi \<Longrightarrow> run (is_clear b) s n \<Longrightarrow> n \<le> LongestRunSize st"
proof -
  have "run_inv b (8 * hi) (LongestClearLoop b hi 0
      start_run)"
    using LongestClearLoop_inv [OF assms(1) _ , of 0] run_inv_start by simp
  note c = run_inv_close [OF this, folded st_def]
  show "run (is_clear b) (LongestRunIndex st) (LongestRunSize st)" by (rule c(2))
  show "0 < LongestRunSize st \<Longrightarrow> LongestRunIndex st + LongestRunSize st \<le> Size"
    using tail_set_run [OF assms(2) c(2)] c(1) by simp
  show "\<And>s n. s + n \<le> 8 * hi \<Longrightarrow> run (is_clear b) s n \<Longrightarrow> n \<le> LongestRunSize st"
    by (rule c(3))
qed

section \<open>First run\<close>

definition maximal_run :: "(nat \<Rightarrow> ulong) \<Rightarrow> nat \<Rightarrow> nat \<Rightarrow> nat \<Rightarrow> bool" where
  \<comment> \<open>\<open>n\<close> clear bits at \<open>i\<close>, set bits around them, and only set bits in the bytes before\<close>
  "maximal_run b e i n \<longleftrightarrow> i + n \<le> e \<and> run (is_clear b) i n \<and>
     (\<forall>j < 8 * (i div 8). buf_bit b j) \<and> (0 < i \<longrightarrow> buf_bit b (i - 1)) \<and>
     (i + n < e \<longrightarrow> buf_bit b (i + n))"

definition first_inv :: "(nat \<Rightarrow> ulong) \<Rightarrow> nat \<Rightarrow> nat \<Rightarrow> nat \<Rightarrow> bool" where
  "first_inv b e n i \<longleftrightarrow>
     (if n = 0 then i = MAXULONG \<and> (\<forall>j<e. buf_bit b j) else i + n = e \<and> maximal_run b e i n)"

definition first_result :: "(nat \<Rightarrow> ulong) \<Rightarrow> nat \<Rightarrow> nat \<times> nat \<Rightarrow> bool" where
  "first_result b e r \<longleftrightarrow>
     (if fst r = 0 then snd r = MAXULONG \<and> (\<forall>j<e. buf_bit b j) else maximal_run b e (snd r) (fst r))"

lemma set_byte: "buf_byte b p = 255 \<Longrightarrow> j < 8 * (p + 1) \<Longrightarrow> 8 * p \<le> j \<Longrightarrow> buf_bit b j"
proof -
  assume a: "buf_byte b p = 255" "j < 8 * (p + 1)" "8 * p \<le> j"
  have "j div 8 = p" using a by (simp add: div_eq_window)
  moreover have "bit (255 :: uchar) (j mod 8)"
    using bit_FillMask [of 8 "j mod 8"] by (simp add: FillMask_def)
  ultimately show ?thesis by (simp only: bit_buf_byte_div a)
qed

lemma low_stop: "b \<noteq> 0 \<Longrightarrow> bit b (BitsClearLow b)"
  using BitsClearLow_check [of b] low_less [of b] by simp

lemma high_stop: "b \<noteq> 0 \<Longrightarrow> bit b (7 - BitsClearHigh b)"
  using BitsClearHigh_check [of b] high_less [of b] by simp

lemma anywhere_pos: "b \<noteq> 255 \<Longrightarrow> 0 < BitsClearAnywhere b"
proof (rule ccontr)
  assume b: "b \<noteq> 255" and "\<not> 0 < BitsClearAnywhere b"
  then have z: "BitsClearAnywhere b = 0" by simp
  have f: "bit (255 :: uchar) k" if "k < 8" for k
    using bit_FillMask [of 8 k] that by (simp add: FillMask_def)
  have "bit b k" if "k < 8" for k
  proof (rule ccontr)
    assume "\<not> bit b k"
    then have "run (byte_clear b) k 1" by (simp add: run_def)
    with anywhere_max [of k 1 b] that z show False by simp
  qed
  then have "bit b k = bit (255 :: uchar) k" for k
    using f [of k] bit_uchar_less [of b k] bit_uchar_less [of 255 k] by blast
  then have "b = 255" by (rule bit_eqI)
  with b show False by simp
qed

lemma first_zero:
  assumes "first_inv b (8 * p) n i" "buf_byte b p = 0"
  shows "first_inv b (8 * (p + 1)) (n + 8) (if n = 0 then 8 * p else i)"
proof -
  have r: "run (is_clear b) (8 * p) 8" using assms(2) by (simp add: run_def bit_buf_byte_div)
  show ?thesis
  proof (cases "n = 0")
    case True
    then show ?thesis using assms(1) r by (auto simp: first_inv_def maximal_run_def)
  next
    case False
    then have "i + n = 8 * p" "run (is_clear b) i n" using assms(1) by (auto simp: first_inv_def maximal_run_def)
    then have "run (is_clear b) i (n + 8)" using r by (simp add: run_append)
    then show ?thesis using assms(1) False by (auto simp: first_inv_def maximal_run_def)
  qed
qed

lemma first_close:
  assumes "first_inv b (8 * p) n i" "0 < n" "buf_byte b p \<noteq> 0" "p < hi"
  shows "maximal_run b (8 * hi) i (n + BitsClearLow (buf_byte b p))"
proof -
  let ?l = "BitsClearLow (buf_byte b p)"
  have i: "i + n = 8 * p" "run (is_clear b) i n" using assms by (auto simp: first_inv_def maximal_run_def)
  have l: "?l < 8" using low_less [OF assms(3)] .
  have "run (is_clear b) (8 * p) ?l"
    using low_run [of "buf_byte b p"] byte_run [of 0 ?l b p] by simp
  then have "run (is_clear b) i (n + ?l)" using i by (simp add: run_append)
  moreover have "buf_bit b (8 * p + ?l)" using low_stop [OF assms(3)] l by (simp add: bit_buf_byte)
  then have "buf_bit b (i + (n + ?l))" by (simp add: i(1) [symmetric] add.assoc)
  moreover have "i + (n + ?l) \<le> 8 * hi" using i l assms(4) by simp
  ultimately show ?thesis using assms(1,2) by (auto simp: first_inv_def maximal_run_def)
qed

lemma first_high:
  assumes "first_inv b (8 * p) 0 i" "buf_byte b p \<noteq> 0" "BitsClearHigh (buf_byte b p) \<noteq> 0"
  defines "h \<equiv> BitsClearHigh (buf_byte b p)"
  shows "first_inv b (8 * (p + 1)) h (8 * p + (8 - h))"
proof -
  have h: "h < 8" using high_less [OF assms(2)] by (simp add: h_def)
  have "run (is_clear b) (8 * p + (8 - h)) h"
    using high_run [of "buf_byte b p"] byte_run [of "8 - h" h b p] h by (simp add: h_def)
  moreover have "buf_bit b (8 * p + (7 - h))" using high_stop [OF assms(2)] h by (simp add: bit_buf_byte h_def)
  then have "buf_bit b (8 * p + (8 - h) - 1)" using h by (simp add: add.commute)
  moreover have "(8 * p + (8 - h)) div 8 = p" using h assms(3) by (simp add: h_def)
  ultimately show ?thesis using assms(1,3) h by (auto simp: first_inv_def maximal_run_def h_def)
qed

lemma first_inside:
  assumes "first_inv b (8 * p) 0 i" "buf_byte b p \<noteq> 255" "BitsClearHigh (buf_byte b p) = 0" "p < hi"
  defines "a \<equiv> BitsClearAnywhere (buf_byte b p)"
  defines "f \<equiv> FitClear (FillMask ! a) (buf_byte b p) 0"
  shows "0 < a" "f + a < 8" "maximal_run b (8 * hi) (8 * p + f) a"
proof -
  let ?c = "buf_byte b p"
  show a: "0 < a" using anywhere_pos [OF assms(2)] by (simp add: a_def)
  have f: "f + a \<le> 8" "run (byte_clear ?c) f a" using FitClear_first [of a ?c] by (auto simp: a_def f_def)
  have max: "\<not> run (byte_clear ?c) s (Suc a)" if "s + Suc a \<le> 8" for s
    using anywhere_max [OF that, of ?c] by (auto simp: a_def)
  show fa: "f + a < 8"
  proof (rule ccontr)
    assume "\<not> f + a < 8"
    then have "f = 8 - a" "a \<le> 8" using f by auto
    then have "a \<le> BitsClearHigh ?c" using high_max [of a ?c] f(2) by simp
    then show False using a assms(3) by simp
  qed
  have after: "buf_bit b (8 * p + f + a)"
  proof (rule ccontr)
    assume "\<not> buf_bit b (8 * p + f + a)"
    then have "byte_clear ?c (f + a)" by (simp add: bit_buf_byte add.assoc)
    then have "run (byte_clear ?c) f (a + 1)" using f(2) unfolding run_append by (simp add: run_def)
    then show False using max [of f] fa by simp
  qed
  have before: "buf_bit b (8 * p + f - 1)" if "0 < 8 * p + f"
  proof (cases "f = 0")
    case True
    then show ?thesis using assms(1) that by (simp add: first_inv_def)
  next
    case False
    show ?thesis
    proof (rule ccontr)
      assume "\<not> buf_bit b (8 * p + f - 1)"
      then have "byte_clear ?c (f - 1)" using False by (simp add: bit_buf_byte)
      then have "run (byte_clear ?c) (f - 1) (Suc a)" using f(2) False unfolding run_Suc by simp
      then show False using max [of "f - 1"] fa False by simp
    qed
  qed
  have "run (is_clear b) (8 * p + f) a" using f byte_run [of f a b p] by simp
  moreover have "(8 * p + f) div 8 = p" using fa by simp
  ultimately show "maximal_run b (8 * hi) (8 * p + f) a"
    using after before assms(1,4) fa by (auto simp: maximal_run_def first_inv_def)
qed

lemma FirstClearLoop_result:
  assumes "8 * hi < 4294967288" "p \<le> hi" "first_inv b (8 * p) n i"
  shows "first_result b (8 * hi) (FirstClearLoop b hi p n i)"
  using assms(2,3)
proof (induction "hi - p" arbitrary: p n i)
  case 0
  then show ?case by (auto simp: FirstClearLoop.simps first_inv_def first_result_def)
next
  case (Suc k)
  let ?c = "buf_byte b p"
  have p: "p < hi" using Suc by simp
  note IH = Suc.hyps(1) [of "p + 1"]
  have next_p: "k = hi - (p + 1)" "p + 1 \<le> hi" using Suc by auto
  have u: "u32 (p * 8) = 8 * p" "8 * p + 8 < 4294967296" using p assms(1) by auto
  have n: "n \<le> 8 * p" "n \<noteq> 0 \<Longrightarrow> i \<le> 8 * p" using Suc.prems(2) by (auto simp: first_inv_def split: if_splits)
  note un = FirstClearLoop.simps [of b hi p n i]
  consider (ff) "?c = 255" "n = 0" | (zero) "?c = 0" | (close) "?c \<noteq> 0" "n \<noteq> 0"
    | (inside) "?c \<noteq> 0" "?c \<noteq> 255" "n = 0" "BitsClearHigh ?c = 0"
    | (high) "?c \<noteq> 0" "?c \<noteq> 255" "n = 0" "BitsClearHigh ?c \<noteq> 0" by blast
  then show ?case
  proof cases
    case ff
    have "first_inv b (8 * (p + 1)) n i"
      using Suc.prems(2) ff set_byte [OF ff(1)] by (auto simp: first_inv_def) (metis not_le)
    then show ?thesis using IH [OF next_p] p ff unfolding un by simp
  next
    case zero
    have "i = MAXULONG \<longleftrightarrow> n = 0"
      using Suc.prems(2) n u by (cases "n = 0") (auto simp: first_inv_def)
    then show ?thesis
      using IH [OF next_p first_zero [OF Suc.prems(2) zero]] p zero n u
      unfolding un by (cases "n = 0") (simp_all add: mult.commute [of p 8])
  next
    case close
    have "u32 (n + BitsClearLow ?c) = n + BitsClearLow ?c"
      using u(2) add_mono [OF n(1) low_le [of ?c]] by simp
    then show ?thesis
      using first_close [OF Suc.prems(2) _ close(1) p] close p by (simp add: un Let_def first_result_def)
  next
    case inside
    note r = first_inside [OF Suc.prems(2) [unfolded inside(3)] inside(2,4) p]
    have "u32 (8 * p + FitClear (FillMask ! BitsClearAnywhere ?c) ?c 0) =
        8 * p + FitClear (FillMask ! BitsClearAnywhere ?c) ?c 0" using r(2) u(2) by simp
    then show ?thesis using r inside p u unfolding un by (simp add: Let_def first_result_def mult.commute [of p 8])
  next
    case high
    have "u32 (8 * p + (8 - BitsClearHigh ?c)) = 8 * p + (8 - BitsClearHigh ?c)" using u(2) by simp
    then show ?thesis
      using IH [OF next_p first_high [OF Suc.prems(2) [unfolded high(3)] high(1,4)]] high p u
      unfolding un by (simp add: Let_def mult.commute [of p 8])
  qed
qed

section \<open>The tail of the last byte\<close>

lemma unused_tail:
  assumes "wf_bitmap bm"
  shows "tail_set (Buffer (SetUnusedBits bm)) (SizeOfBitMap bm) (8 * SizeInBytes bm)"
  by (auto simp: tail_set_def bit_SetUnusedBits [OF assms])

lemma unused_run:
  assumes "wf_bitmap bm" "s + n \<le> SizeOfBitMap bm"
  shows "run (is_clear (Buffer (SetUnusedBits bm))) s n = run (is_clear (Buffer bm)) s n"
  by (rule run_cong) (use assms(2) in \<open>auto simp: bit_SetUnusedBits [OF assms(1)]\<close>)

lemma longest_clear:
  assumes "wf_bitmap bm"
  defines "i \<equiv> fst (snd (RtlFindLongestRunClear bm))" and "n \<equiv> snd (snd (RtlFindLongestRunClear bm))"
  shows "n = 0 \<or> i + n \<le> SizeOfBitMap bm" "run (is_clear (Buffer bm)) i n"
    "\<And>s m. s + m \<le> SizeOfBitMap bm \<Longrightarrow> run (is_clear (Buffer bm)) s m \<Longrightarrow> m \<le> n"
proof -
  note sz = SizeInBytes_bounds [OF assms(1)]
  note l = LongestClear_spec [OF sz(3) unused_tail [OF assms(1)]]
  show 1: "n = 0 \<or> i + n \<le> SizeOfBitMap bm"
    using l(1) by (auto simp: i_def n_def RtlFindLongestRunClear_def Let_def)
  show "run (is_clear (Buffer bm)) i n"
    using l(2) 1 unused_run [OF assms(1), of i n] by (auto simp: i_def n_def RtlFindLongestRunClear_def Let_def)
  show "m \<le> n" if "s + m \<le> SizeOfBitMap bm" "run (is_clear (Buffer bm)) s m" for s m
    using l(3) [of s m] that unused_run [OF assms(1), of s m] sz(1)
    by (simp add: n_def RtlFindLongestRunClear_def Let_def)
qed

lemma first_clear:
  assumes "wf_bitmap bm"
  defines "i \<equiv> fst (snd (RtlFindFirstRunClear bm))" and "n \<equiv> snd (snd (RtlFindFirstRunClear bm))"
  shows "if n = 0 then i = MAXULONG \<and> (\<forall>j < SizeOfBitMap bm. bit_at bm j)
         else maximal_run (Buffer bm) (SizeOfBitMap bm) i n"
proof -
  let ?b = "Buffer (SetUnusedBits bm)" and ?e = "8 * SizeInBytes bm" and ?S = "SizeOfBitMap bm"
  note sz = SizeInBytes_bounds [OF assms(1)]
  have "8 * SizeInBytes bm < 4294967288" using sz(2) assms(1) by (simp add: wf_bitmap_def)
  then have "first_result ?b ?e (FirstClearLoop ?b (SizeInBytes bm) 0 0 MAXULONG)"
    by (rule FirstClearLoop_result) (simp_all add: first_inv_def)
  then have r: "first_result ?b ?e (n, i)"
    by (simp add: i_def n_def RtlFindFirstRunClear_def Let_def split_beta)
  have bits: "buf_bit ?b j = bit_at bm j" if "j < ?S" for j using that by (simp add: bit_SetUnusedBits [OF assms(1)])
  show ?thesis
  proof (cases "n = 0")
    case True
    then show ?thesis using r bits sz(1) by (auto simp: first_result_def)
  next
    case False
    then have m: "maximal_run ?b ?e i n" using r by (simp add: first_result_def)
    then have "run (is_clear ?b) i n" "i + n \<le> ?e" by (auto simp: maximal_run_def)
    then have le: "i + n \<le> ?S" using tail_set_run [OF unused_tail [OF assms(1)]] False by simp
    then have "8 * (i div 8) \<le> ?S" using False by simp
    then show ?thesis
      using m le False bits unused_run [OF assms(1) le] sz(1) by (auto simp: maximal_run_def)
  qed
qed

section \<open>Set bits\<close>

lemma LongestSetStep_compl: "LongestSetStep c p st = LongestClearStep (NOT c) p st"
  by (simp add: LongestSetStep_def LongestClearStep_def Let_def NOT_eq_swap FitSet_compl)

lemma LongestSetLoop_compl: "LongestSetLoop b hi p st = LongestClearLoop (compl_buf b) hi p st"
proof (induction b hi p st rule: LongestSetLoop.induct)
  case (1 b hi p st)
  then show ?case
    by (subst LongestSetLoop.simps, subst LongestClearLoop.simps) (simp add: LongestSetStep_compl)
qed

lemma RtlFindLongestRunSet_compl:
  "snd (RtlFindLongestRunSet bm) = snd (RtlFindLongestRunClear (compl_bm bm))"
  by (simp add: RtlFindLongestRunSet_def RtlFindLongestRunClear_def Let_def ClearUnusedBits_compl
      LongestSetLoop_compl)

lemma FirstSetLoop_compl: "FirstSetLoop b hi p n i = FirstClearLoop (compl_buf b) hi p n i"
proof (induction b hi p n i rule: FirstSetLoop.induct)
  case (1 b hi p n i)
  show ?case
  proof (cases "p < hi")
    case False
    then show ?thesis by (subst FirstSetLoop.simps, subst FirstClearLoop.simps) simp
  next
    case True
    note IH = "1.IH" [OF True refl]
    show ?thesis
      unfolding FirstSetLoop.simps [of b hi p n i] FirstClearLoop.simps [of "compl_buf b" hi p n i]
      by (simp only: Let_def True if_True buf_byte_compl NOT_eq_swap set_tables_compl FitSet_compl)
         (use IH in \<open>auto simp: NOT_eq_swap\<close>)
  qed
qed

lemma RtlFindFirstRunSet_compl:
  "snd (RtlFindFirstRunSet bm) = snd (RtlFindFirstRunClear (compl_bm bm))"
  by (simp add: RtlFindFirstRunSet_def RtlFindFirstRunClear_def Let_def ClearUnusedBits_compl
      FirstSetLoop_compl split_beta)

section \<open>Properties\<close>

text \<open>
  C23: \<open>RtlFindLongestRunClear\<close> returns a run of clear bits inside the bitmap, and no
  run of clear bits inside the bitmap is longer.
\<close>

theorem RtlFindLongestRunClear_longest:
  assumes "wf_bitmap bm" "snd (RtlFindLongestRunClear bm) = (i, n)"
  shows "run (is_clear (Buffer bm)) i n \<and> (n = 0 \<or> i + n \<le> SizeOfBitMap bm) \<and>
    (\<forall>s m. s + m \<le> SizeOfBitMap bm \<longrightarrow> run (is_clear (Buffer bm)) s m \<longrightarrow> m \<le> n)"
  using longest_clear [OF assms(1)] assms(2) by auto

theorem RtlFindLongestRunClear_longest_witness:
  "snd (RtlFindLongestRunClear \<lparr>SizeOfBitMap = 24, Buffer = \<lambda>_. 0x80301\<rparr>) = (10, 9) \<and>
   run (is_clear (\<lambda>_. 0x80301)) 10 9"
proof -
  have r: "snd (RtlFindLongestRunClear \<lparr>SizeOfBitMap = 24, Buffer = \<lambda>_. 0x80301\<rparr>) = (10, 9)" by code_simp
  show ?thesis using RtlFindLongestRunClear_longest [OF _ r] r by (simp add: wf_bitmap_def)
qed

text \<open>
  C24: \<open>RtlFindLongestRunSet\<close> returns a run of set bits inside the bitmap, and no run
  of set bits inside the bitmap is longer.
\<close>

theorem RtlFindLongestRunSet_longest:
  assumes "wf_bitmap bm" "snd (RtlFindLongestRunSet bm) = (i, n)"
  shows "run (bit_at bm) i n \<and> (n = 0 \<or> i + n \<le> SizeOfBitMap bm) \<and>
    (\<forall>s m. s + m \<le> SizeOfBitMap bm \<longrightarrow> run (bit_at bm) s m \<longrightarrow> m \<le> n)"
  using longest_clear [of "compl_bm bm"] assms by (auto simp: RtlFindLongestRunSet_compl)

theorem RtlFindLongestRunSet_longest_witness:
  "snd (RtlFindLongestRunSet \<lparr>SizeOfBitMap = 24, Buffer = \<lambda>_. 0x7FC01\<rparr>) = (10, 9) \<and>
   run (buf_bit (\<lambda>_. 0x7FC01)) 10 9"
proof -
  have r: "snd (RtlFindLongestRunSet \<lparr>SizeOfBitMap = 24, Buffer = \<lambda>_. 0x7FC01\<rparr>) = (10, 9)" by code_simp
  show ?thesis using RtlFindLongestRunSet_longest [OF _ r] r by (simp add: wf_bitmap_def)
qed


text \<open>
  C25: \<open>RtlFindFirstRunClear\<close> returns a maximal run of clear bits inside the bitmap
  before whose byte every bit is set; it returns length zero only when no bit of the bitmap
  is clear, and then index 0xffffffff.
\<close>

theorem RtlFindFirstRunClear_first_byte:
  assumes "wf_bitmap bm" "snd (RtlFindFirstRunClear bm) = (i, n)"
  shows "if n = 0 then i = MAXULONG \<and> (\<forall>j < SizeOfBitMap bm. bit_at bm j)
         else maximal_run (Buffer bm) (SizeOfBitMap bm) i n"
  using first_clear [OF assms(1)] assms(2) by auto

theorem RtlFindFirstRunClear_first_byte_witness:
  "snd (RtlFindFirstRunClear \<lparr>SizeOfBitMap = 30, Buffer = \<lambda>_. 0x3007FFF\<rparr>) = (15, 9) \<and>
   maximal_run (\<lambda>_. 0x3007FFF) 30 15 9"
proof -
  have r: "snd (RtlFindFirstRunClear \<lparr>SizeOfBitMap = 30, Buffer = \<lambda>_. 0x3007FFF\<rparr>) = (15, 9)" by code_simp
  show ?thesis using RtlFindFirstRunClear_first_byte [OF _ r] r by (simp add: wf_bitmap_def)
qed

text \<open>
  C26: \<open>RtlFindFirstRunSet\<close> returns a maximal run of set bits inside the bitmap before
  whose byte every bit is clear; it returns length zero only when no bit of the bitmap is
  set, and then index 0xffffffff.
\<close>

theorem RtlFindFirstRunSet_first_byte:
  assumes "wf_bitmap bm" "snd (RtlFindFirstRunSet bm) = (i, n)"
  shows "if n = 0 then i = MAXULONG \<and> (\<forall>j < SizeOfBitMap bm. \<not> bit_at bm j)
         else maximal_run (compl_buf (Buffer bm)) (SizeOfBitMap bm) i n"
  using first_clear [of "compl_bm bm"] assms by (auto simp: RtlFindFirstRunSet_compl)

theorem RtlFindFirstRunSet_first_byte_witness:
  "snd (RtlFindFirstRunSet \<lparr>SizeOfBitMap = 30, Buffer = \<lambda>_. 0xFF8000\<rparr>) = (15, 9) \<and>
   maximal_run (compl_buf (\<lambda>_. 0xFF8000)) 30 15 9"
proof -
  have r: "snd (RtlFindFirstRunSet \<lparr>SizeOfBitMap = 30, Buffer = \<lambda>_. 0xFF8000\<rparr>) = (15, 9)" by code_simp
  show ?thesis using RtlFindFirstRunSet_first_byte [OF _ r] r by (simp add: wf_bitmap_def)
qed


end
