(* ===== verification/Bitmap_Count.thy ===== *)
theory Bitmap_Count
  imports Bitmap_Find "HOL-Library.Code_Target_Nat"
begin

text \<open>
  The counts of clear and set bits, and the test of a whole range.
\<close>

section \<open>Counting\<close>

definition clear_count :: "(nat \<Rightarrow> ulong) \<Rightarrow> nat \<Rightarrow> nat" where
  "clear_count b n = length (filter (is_clear b) [0..<n])"

lemma clear_count_card: "clear_count b n = card {i. i < n \<and> is_clear b i}"
proof -
  have "{i. i < n \<and> is_clear b i} = set (filter (is_clear b) [0..<n])" by auto
  moreover have "distinct (filter (is_clear b) [0..<n])" by simp
  ultimately show ?thesis unfolding clear_count_def by (simp only: distinct_card)
qed

lemma clear_count_byte: "clear_count b (8 * p + 8) = clear_count b (8 * p) + BitsClearTotal (buf_byte b p)"
proof -
  have "[0..<8 * p + 8] = [0..<8 * p] @ map (\<lambda>k. 8 * p + k) [0..<8]"
    using upt_add_eq_append [of 0 "8 * p" 8] map_add_upt [of "8 * p" 8] by (simp only: add.commute le0 add_0_right)
  moreover have "filter (is_clear b) (map (\<lambda>k. 8 * p + k) [0..<8]) =
      map (\<lambda>k. 8 * p + k) (filter (\<lambda>k. \<not> bit (buf_byte b p) k) [0..<8])"
    unfolding filter_map o_def by (intro arg_cong [where f = "map _"] filter_cong) (simp_all add: bit_buf_byte)
  ultimately show ?thesis
    by (simp add: clear_count_def BitsClearTotal_check del: upt_Suc)
qed

lemma clear_count_le: "clear_count b n \<le> n"
  unfolding clear_count_def by (rule order_trans [OF length_filter_le]) simp

lemma CountClearLoop_spec:
  assumes "8 * hi < 4294967296" "p \<le> hi"
  shows "CountClearLoop b hi p (clear_count b (8 * p)) = clear_count b (8 * hi)"
  using assms(2)
proof (induction "hi - p" arbitrary: p)
  case 0
  then show ?case by (simp add: CountClearLoop.simps)
next
  case (Suc k)
  have p: "p < hi" using Suc by simp
  have "8 * p + 8 < 4294967296" using p assms(1) by simp
  then have u: "u32 (clear_count b (8 * p + 8)) = clear_count b (8 * p + 8)"
    using clear_count_le [of b "8 * p + 8"] by simp
  show ?case
    using p Suc.hyps(1) [of "p + 1"] Suc.hyps(2) u
    unfolding CountClearLoop.simps [of b hi p] clear_count_byte [symmetric] by (simp add: add.commute)
qed

lemma clear_count_tail:
  assumes "tail_set b Size hi" "Size \<le> hi"
  shows "clear_count b hi = clear_count b Size"
proof -
  have "[0..<hi] = [0..<Size] @ [Size..<hi]" using assms(2) upt_add_eq_append [of 0 Size "hi - Size"] by simp
  moreover have "filter (is_clear b) [Size..<hi] = []"
    using assms(1) by (auto simp: tail_set_def filter_empty_conv)
  ultimately show ?thesis by (simp add: clear_count_def)
qed

section \<open>Testing a range\<close>

lemma WholeBytes_spec: "WholeBytes b v i e \<longleftrightarrow> (\<forall>j. i \<le> j \<longrightarrow> j < e \<longrightarrow> buf_byte b j = v)"
proof (induction b v i e rule: WholeBytes.induct)
  case (1 b v i e)
  then show ?case
    by (subst WholeBytes.simps) (auto, metis Suc_leI le_neq_implies_less)
qed

lemma zero_byte_run: "buf_byte b j = 0 \<longleftrightarrow> run (is_clear b) (8 * j) 8"
  using clear_byte_zero [of b j] by (auto simp: run_def bit_buf_byte_div)

lemma whole_bytes_run:
  assumes "i \<le> e"
  shows "WholeBytes b 0 i e \<longleftrightarrow> run (is_clear b) (8 * i) (8 * (e - i))"
proof
  assume w: "WholeBytes b 0 i e"
  show "run (is_clear b) (8 * i) (8 * (e - i))"
  proof (rule runI)
    fix k assume "8 * i \<le> k" "k < 8 * i + 8 * (e - i)"
    then have "i \<le> k div 8" "k div 8 < e" using assms by auto
    then show "is_clear b k" using w by (simp add: WholeBytes_spec bit_buf_byte_div)
  qed
next
  assume r: "run (is_clear b) (8 * i) (8 * (e - i))"
  show "WholeBytes b 0 i e"
    unfolding WholeBytes_spec zero_byte_run by (intro allI impI run_mono [OF r]) auto
qed

lemma byte_mask_run:
  assumes m: "\<And>k. bit m k \<longleftrightarrow> k < 8 \<and> r \<le> k \<and> k < r + n" and "r + n \<le> 8"
  shows "m AND buf_byte b p = 0 \<longleftrightarrow> run (is_clear b) (8 * p + r) n"
proof -
  let ?c = "buf_byte b p"
  have "m AND ?c = 0 \<longleftrightarrow> run (byte_clear ?c) r n"
  proof
    assume z: "m AND ?c = 0"
    show "run (byte_clear ?c) r n"
    proof (rule runI)
      fix k assume "r \<le> k" "k < r + n"
      moreover have "\<not> bit (m AND ?c) k" using z by simp
      ultimately show "\<not> bit ?c k" using m [of k] assms(2) by (simp add: bit_and_iff)
    qed
  next
    assume "run (byte_clear ?c) r n"
    then have "\<not> bit (m AND ?c) k" for k using m [of k] runD [of "byte_clear ?c" r n k] by (auto simp: bit_and_iff)
    then show "m AND ?c = 0" by (intro bit_word_eqI) auto
  qed
  then show ?thesis using byte_run [of r n b p] assms(2) by simp
qed

lemma head_mask: "r < 8 \<Longrightarrow> ZeroMask ! r AND buf_byte b p = 0 \<longleftrightarrow> run (is_clear b) (8 * p + r) (8 - r)"
  by (rule byte_mask_run) (auto simp: bit_ZeroMask)

lemma tail_mask: "r < 8 \<Longrightarrow> FillMask ! (r + 1) AND buf_byte b p = 0 \<longleftrightarrow> run (is_clear b) (8 * p) (r + 1)"
  using byte_mask_run [of "FillMask ! (r + 1)" 0 "r + 1" b p] by (auto simp: bit_FillMask)

lemma inner_mask:
  assumes "r \<le> s" "s < 8"
  shows "ZeroMask ! r AND FillMask ! (s + 1) AND buf_byte b p = 0 \<longleftrightarrow> run (is_clear b) (8 * p + r) (s + 1 - r)"
  unfolding and.assoc [symmetric]
  by (rule byte_mask_run) (use assms in \<open>auto simp: bit_ZeroMask bit_FillMask bit_and_iff\<close>)

lemma RtlAreBitsClear_iff:
  assumes "s + n < 4294967296"
  shows "RtlAreBitsClear bm s n \<longleftrightarrow> 0 < n \<and> s + n \<le> SizeOfBitMap bm \<and> run (is_clear (Buffer bm)) s n"
proof (cases "0 < n \<and> s + n \<le> SizeOfBitMap bm")
  case False
  then show ?thesis using assms by (auto simp: RtlAreBitsClear_def)
next
  case True
  let ?b = "Buffer bm"
  define e where "e = s + n - 1"
  define p where "p = s div 8"
  define q where "q = e div 8"
  define i where "i = s mod 8"
  define j where "j = e mod 8"
  have s: "s = 8 * p + i" "i < 8" by (auto simp: p_def i_def)
  have e: "e = 8 * q + j" "j < 8" by (auto simp: q_def j_def)
  have se: "s \<le> e" "n = e + 1 - s" using True by (auto simp: e_def)
  have eq: "u32_sub (u32 (s + n)) 1 = e" using True assms by (simp add: e_def)
  have unf: "RtlAreBitsClear bm s n \<longleftrightarrow>
     (if p = q then ZeroMask ! i AND FillMask ! (j + 1) AND buf_byte ?b p = 0
      else ZeroMask ! i AND buf_byte ?b p = 0 \<and> WholeBytes ?b 0 (p + 1) q \<and>
        FillMask ! (j + 1) AND buf_byte ?b (p + 1 + (q - (p + 1))) = 0)"
    using True assms eq
    by (simp add: RtlAreBitsClear_def Let_def p_def [symmetric] q_def [symmetric]
        i_def [symmetric] j_def [symmetric])
  show ?thesis
  proof (cases "p = q")
    case eq: True
    then have "i \<le> j" "n = j + 1 - i" using s e se by auto
    then show ?thesis using unf eq True inner_mask [OF \<open>i \<le> j\<close> e(2), of ?b p] s by simp
  next
    case False
    then have pq: "p < q" using s e se by linarith
    then have n: "n = (8 - i) + (8 * (q - (p + 1)) + (j + 1))" using s e se by simp
    have m: "8 * p + i + (8 - i) = 8 * (p + 1)" "8 * (p + 1) + 8 * (q - (p + 1)) = 8 * q" using pq s by auto
    have qq: "p + 1 + (q - (p + 1)) = q" using pq by simp
    have "run (is_clear ?b) s n \<longleftrightarrow> run (is_clear ?b) (8 * p + i) (8 - i) \<and>
        run (is_clear ?b) (8 * (p + 1)) (8 * (q - (p + 1))) \<and> run (is_clear ?b) (8 * q) (j + 1)"
      unfolding n s(1) run_append m ..
    then show ?thesis
      using unf False True head_mask [OF s(2)] tail_mask [OF e(2)] whole_bytes_run [of "p + 1" q ?b] pq
      unfolding qq by simp
  qed
qed

lemma WholeBytes_compl: "WholeBytes b 255 i e = WholeBytes (compl_buf b) 0 i e"
  by (auto simp: WholeBytes_spec NOT_eq_swap)

lemma RtlAreBitsSet_compl: "RtlAreBitsSet bm s n = RtlAreBitsClear (compl_bm bm) s n"
  by (simp add: RtlAreBitsSet_def RtlAreBitsClear_def Let_def WholeBytes_compl)

section \<open>The counting routines\<close>

lemma number_clear:
  assumes "wf_bitmap bm"
  shows "snd (RtlNumberOfClearBits bm) = card {j. j < SizeOfBitMap bm \<and> \<not> bit_at bm j}"
proof -
  let ?b = "Buffer (SetUnusedBits bm)"
  note sz = SizeInBytes_bounds [OF assms]
  have "tail_set ?b (SizeOfBitMap bm) (8 * SizeInBytes bm)"
    by (auto simp: tail_set_def bit_SetUnusedBits [OF assms])
  note tail = clear_count_tail [OF this sz(1)]
  have "snd (RtlNumberOfClearBits bm) = clear_count ?b (8 * SizeInBytes bm)"
    using CountClearLoop_spec [OF sz(3), of 0 ?b] by (simp add: RtlNumberOfClearBits_def Let_def clear_count_def)
  moreover have "{j. j < SizeOfBitMap bm \<and> is_clear ?b j} = {j. j < SizeOfBitMap bm \<and> \<not> bit_at bm j}"
    by (auto simp: bit_SetUnusedBits [OF assms])
  ultimately show ?thesis unfolding tail by (simp only: clear_count_card)
qed

lemma CountSetLoop_compl: "CountSetLoop b hi p n = CountClearLoop (compl_buf b) hi p n"
proof (induction b hi p n rule: CountSetLoop.induct)
  case (1 b hi p n)
  then show ?case by (subst CountSetLoop.simps, subst CountClearLoop.simps) simp
qed

lemma RtlNumberOfSetBits_compl: "snd (RtlNumberOfSetBits bm) = snd (RtlNumberOfClearBits (compl_bm bm))"
  by (simp add: RtlNumberOfSetBits_def RtlNumberOfClearBits_def Let_def ClearUnusedBits_compl CountSetLoop_compl)

section \<open>Properties\<close>

text \<open>
  C27: \<open>RtlNumberOfClearBits\<close> and \<open>RtlNumberOfSetBits\<close> return the number of clear and
  of set bits of the bitmap, and the two add up to its size.
\<close>

theorem RtlNumberOfBits_exact:
  assumes "wf_bitmap bm"
  shows "snd (RtlNumberOfClearBits bm) = card {j. j < SizeOfBitMap bm \<and> \<not> bit_at bm j} \<and>
    snd (RtlNumberOfSetBits bm) = card {j. j < SizeOfBitMap bm \<and> bit_at bm j} \<and>
    snd (RtlNumberOfClearBits bm) + snd (RtlNumberOfSetBits bm) = SizeOfBitMap bm"
proof -
  have c: "snd (RtlNumberOfClearBits bm) = card {j. j < SizeOfBitMap bm \<and> \<not> bit_at bm j}"
    by (rule number_clear [OF assms])
  have s: "snd (RtlNumberOfSetBits bm) = card {j. j < SizeOfBitMap bm \<and> bit_at bm j}"
    using number_clear [of "compl_bm bm"] assms by (simp add: RtlNumberOfSetBits_compl)
  have "{j. j < SizeOfBitMap bm \<and> \<not> bit_at bm j} \<union> {j. j < SizeOfBitMap bm \<and> bit_at bm j} = {..<SizeOfBitMap bm}"
    by auto
  moreover have "card ({j. j < SizeOfBitMap bm \<and> \<not> bit_at bm j} \<union> {j. j < SizeOfBitMap bm \<and> bit_at bm j}) =
      card {j. j < SizeOfBitMap bm \<and> \<not> bit_at bm j} + card {j. j < SizeOfBitMap bm \<and> bit_at bm j}"
    by (rule card_Un_disjoint) auto
  ultimately show ?thesis using c s by simp
qed

theorem RtlNumberOfBits_exact_witness:
  "snd (RtlNumberOfClearBits \<lparr>SizeOfBitMap = 10, Buffer = \<lambda>_. 0xFF1\<rparr>) = 3 \<and>
   snd (RtlNumberOfSetBits \<lparr>SizeOfBitMap = 10, Buffer = \<lambda>_. 0xFF1\<rparr>) = 7"
proof -
  have c: "snd (RtlNumberOfClearBits \<lparr>SizeOfBitMap = 10, Buffer = \<lambda>_. 0xFF1\<rparr>) = 3" by code_simp
  show ?thesis
    using RtlNumberOfBits_exact [of "\<lparr>SizeOfBitMap = 10, Buffer = \<lambda>_. 0xFF1\<rparr>"] c by (simp add: wf_bitmap_def)
qed

text \<open>
  C28: For a range that does not wrap around, \<open>RtlAreBitsClear\<close> is true iff the range is
  not empty, lies inside the bitmap and all its bits are clear, and \<open>RtlAreBitsSet\<close> is the
  same for set bits.
\<close>

theorem RtlAreBits_exact:
  assumes "s + n < 4294967296"
  shows "(RtlAreBitsClear bm s n \<longleftrightarrow> 0 < n \<and> s + n \<le> SizeOfBitMap bm \<and> run (is_clear (Buffer bm)) s n) \<and>
    (RtlAreBitsSet bm s n \<longleftrightarrow> 0 < n \<and> s + n \<le> SizeOfBitMap bm \<and> run (bit_at bm) s n)"
  using RtlAreBitsClear_iff [OF assms, of bm] RtlAreBitsClear_iff [OF assms, of "compl_bm bm"]
  by (simp add: RtlAreBitsSet_compl)

theorem RtlAreBits_exact_witness:
  "RtlAreBitsClear \<lparr>SizeOfBitMap = 64, Buffer = \<lambda>_. 7\<rparr> 3 29 \<and>
   \<not> RtlAreBitsSet \<lparr>SizeOfBitMap = 64, Buffer = \<lambda>_. 7\<rparr> 3 29"
proof -
  have "run (is_clear (\<lambda>_. 7)) 3 29" "\<not> run (buf_bit (\<lambda>_. 7)) 3 29" by code_simp+
  then show ?thesis using RtlAreBits_exact [of 3 29 "\<lparr>SizeOfBitMap = 64, Buffer = \<lambda>_. 7\<rparr>"] by simp
qed


end
