(* ===== verification/Splay_Model.thy ===== *)
theory Splay_Model
  imports Nt_Prelude "HOL-Library.Monad_Syntax"
begin

text \<open>
  The splay links of the NT run-time library (\<open>RTL/SPLAY.C\<close> and the macros of \<open>NTRTL.H\<close>).

  The memory that holds splay links is a function from addresses to records; an assignment
  through a pointer is one update of it, in the order of the C statements.  The address of
  a parent's child pointer is a value of type \<open>child_slot\<close>.  The routines that loop along
  pointers are partial functions: on memory that is not a tree they may not return, which
  is the value \<open>None\<close>.  A routine that changes memory returns it.
\<close>

section \<open>Links and the macros\<close>

record RTL_SPLAY_LINKS =
  Parent :: ptr
  LeftChild :: ptr
  RightChild :: ptr

type_synonym links_heap = "ptr \<Rightarrow> RTL_SPLAY_LINKS"

definition put_Parent :: "links_heap \<Rightarrow> ptr \<Rightarrow> ptr \<Rightarrow> links_heap" where
  "put_Parent h p v = h(p := (h p)\<lparr>Parent := v\<rparr>)"

definition put_LeftChild :: "links_heap \<Rightarrow> ptr \<Rightarrow> ptr \<Rightarrow> links_heap" where
  "put_LeftChild h p v = h(p := (h p)\<lparr>LeftChild := v\<rparr>)"

definition put_RightChild :: "links_heap \<Rightarrow> ptr \<Rightarrow> ptr \<Rightarrow> links_heap" where
  "put_RightChild h p v = h(p := (h p)\<lparr>RightChild := v\<rparr>)"

definition RtlInitializeSplayLinks :: "links_heap \<Rightarrow> ptr \<Rightarrow> links_heap" where
  "RtlInitializeSplayLinks h Links =
     put_RightChild (put_LeftChild (put_Parent h Links Links) Links NULL) Links NULL"

definition RtlIsRoot :: "links_heap \<Rightarrow> ptr \<Rightarrow> bool" where
  "RtlIsRoot h Links \<longleftrightarrow> Parent (h Links) = Links"

definition RtlIsLeftChild :: "links_heap \<Rightarrow> ptr \<Rightarrow> bool" where
  "RtlIsLeftChild h Links \<longleftrightarrow> LeftChild (h (Parent (h Links))) = Links"

definition RtlIsRightChild :: "links_heap \<Rightarrow> ptr \<Rightarrow> bool" where
  "RtlIsRightChild h Links \<longleftrightarrow> RightChild (h (Parent (h Links))) = Links"

definition RtlInsertAsLeftChild :: "links_heap \<Rightarrow> ptr \<Rightarrow> ptr \<Rightarrow> links_heap" where
  "RtlInsertAsLeftChild h ParentLinks ChildLinks =
     put_Parent (put_LeftChild h ParentLinks ChildLinks) ChildLinks ParentLinks"

definition RtlInsertAsRightChild :: "links_heap \<Rightarrow> ptr \<Rightarrow> ptr \<Rightarrow> links_heap" where
  "RtlInsertAsRightChild h ParentLinks ChildLinks =
     put_Parent (put_RightChild h ParentLinks ChildLinks) ChildLinks ParentLinks"

datatype child_slot = LeftSlot ptr | RightSlot ptr

definition ParentsChildPointerAddress :: "links_heap \<Rightarrow> ptr \<Rightarrow> child_slot" where
  "ParentsChildPointerAddress h Links =
     (if RtlIsLeftChild h Links then LeftSlot (Parent (h Links)) else RightSlot (Parent (h Links)))"

fun get_slot :: "links_heap \<Rightarrow> child_slot \<Rightarrow> ptr" where
  "get_slot h (LeftSlot p) = LeftChild (h p)"
| "get_slot h (RightSlot p) = RightChild (h p)"

fun put_slot :: "links_heap \<Rightarrow> child_slot \<Rightarrow> ptr \<Rightarrow> links_heap" where
  "put_slot h (LeftSlot p) v = put_LeftChild h p v"
| "put_slot h (RightSlot p) v = put_RightChild h p v"

text \<open>The statement \<open>if (c != NULL) {c->Parent = p;}\<close>, which follows each change of a child.\<close>

definition FixParent :: "links_heap \<Rightarrow> ptr \<Rightarrow> ptr \<Rightarrow> links_heap" where
  "FixParent h c p = (if c \<noteq> NULL then put_Parent h c p else h)"

definition ConnectLeft :: "links_heap \<Rightarrow> ptr \<Rightarrow> ptr \<Rightarrow> links_heap" where
  "ConnectLeft h p c = FixParent (put_LeftChild h p c) c p"

definition ConnectRight :: "links_heap \<Rightarrow> ptr \<Rightarrow> ptr \<Rightarrow> links_heap" where
  "ConnectRight h p c = FixParent (put_RightChild h p c) c p"

section \<open>RtlSplay\<close>

text \<open>The connection of \<open>L\<close> and the great grandparent, the same in four cases.\<close>

definition LinkGreatGrandParent :: "links_heap \<Rightarrow> ptr \<Rightarrow> ptr \<Rightarrow> links_heap" where
  "LinkGreatGrandParent h L G =
     (if RtlIsRoot h G then put_Parent h L L
      else let h = put_Parent h L (Parent (h G))
           in put_slot h (ParentsChildPointerAddress h G) L)"

definition SplayLeftRoot :: "links_heap \<Rightarrow> ptr \<Rightarrow> ptr \<Rightarrow> links_heap" where
  "SplayLeftRoot h L P =
     (let h = ConnectLeft h P (RightChild (h L));
          h = put_RightChild h L P;
          h = put_Parent h P L
      in put_Parent h L L)"

definition SplayLeftLeft :: "links_heap \<Rightarrow> ptr \<Rightarrow> ptr \<Rightarrow> ptr \<Rightarrow> links_heap" where
  "SplayLeftLeft h L P G =
     (let h = ConnectLeft h P (RightChild (h L));
          h = ConnectLeft h G (RightChild (h P));
          h = LinkGreatGrandParent h L G;
          h = put_RightChild h L P;
          h = put_Parent h P L;
          h = put_RightChild h P G
      in put_Parent h G P)"

definition SplayLeftRight :: "links_heap \<Rightarrow> ptr \<Rightarrow> ptr \<Rightarrow> ptr \<Rightarrow> links_heap" where
  "SplayLeftRight h L P G =
     (let h = ConnectRight h G (LeftChild (h L));
          h = ConnectLeft h P (RightChild (h L));
          h = LinkGreatGrandParent h L G;
          h = put_LeftChild h L G;
          h = put_Parent h G L;
          h = put_RightChild h L P
      in put_Parent h P L)"

definition SplayRightRoot :: "links_heap \<Rightarrow> ptr \<Rightarrow> ptr \<Rightarrow> links_heap" where
  "SplayRightRoot h L P =
     (let h = ConnectRight h P (LeftChild (h L));
          h = put_LeftChild h L P;
          h = put_Parent h P L
      in put_Parent h L L)"

definition SplayRightRight :: "links_heap \<Rightarrow> ptr \<Rightarrow> ptr \<Rightarrow> ptr \<Rightarrow> links_heap" where
  "SplayRightRight h L P G =
     (let h = ConnectRight h G (LeftChild (h P));
          h = ConnectRight h P (LeftChild (h L));
          h = LinkGreatGrandParent h L G;
          h = put_LeftChild h L P;
          h = put_Parent h P L;
          h = put_LeftChild h P G
      in put_Parent h G P)"

definition SplayRightLeft :: "links_heap \<Rightarrow> ptr \<Rightarrow> ptr \<Rightarrow> ptr \<Rightarrow> links_heap" where
  "SplayRightLeft h L P G =
     (let h = ConnectRight h P (LeftChild (h L));
          h = ConnectLeft h G (RightChild (h L));
          h = LinkGreatGrandParent h L G;
          h = put_LeftChild h L P;
          h = put_Parent h P L;
          h = put_RightChild h L G
      in put_Parent h G L)"

definition SplayStep :: "links_heap \<Rightarrow> ptr \<Rightarrow> links_heap" where
  "SplayStep h L =
     (let P = Parent (h L);
          G = Parent (h P)
      in if RtlIsLeftChild h L
         then if RtlIsRoot h P then SplayLeftRoot h L P
              else if RtlIsLeftChild h P then SplayLeftLeft h L P G
              else SplayLeftRight h L P G
         else if RtlIsRoot h P then SplayRightRoot h L P
              else if RtlIsRightChild h P then SplayRightRight h L P G
              else SplayRightLeft h L P G)"

partial_function (option) RtlSplay :: "links_heap \<Rightarrow> ptr \<Rightarrow> (links_heap \<times> ptr) option" where
  "RtlSplay h L = (if \<not> RtlIsRoot h L then RtlSplay (SplayStep h L) L else Some (h, L))"

section \<open>Successors and predecessors\<close>

partial_function (option) Leftmost :: "links_heap \<Rightarrow> ptr \<Rightarrow> ptr option" where
  "Leftmost h Ptr = (if LeftChild (h Ptr) \<noteq> NULL then Leftmost h (LeftChild (h Ptr)) else Some Ptr)"

partial_function (option) Rightmost :: "links_heap \<Rightarrow> ptr \<Rightarrow> ptr option" where
  "Rightmost h Ptr = (if RightChild (h Ptr) \<noteq> NULL then Rightmost h (RightChild (h Ptr)) else Some Ptr)"

definition RtlSubtreeSuccessor :: "links_heap \<Rightarrow> ptr \<Rightarrow> ptr option" where
  "RtlSubtreeSuccessor h Links =
     (if RightChild (h Links) \<noteq> NULL then Leftmost h (RightChild (h Links)) else Some NULL)"

definition RtlSubtreePredecessor :: "links_heap \<Rightarrow> ptr \<Rightarrow> ptr option" where
  "RtlSubtreePredecessor h Links =
     (if LeftChild (h Links) \<noteq> NULL then Rightmost h (LeftChild (h Links)) else Some NULL)"

partial_function (option) ClimbRight :: "links_heap \<Rightarrow> ptr \<Rightarrow> ptr option" where
  "ClimbRight h Ptr = (if RtlIsRightChild h Ptr then ClimbRight h (Parent (h Ptr)) else Some Ptr)"

partial_function (option) ClimbLeft :: "links_heap \<Rightarrow> ptr \<Rightarrow> ptr option" where
  "ClimbLeft h Ptr = (if RtlIsLeftChild h Ptr then ClimbLeft h (Parent (h Ptr)) else Some Ptr)"

definition RtlRealSuccessor :: "links_heap \<Rightarrow> ptr \<Rightarrow> ptr option" where
  "RtlRealSuccessor h Links =
     (if RightChild (h Links) \<noteq> NULL then Leftmost h (RightChild (h Links))
      else do {
        Ptr \<leftarrow> ClimbRight h Links;
        Some (if RtlIsLeftChild h Ptr then Parent (h Ptr) else NULL)
      })"

definition RtlRealPredecessor :: "links_heap \<Rightarrow> ptr \<Rightarrow> ptr option" where
  "RtlRealPredecessor h Links =
     (if LeftChild (h Links) \<noteq> NULL then Rightmost h (LeftChild (h Links))
      else do {
        Ptr \<leftarrow> ClimbLeft h Links;
        Some (if RtlIsRightChild h Ptr then Parent (h Ptr) else NULL)
      })"

section \<open>RtlDelete\<close>

text \<open>\<open>SwapPointers\<close> on two child pointers and on the fields of two links.\<close>

definition SwapSlots :: "links_heap \<Rightarrow> child_slot \<Rightarrow> child_slot \<Rightarrow> links_heap" where
  "SwapSlots h s1 s2 =
     (let temp = get_slot h s1;
          h = put_slot h s1 (get_slot h s2)
      in put_slot h s2 temp)"

definition SwapParents :: "links_heap \<Rightarrow> ptr \<Rightarrow> ptr \<Rightarrow> links_heap" where
  "SwapParents h p q =
     (let temp = Parent (h p);
          h = put_Parent h p (Parent (h q))
      in put_Parent h q temp)"

definition SwapChildren :: "links_heap \<Rightarrow> ptr \<Rightarrow> ptr \<Rightarrow> links_heap" where
  "SwapChildren h Link1 Link2 =
     SwapSlots (SwapSlots h (LeftSlot Link1) (LeftSlot Link2)) (RightSlot Link1) (RightSlot Link2)"

definition SwapDistant :: "links_heap \<Rightarrow> ptr \<Rightarrow> ptr \<Rightarrow> links_heap" where
  \<comment> \<open>cases 1 and 2: \<open>Link1\<close> is not a child of \<open>Link2\<close>\<close>
  "SwapDistant h Link1 Link2 =
     (let h = (if \<not> RtlIsRoot h Link2
               then SwapParents
                      (SwapSlots h (ParentsChildPointerAddress h Link1) (ParentsChildPointerAddress h Link2))
                      Link1 Link2
               else let h = put_slot h (ParentsChildPointerAddress h Link1) Link2;
                        h = put_Parent h Link2 (Parent (h Link1))
                    in put_Parent h Link1 Link1)
      in SwapChildren h Link1 Link2)"

definition SwapAdjacent :: "links_heap \<Rightarrow> ptr \<Rightarrow> ptr \<Rightarrow> links_heap" where
  \<comment> \<open>cases 3 and 4: \<open>Link1\<close> is a child of \<open>Link2\<close>\<close>
  "SwapAdjacent h Link1 Link2 =
     (let h = (if \<not> RtlIsRoot h Link2
               then let h = put_slot h (ParentsChildPointerAddress h Link2) Link1
                    in put_Parent h Link1 (Parent (h Link2))
               else put_Parent h Link1 Link1);
          h = SwapChildren h Link1 Link2
      in if LeftChild (h Link1) = Link1 then put_LeftChild h Link1 Link2
         else put_RightChild h Link1 Link2)"

definition SwapSplayLinks :: "links_heap \<Rightarrow> ptr \<Rightarrow> ptr \<Rightarrow> links_heap" where
  "SwapSplayLinks h A B =
     (let (Link1, Link2) = (if RtlIsRoot h A \<or> Parent (h B) = A then (B, A) else (A, B));
          h = (if Parent (h Link1) \<noteq> Link2 then SwapDistant h Link1 Link2 else SwapAdjacent h Link1 Link2);
          h = FixParent h (LeftChild (h Link1)) Link1;
          h = FixParent h (RightChild (h Link1)) Link1;
          h = FixParent h (LeftChild (h Link2)) Link2
      in FixParent h (RightChild (h Link2)) Link2)"

definition DeleteTwoChildren :: "links_heap \<Rightarrow> ptr \<Rightarrow> links_heap option" where
  \<comment> \<open>the first step of \<open>RtlDelete\<close>\<close>
  "DeleteTwoChildren h Links =
     (if LeftChild (h Links) \<noteq> NULL \<and> RightChild (h Links) \<noteq> NULL
      then do {
        Predecessor \<leftarrow> RtlSubtreePredecessor h Links;
        Some (SwapSplayLinks h Predecessor Links)
      }
      else Some h)"

definition DeleteAtMostOneChild :: "links_heap \<Rightarrow> ptr \<Rightarrow> (links_heap \<times> ptr) option" where
  \<comment> \<open>the rest of \<open>RtlDelete\<close>\<close>
  "DeleteAtMostOneChild h Links =
     (if LeftChild (h Links) = NULL \<and> RightChild (h Links) = NULL
      then if RtlIsRoot h Links then Some (h, NULL)
           else RtlSplay (put_slot h (ParentsChildPointerAddress h Links) NULL) (Parent (h Links))
      else
        let Child = (if LeftChild (h Links) \<noteq> NULL then LeftChild (h Links) else RightChild (h Links))
        in if RtlIsRoot h Links then Some (put_Parent h Child Child, Child)
           else let h = put_slot h (ParentsChildPointerAddress h Links) Child;
                    h = put_Parent h Child (Parent (h Links))
                in RtlSplay h (Parent (h Child)))"

definition RtlDelete :: "links_heap \<Rightarrow> ptr \<Rightarrow> (links_heap \<times> ptr) option" where
  "RtlDelete h Links = do {
     h \<leftarrow> DeleteTwoChildren h Links;
     DeleteAtMostOneChild h Links
   }"

end
