(* ===== verification/List_Entry.thy ===== *)
theory List_Entry
  imports Nt_Prelude
begin

text \<open>
  The list macros of \<open>NTRTL.H\<close>: doubly linked rings of \<open>LIST_ENTRY\<close> with a list head, and
  singly linked stacks of \<open>SINGLE_LIST_ENTRY\<close>.  \<open>is_list h head xs\<close> says that memory \<open>h\<close>
  holds the ring of \<open>head\<close> with the entries \<open>xs\<close>.
\<close>

section \<open>The macros\<close>

record LIST_ENTRY =
  Flink :: ptr
  Blink :: ptr

type_synonym list_heap = "ptr \<Rightarrow> LIST_ENTRY"

definition put_Flink :: "list_heap \<Rightarrow> ptr \<Rightarrow> ptr \<Rightarrow> list_heap" where
  "put_Flink h p v = h(p := (h p)\<lparr>Flink := v\<rparr>)"

definition put_Blink :: "list_heap \<Rightarrow> ptr \<Rightarrow> ptr \<Rightarrow> list_heap" where
  "put_Blink h p v = h(p := (h p)\<lparr>Blink := v\<rparr>)"

definition InitializeListHead :: "list_heap \<Rightarrow> ptr \<Rightarrow> list_heap" where
  "InitializeListHead h ListHead = put_Flink (put_Blink h ListHead ListHead) ListHead ListHead"

definition IsListEmpty :: "list_heap \<Rightarrow> ptr \<Rightarrow> bool" where
  "IsListEmpty h ListHead \<longleftrightarrow> Flink (h ListHead) = ListHead"

definition RemoveEntryList :: "list_heap \<Rightarrow> ptr \<Rightarrow> list_heap" where
  "RemoveEntryList h Entry =
     (let EX_Flink = Flink (h Entry);
          EX_Blink = Blink (h Entry);
          h = put_Flink h EX_Blink EX_Flink
      in put_Blink h EX_Flink EX_Blink)"

definition RemoveHeadList :: "list_heap \<Rightarrow> ptr \<Rightarrow> list_heap \<times> ptr" where
  "RemoveHeadList h ListHead = (RemoveEntryList h (Flink (h ListHead)), Flink (h ListHead))"

definition RemoveTailList :: "list_heap \<Rightarrow> ptr \<Rightarrow> list_heap \<times> ptr" where
  "RemoveTailList h ListHead = (RemoveEntryList h (Blink (h ListHead)), Blink (h ListHead))"

definition InsertTailList :: "list_heap \<Rightarrow> ptr \<Rightarrow> ptr \<Rightarrow> list_heap" where
  "InsertTailList h ListHead Entry =
     (let EX_Blink = Blink (h ListHead);
          h = put_Flink h Entry ListHead;
          h = put_Blink h Entry EX_Blink;
          h = put_Flink h EX_Blink Entry
      in put_Blink h ListHead Entry)"

definition InsertHeadList :: "list_heap \<Rightarrow> ptr \<Rightarrow> ptr \<Rightarrow> list_heap" where
  "InsertHeadList h ListHead Entry =
     (let EX_Flink = Flink (h ListHead);
          h = put_Flink h Entry EX_Flink;
          h = put_Blink h Entry ListHead;
          h = put_Blink h EX_Flink Entry
      in put_Flink h ListHead Entry)"

text \<open>A \<open>SINGLE_LIST_ENTRY\<close> holds nothing but its \<open>Next\<close> pointer.\<close>

type_synonym single_heap = "ptr \<Rightarrow> ptr"

definition PopEntryList :: "single_heap \<Rightarrow> ptr \<Rightarrow> single_heap \<times> ptr" where
  "PopEntryList h ListHead =
     (let FirstEntry = h ListHead
      in (if FirstEntry \<noteq> NULL then h(ListHead := h FirstEntry) else h, FirstEntry))"

definition PushEntryList :: "single_heap \<Rightarrow> ptr \<Rightarrow> ptr \<Rightarrow> single_heap" where
  "PushEntryList h ListHead Entry =
     (let h = h(Entry := h ListHead)
      in h(ListHead := Entry))"

section \<open>Rings\<close>

named_theorems entry_simps \<open>fields of list entries after an assignment\<close>

lemma put_link_fields [entry_simps]:
  "Flink (put_Flink h p v x) = (if x = p then v else Flink (h x))"
  "Blink (put_Flink h p v x) = Blink (h x)"
  "Flink (put_Blink h p v x) = Flink (h x)"
  "Blink (put_Blink h p v x) = (if x = p then v else Blink (h x))"
  by (simp_all add: put_Flink_def put_Blink_def)

lemma put_link_other [entry_simps]:
  "x \<noteq> p \<Longrightarrow> put_Flink h p v x = h x"
  "x \<noteq> p \<Longrightarrow> put_Blink h p v x = h x"
  by (simp_all add: put_Flink_def put_Blink_def)

fun chain :: "list_heap \<Rightarrow> ptr \<Rightarrow> ptr list \<Rightarrow> ptr \<Rightarrow> bool" where
  \<comment> \<open>from \<open>a\<close> the forward links lead through \<open>xs\<close> to \<open>b\<close>, and the backward links back\<close>
  "chain h a [] b \<longleftrightarrow> Flink (h a) = b \<and> Blink (h b) = a"
| "chain h a (x # xs) b \<longleftrightarrow> Flink (h a) = x \<and> Blink (h x) = a \<and> chain h x xs b"

definition is_list :: "list_heap \<Rightarrow> ptr \<Rightarrow> ptr list \<Rightarrow> bool" where
  "is_list h head xs \<longleftrightarrow> distinct (head # xs) \<and> chain h head xs head"

lemma chain_append: "chain h a (xs @ y # ys) b \<longleftrightarrow> chain h a xs y \<and> chain h y ys b"
  by (induction xs arbitrary: a) auto

lemma chain_frame:
  "chain h a xs b \<Longrightarrow> Flink (h' a) = Flink (h a) \<Longrightarrow> Blink (h' b) = Blink (h b) \<Longrightarrow>
     (\<And>x. x \<in> set xs \<Longrightarrow> h' x = h x) \<Longrightarrow> chain h' a xs b"
  by (induction xs arbitrary: a) auto

lemma chain_last: "chain h a xs b \<Longrightarrow> Blink (h b) = last (a # xs)"
  by (induction xs arbitrary: a) auto

lemma chain_first: "chain h a xs b \<Longrightarrow> Flink (h a) = hd (xs @ [b])"
  by (cases xs) auto

lemma chain_redirect_end:
  \<comment> \<open>redirecting the last forward link to \<open>e\<close> gives a chain that ends in \<open>e\<close>\<close>
  assumes "chain h a xs b" "distinct (a # xs)"
    and "Flink (h' (last (a # xs))) = e" "Blink (h' e) = last (a # xs)"
    and "\<And>x. x \<in> set (a # xs) \<Longrightarrow> x \<noteq> last (a # xs) \<Longrightarrow> Flink (h' x) = Flink (h x)"
    and "\<And>x. x \<in> set xs \<Longrightarrow> Blink (h' x) = Blink (h x)"
  shows "chain h' a xs e"
  using assms
proof (induction xs arbitrary: a)
  case (Cons x xs)
  have "chain h' x xs e" by (rule Cons.IH) (use Cons.prems in auto)
  moreover have "a \<noteq> last (x # xs)" using Cons.prems(2) last_in_set [of "x # xs"] by auto
  then have "Flink (h' a) = x" using Cons.prems(1) Cons.prems(5) [of a] by auto
  ultimately show ?case using Cons.prems by auto
qed auto

section \<open>The macros on rings\<close>

lemma InitializeListHead_is_list: "is_list (InitializeListHead h H) H []"
  by (simp add: is_list_def InitializeListHead_def entry_simps)

lemma IsListEmpty_iff: "is_list h H xs \<Longrightarrow> IsListEmpty h H \<longleftrightarrow> xs = []"
  by (cases xs) (auto simp: is_list_def IsListEmpty_def)

lemma InsertTailList_is_list:
  assumes "is_list h H xs" "e \<noteq> H" "e \<notin> set xs"
  shows "is_list (InsertTailList h H e) H (xs @ [e])"
    and "y \<notin> set (e # H # xs) \<Longrightarrow> InsertTailList h H e y = h y"
proof -
  let ?h = "InsertTailList h H e" and ?b = "last (H # xs)"
  have c: "chain h H xs H" and d: "distinct (H # xs)" using assms(1) by (auto simp: is_list_def)
  have b: "Blink (h H) = ?b" by (rule chain_last [OF c])
  have "?b \<in> set (H # xs)" by (rule last_in_set) simp
  then have be: "?b \<noteq> e" using assms by auto
  have f: "Flink (?h x) = (if x = ?b then e else if x = e then H else Flink (h x))"
    "Blink (?h x) = (if x = H then e else if x = e then ?b else Blink (h x))" for x
    using assms(2) by (simp_all add: InsertTailList_def Let_def entry_simps b del: last.simps)
  have "chain ?h H xs e"
    by (rule chain_redirect_end [OF c d]) (use assms be d in \<open>auto simp: f simp del: last.simps\<close>)
  moreover have "chain ?h e [] H" using be by (simp add: f del: last.simps)
  ultimately show "is_list ?h H (xs @ [e])"
    using d assms by (auto simp: is_list_def chain_append [of _ _ xs e "[]"] simp del: chain.simps)
  show "y \<notin> set (e # H # xs) \<Longrightarrow> ?h y = h y"
  proof -
    assume y: "y \<notin> set (e # H # xs)"
    then have "y \<noteq> ?b" using \<open>?b \<in> set (H # xs)\<close> by (metis list.set_intros(2))
    then show ?thesis using y by (simp add: InsertTailList_def Let_def entry_simps b del: last.simps)
  qed
qed

lemma InsertHeadList_is_list:
  assumes "is_list h H xs" "e \<noteq> H" "e \<notin> set xs"
  shows "is_list (InsertHeadList h H e) H (e # xs)"
    and "y \<notin> set (e # H # xs) \<Longrightarrow> InsertHeadList h H e y = h y"
proof -
  let ?h = "InsertHeadList h H e" and ?f = "hd (xs @ [H])"
  have c: "chain h H xs H" and d: "distinct (H # xs)" using assms(1) by (auto simp: is_list_def)
  have f: "Flink (h H) = ?f" by (rule chain_first [OF c])
  have fin: "?f \<in> set (H # xs)" by (cases xs) auto
  have v: "Flink (?h x) = (if x = H then e else if x = e then ?f else Flink (h x))"
    "Blink (?h x) = (if x = ?f then e else if x = e then H else Blink (h x))" for x
    using assms(2) fin by (simp_all add: InsertHeadList_def Let_def entry_simps f)
  have o: "y \<notin> {e, H, ?f} \<Longrightarrow> ?h y = h y" for y
    by (simp add: InsertHeadList_def Let_def entry_simps f)
  have "chain ?h e xs H"
  proof (cases xs)
    case (Cons x ys)
    have "chain ?h x ys H"
      by (rule chain_frame [of h]) (use c d assms Cons in \<open>auto simp: v intro!: o\<close>)
    then show ?thesis using Cons assms by (auto simp: v)
  qed (use assms in \<open>auto simp: v\<close>)
  then show "is_list ?h H (e # xs)" using d assms fin by (auto simp: is_list_def v)
  show "y \<notin> set (e # H # xs) \<Longrightarrow> ?h y = h y" using o [of y] fin by auto
qed

lemma RemoveEntryList_is_list:
  assumes "is_list h H (xs @ e # ys)"
  shows "is_list (RemoveEntryList h e) H (xs @ ys)"
    and "y \<notin> set (H # xs @ ys) \<Longrightarrow> RemoveEntryList h e y = h y"
proof -
  let ?h = "RemoveEntryList h e" and ?b = "last (H # xs)" and ?f = "hd (ys @ [H])"
  have c: "chain h H xs e" "chain h e ys H" and d: "distinct (H # xs @ e # ys)"
    using assms by (auto simp: is_list_def chain_append)
  have b: "Blink (h e) = ?b" and f: "Flink (h e) = ?f"
    using chain_last [OF c(1)] chain_first [OF c(2)] by auto
  have bin: "?b \<in> set (H # xs)" and fin: "?f \<in> set (H # ys)"
    using last_in_set [of "H # xs"] by (simp, cases ys, auto)
  have v: "Flink (?h x) = (if x = ?b then ?f else Flink (h x))"
    "Blink (?h x) = (if x = ?f then ?b else Blink (h x))" for x
    by (simp_all add: RemoveEntryList_def Let_def entry_simps b f del: last.simps)
  have o: "y \<notin> {?b, ?f} \<Longrightarrow> ?h y = h y" for y
    by (simp add: RemoveEntryList_def Let_def entry_simps b f del: last.simps)
  have r: "chain ?h H xs ?f"
    by (rule chain_redirect_end [OF c(1)]) (use d fin in \<open>auto simp: v simp del: last.simps\<close>)
  have "chain ?h H (xs @ ys) H"
  proof (cases ys)
    case (Cons y zs)
    have "chain ?h y zs H"
      by (rule chain_frame [of h]) (use c d bin Cons in \<open>auto simp: v simp del: last.simps intro!: o\<close>)
    then show ?thesis using r Cons by (simp add: chain_append)
  qed (use r in simp)
  then show "is_list ?h H (xs @ ys)" using d by (auto simp: is_list_def)
  show "y \<notin> set (H # xs @ ys) \<Longrightarrow> ?h y = h y" using o [of y] bin fin by auto
qed

lemma is_list_ends:
  "is_list h H (x # xs) \<Longrightarrow> Flink (h H) = x"
  "is_list h H (xs @ [x]) \<Longrightarrow> Blink (h H) = x"
  using chain_last [of h H "xs @ [x]" H] by (auto simp: is_list_def)

lemma RemoveHeadList_is_list:
  assumes "is_list h H (x # xs)" "RemoveHeadList h H = (h', e)"
  shows "e = x" "is_list h' H xs" "y \<notin> set (H # xs) \<Longrightarrow> h' y = h y"
  using assms RemoveEntryList_is_list(1) [of h H "[]" x xs] RemoveEntryList_is_list(2) [of h H "[]" x xs y] is_list_ends(1) [OF assms(1)]
  by (auto simp: RemoveHeadList_def)

lemma RemoveTailList_is_list:
  assumes "is_list h H (xs @ [x])" "RemoveTailList h H = (h', e)"
  shows "e = x" "is_list h' H xs" "y \<notin> set (H # xs) \<Longrightarrow> h' y = h y"
  using assms RemoveEntryList_is_list(1) [of h H xs x "[]"] RemoveEntryList_is_list(2) [of h H xs x "[]" y] is_list_ends(2) [OF assms(1)]
  by (auto simp: RemoveTailList_def)

lemma is_list_frame: "is_list h H xs \<Longrightarrow> (\<And>x. x \<in> set (H # xs) \<Longrightarrow> h' x = h x) \<Longrightarrow> is_list h' H xs"
  by (auto simp: is_list_def intro: chain_frame)

section \<open>Stacks\<close>

fun is_stack :: "single_heap \<Rightarrow> ptr \<Rightarrow> ptr list \<Rightarrow> bool" where
  "is_stack h a [] \<longleftrightarrow> h a = NULL"
| "is_stack h a (x # xs) \<longleftrightarrow> h a = x \<and> x \<noteq> NULL \<and> is_stack h x xs"

lemma is_stack_frame: "is_stack h a xs \<Longrightarrow> (\<And>x. x \<in> set (a # xs) \<Longrightarrow> h' x = h x) \<Longrightarrow> is_stack h' a xs"
  by (induction xs arbitrary: a) auto

lemma PushEntryList_is_stack:
  assumes "is_stack h H xs" "e \<noteq> NULL" "e \<notin> set (H # xs)" "H \<notin> set xs"
  shows "is_stack (PushEntryList h H e) H (e # xs)"
proof (cases xs)
  case (Cons x ys)
  have "is_stack (PushEntryList h H e) x ys"
    by (rule is_stack_frame [of h]) (use assms Cons in \<open>auto simp: PushEntryList_def\<close>)
  then show ?thesis using assms Cons by (auto simp: PushEntryList_def)
qed (use assms in \<open>auto simp: PushEntryList_def\<close>)

lemma PopEntryList_is_stack:
  assumes "is_stack h H (x # xs)" "H \<notin> set (x # xs)" "distinct (x # xs)"
  shows "snd (PopEntryList h H) = x" "is_stack (fst (PopEntryList h H)) H xs"
proof -
  show "snd (PopEntryList h H) = x" using assms by (simp add: PopEntryList_def Let_def)
  show "is_stack (fst (PopEntryList h H)) H xs"
  proof (cases xs)
    case (Cons y ys)
    have "is_stack (fst (PopEntryList h H)) y ys"
      by (rule is_stack_frame [of h]) (use assms Cons in \<open>auto simp: PopEntryList_def Let_def\<close>)
    then show ?thesis using assms Cons by (auto simp: PopEntryList_def Let_def)
  qed (use assms in \<open>auto simp: PopEntryList_def Let_def\<close>)
qed

section \<open>Properties\<close>



end
