(* ===== verification/Table_Model.thy ===== *)
theory Table_Model
  imports Splay_Model List_Entry
begin

text \<open>
  The generic table package (\<open>RTL/GENTABLE.C\<close>): a splay tree for the keys and a list for
  the insertion order, over nodes laid out as splay links, list entry and user data.

  The compare, allocate and free routines are supplied by the user of the package; they
  are fields of the table, as in the code.  The contents of a user buffer is a value of a
  type \<open>'e\<close>, and the state of the user's allocator a value of a type \<open>'a\<close>.
\<close>

section \<open>Types\<close>

datatype SEARCH_RESULT = EmptyTree | FoundNode | InsertAsLeft | InsertAsRight

datatype RTL_GENERIC_COMPARE_RESULTS = GenericLessThan | GenericGreaterThan | GenericEqual

record ('e, 'a) table_mem =
  Links :: links_heap
  Entries :: list_heap
  Elements :: "ptr \<Rightarrow> 'e"
  Pool :: 'a

record ('e, 'a) RTL_GENERIC_TABLE =
  TableRoot :: ptr
  InsertOrderList :: ptr \<comment> \<open>the address of the list head inside the table\<close>
  OrderedPointer :: ptr
  WhichOrderedElement :: nat
  NumberGenericTableElements :: nat
  CompareRoutine :: "'e \<Rightarrow> 'e \<Rightarrow> RTL_GENERIC_COMPARE_RESULTS"
  AllocateRoutine :: "'a \<Rightarrow> nat \<Rightarrow> 'a \<times> ptr"
  FreeRoutine :: "'a \<Rightarrow> ptr \<Rightarrow> 'a"
  TableContext :: ptr

definition node_entry :: "ptr \<Rightarrow> ptr" where
  \<comment> \<open>\<open>(PLIST_ENTRY)(Node+1)\<close>\<close>
  "node_entry Node = Node + 12"

definition entry_data :: "ptr \<Rightarrow> ptr" where
  \<comment> \<open>\<open>Entry+1\<close>\<close>
  "entry_data Entry = Entry + 8"

abbreviation node_data :: "ptr \<Rightarrow> ptr" where
  "node_data n \<equiv> entry_data (node_entry n)"

section \<open>Searching\<close>

definition RtlIsGenericTableEmpty :: "('e, 'a) RTL_GENERIC_TABLE \<Rightarrow> bool" where
  "RtlIsGenericTableEmpty Table \<longleftrightarrow> TableRoot Table = NULL"

partial_function (option) FindLoop ::
  "('e \<Rightarrow> RTL_GENERIC_COMPARE_RESULTS) \<Rightarrow> links_heap \<Rightarrow> (ptr \<Rightarrow> 'e) \<Rightarrow> ptr \<Rightarrow> (SEARCH_RESULT \<times> ptr) option" where
  \<comment> \<open>the first argument compares the buffer with an element\<close>
  "FindLoop cmp h el NodeToExamine =
     (case cmp (el (node_data NodeToExamine)) of
        GenericLessThan \<Rightarrow>
          if LeftChild (h NodeToExamine) \<noteq> NULL then FindLoop cmp h el (LeftChild (h NodeToExamine))
          else Some (InsertAsLeft, NodeToExamine)
      | GenericGreaterThan \<Rightarrow>
          if RightChild (h NodeToExamine) \<noteq> NULL then FindLoop cmp h el (RightChild (h NodeToExamine))
          else Some (InsertAsRight, NodeToExamine)
      | GenericEqual \<Rightarrow> Some (FoundNode, NodeToExamine))"

definition FindNodeOrParent ::
  "('e, 'a) RTL_GENERIC_TABLE \<Rightarrow> ('e, 'a) table_mem \<Rightarrow> 'e \<Rightarrow> (SEARCH_RESULT \<times> ptr) option" where
  \<comment> \<open>in an empty table \<open>NodeOrParent\<close> is left unset, shown as null here, and never read\<close>
  "FindNodeOrParent Table m Buffer =
     (if RtlIsGenericTableEmpty Table then Some (EmptyTree, NULL)
      else FindLoop (CompareRoutine Table Buffer) (Links m) (Elements m) (TableRoot Table))"

section \<open>Operations\<close>

definition RtlInitializeGenericTable ::
  "list_heap \<Rightarrow> ptr \<Rightarrow> ('e \<Rightarrow> 'e \<Rightarrow> RTL_GENERIC_COMPARE_RESULTS) \<Rightarrow> ('a \<Rightarrow> nat \<Rightarrow> 'a \<times> ptr) \<Rightarrow>
     ('a \<Rightarrow> ptr \<Rightarrow> 'a) \<Rightarrow> ptr \<Rightarrow> list_heap \<times> ('e, 'a) RTL_GENERIC_TABLE" where
  \<comment> \<open>\<open>Head\<close> is the address of the field \<open>InsertOrderList\<close> of the table\<close>
  "RtlInitializeGenericTable h Head Compare Allocate Free Context =
     (InitializeListHead h Head,
      \<lparr>TableRoot = NULL, InsertOrderList = Head, OrderedPointer = Head, WhichOrderedElement = 0,
       NumberGenericTableElements = 0, CompareRoutine = Compare, AllocateRoutine = Allocate,
       FreeRoutine = Free, TableContext = Context\<rparr>)"

definition LinkNewNode ::
  "links_heap \<Rightarrow> SEARCH_RESULT \<Rightarrow> ptr \<Rightarrow> ptr \<Rightarrow> links_heap" where
  \<comment> \<open>the new node becomes a child of the parent found, if there is one\<close>
  "LinkNewNode h Lookup NodeOrParent Node =
     (case Lookup of
        EmptyTree \<Rightarrow> h
      | InsertAsLeft \<Rightarrow> RtlInsertAsLeftChild h NodeOrParent Node
      | _ \<Rightarrow> RtlInsertAsRightChild h NodeOrParent Node)"

definition AddNode ::
  "('e, 'a) RTL_GENERIC_TABLE \<Rightarrow> ('e, 'a) table_mem \<Rightarrow> SEARCH_RESULT \<Rightarrow> ptr \<Rightarrow> ptr \<Rightarrow> 'e \<Rightarrow>
     ('e, 'a) RTL_GENERIC_TABLE \<times> ('e, 'a) table_mem" where
  \<comment> \<open>what \<open>RtlInsertElementGenericTable\<close> does with a block it got from the allocator\<close>
  "AddNode Table m Lookup NodeOrParent Node Buffer =
     (let m = m\<lparr>Links := RtlInitializeSplayLinks (Links m) Node\<rparr>;
          m = m\<lparr>Entries := InitializeListHead (Entries m) (node_entry Node)\<rparr>;
          m = m\<lparr>Entries := InsertTailList (Entries m) (InsertOrderList Table) (node_entry Node)\<rparr>;
          Table = Table\<lparr>NumberGenericTableElements := u32 (NumberGenericTableElements Table + 1)\<rparr>;
          Table = (if Lookup = EmptyTree then Table\<lparr>TableRoot := Node\<rparr> else Table);
          m = m\<lparr>Links := LinkNewNode (Links m) Lookup NodeOrParent Node\<rparr>
      in (Table, m\<lparr>Elements := (Elements m)(node_data Node := Buffer)\<rparr>))"

definition RtlInsertElementGenericTable ::
  "('e, 'a) RTL_GENERIC_TABLE \<Rightarrow> ('e, 'a) table_mem \<Rightarrow> 'e \<Rightarrow> nat \<Rightarrow>
     (('e, 'a) RTL_GENERIC_TABLE \<times> ('e, 'a) table_mem \<times> ptr \<times> bool) option" where
  \<comment> \<open>the result is the address of the element and the value of \<open>NewElement\<close>\<close>
  "RtlInsertElementGenericTable Table m Buffer BufferSize = do {
     (Lookup, NodeOrParent) \<leftarrow> FindNodeOrParent Table m Buffer;
     if Lookup \<noteq> FoundNode then
       (let (pool, NodeToReturn) = AllocateRoutine Table (Pool m) (u32 (BufferSize + 20));
            m = m\<lparr>Pool := pool\<rparr>
        in if NodeToReturn = NULL then Some (Table, m, NULL, False)
           else let (Table, m) = AddNode Table m Lookup NodeOrParent NodeToReturn Buffer
                in do {
                  (h, r) \<leftarrow> RtlSplay (Links m) NodeToReturn;
                  Some (Table\<lparr>TableRoot := r\<rparr>, m\<lparr>Links := h\<rparr>, node_data NodeToReturn, True)
                })
     else do {
       (h, r) \<leftarrow> RtlSplay (Links m) NodeOrParent;
       Some (Table\<lparr>TableRoot := r\<rparr>, m\<lparr>Links := h\<rparr>, node_data NodeOrParent, False)
     }
   }"

definition RtlDeleteElementGenericTable ::
  "('e, 'a) RTL_GENERIC_TABLE \<Rightarrow> ('e, 'a) table_mem \<Rightarrow> 'e \<Rightarrow>
     (('e, 'a) RTL_GENERIC_TABLE \<times> ('e, 'a) table_mem \<times> bool) option" where
  "RtlDeleteElementGenericTable Table m Buffer = do {
     (Lookup, NodeOrParent) \<leftarrow> FindNodeOrParent Table m Buffer;
     if Lookup = EmptyTree \<or> Lookup \<noteq> FoundNode then Some (Table, m, False)
     else do {
       (h, r) \<leftarrow> RtlDelete (Links m) NodeOrParent;
       let m = m\<lparr>Links := h, Entries := RemoveEntryList (Entries m) (node_entry NodeOrParent)\<rparr>;
       let Table = Table\<lparr>TableRoot := r,
         NumberGenericTableElements := u32_sub (NumberGenericTableElements Table) 1,
         WhichOrderedElement := 0, OrderedPointer := InsertOrderList Table\<rparr>;
       Some (Table, m\<lparr>Pool := FreeRoutine Table (Pool m) NodeOrParent\<rparr>, True)
     }
   }"

definition RtlLookupElementGenericTable ::
  "('e, 'a) RTL_GENERIC_TABLE \<Rightarrow> ('e, 'a) table_mem \<Rightarrow> 'e \<Rightarrow>
     (('e, 'a) RTL_GENERIC_TABLE \<times> ('e, 'a) table_mem \<times> ptr) option" where
  "RtlLookupElementGenericTable Table m Buffer = do {
     (Lookup, NodeOrParent) \<leftarrow> FindNodeOrParent Table m Buffer;
     if Lookup = EmptyTree \<or> Lookup \<noteq> FoundNode then Some (Table, m, NULL)
     else do {
       (h, r) \<leftarrow> RtlSplay (Links m) NodeOrParent;
       Some (Table\<lparr>TableRoot := r\<rparr>, m\<lparr>Links := h\<rparr>, node_data NodeOrParent)
     }
   }"

definition RtlEnumerateGenericTable ::
  "('e, 'a) RTL_GENERIC_TABLE \<Rightarrow> ('e, 'a) table_mem \<Rightarrow> bool \<Rightarrow>
     (('e, 'a) RTL_GENERIC_TABLE \<times> ('e, 'a) table_mem \<times> ptr) option" where
  "RtlEnumerateGenericTable Table m Restart =
     (if RtlIsGenericTableEmpty Table then Some (Table, m, NULL)
      else if Restart then do {
        NodeToReturn \<leftarrow> Leftmost (Links m) (TableRoot Table);
        (h, r) \<leftarrow> RtlSplay (Links m) NodeToReturn;
        Some (Table\<lparr>TableRoot := r\<rparr>, m\<lparr>Links := h\<rparr>, if NodeToReturn \<noteq> NULL then node_data NodeToReturn else NULL)
      }
      else do {
        NodeToReturn \<leftarrow> RtlRealSuccessor (Links m) (TableRoot Table);
        if NodeToReturn \<noteq> NULL then do {
          (h, r) \<leftarrow> RtlSplay (Links m) NodeToReturn;
          Some (Table\<lparr>TableRoot := r\<rparr>, m\<lparr>Links := h\<rparr>, node_data NodeToReturn)
        } else Some (Table, m, NULL)
      })"

definition RtlEnumerateGenericTableWithoutSplaying ::
  "('e, 'a) RTL_GENERIC_TABLE \<Rightarrow> ('e, 'a) table_mem \<Rightarrow> ptr \<Rightarrow> (ptr \<times> ptr) option" where
  \<comment> \<open>the result is the new restart key and the address of the element\<close>
  "RtlEnumerateGenericTableWithoutSplaying Table m RestartKey =
     (if RtlIsGenericTableEmpty Table then Some (RestartKey, NULL)
      else if RestartKey = NULL then do {
        NodeToReturn \<leftarrow> Leftmost (Links m) (TableRoot Table);
        Some (NodeToReturn, if NodeToReturn \<noteq> NULL then node_data NodeToReturn else NULL)
      }
      else do {
        NodeToReturn \<leftarrow> RtlRealSuccessor (Links m) RestartKey;
        Some (if NodeToReturn \<noteq> NULL then NodeToReturn else RestartKey,
          if NodeToReturn \<noteq> NULL then node_data NodeToReturn else NULL)
      })"

fun StepForward :: "list_heap \<Rightarrow> nat \<Rightarrow> ptr \<Rightarrow> ptr" where
  "StepForward h 0 CurrentNode = CurrentNode"
| "StepForward h (Suc Distance) CurrentNode = StepForward h Distance (Flink (h CurrentNode))"

fun StepBackward :: "list_heap \<Rightarrow> nat \<Rightarrow> ptr \<Rightarrow> ptr" where
  "StepBackward h 0 CurrentNode = CurrentNode"
| "StepBackward h (Suc Distance) CurrentNode = StepBackward h Distance (Blink (h CurrentNode))"

definition RtlGetElementGenericTable ::
  "('e, 'a) RTL_GENERIC_TABLE \<Rightarrow> list_heap \<Rightarrow> nat \<Rightarrow> ('e, 'a) RTL_GENERIC_TABLE \<times> ptr" where
  "RtlGetElementGenericTable Table h I =
     (let CurrentLocation = WhichOrderedElement Table;
          NumberInTable = NumberGenericTableElements Table;
          NormalizedI = u32 (I + 1);
          CurrentNode = OrderedPointer Table
      in if I = MAXULONG \<or> NormalizedI > NumberInTable then (Table, NULL)
         else if NormalizedI = CurrentLocation then (Table, entry_data CurrentNode)
         else
           let CurrentNode =
             (if CurrentLocation > NormalizedI then
                if NormalizedI > CurrentLocation div 2
                then StepBackward h (u32_sub CurrentLocation NormalizedI) CurrentNode
                else StepForward h NormalizedI (InsertOrderList Table)
              else
                let ForwardDistance = u32_sub NormalizedI CurrentLocation;
                    BackwardDistance = u32 (u32_sub NumberInTable NormalizedI + 1)
                in if ForwardDistance \<le> BackwardDistance then StepForward h ForwardDistance CurrentNode
                   else StepBackward h BackwardDistance (InsertOrderList Table))
           in (Table\<lparr>OrderedPointer := CurrentNode, WhichOrderedElement := u32 (I + 1)\<rparr>, entry_data CurrentNode))"

definition RtlNumberGenericTableElements :: "('e, 'a) RTL_GENERIC_TABLE \<Rightarrow> nat" where
  "RtlNumberGenericTableElements Table = NumberGenericTableElements Table"

end
