(* ===== verification/Splay_Tree.thy ===== *)
theory Splay_Tree
  imports Splay_Model "HOL-Library.Tree"
begin

text \<open>
  The tree that splay links represent.  \<open>tree_at h q t\<close> says that memory \<open>h\<close> holds the links
  of tree \<open>t\<close> with \<open>q\<close> as parent of its root; a context (a list of frames, innermost first)
  is the rest of a tree around a subtree.
\<close>

section \<open>Reading after writing\<close>

named_theorems link_simps \<open>fields of links after an assignment\<close>

lemma put_fields [link_simps]:
  "Parent (put_Parent h p v x) = (if x = p then v else Parent (h x))"
  "LeftChild (put_Parent h p v x) = LeftChild (h x)"
  "RightChild (put_Parent h p v x) = RightChild (h x)"
  "Parent (put_LeftChild h p v x) = Parent (h x)"
  "LeftChild (put_LeftChild h p v x) = (if x = p then v else LeftChild (h x))"
  "RightChild (put_LeftChild h p v x) = RightChild (h x)"
  "Parent (put_RightChild h p v x) = Parent (h x)"
  "LeftChild (put_RightChild h p v x) = LeftChild (h x)"
  "RightChild (put_RightChild h p v x) = (if x = p then v else RightChild (h x))"
  by (simp_all add: put_Parent_def put_LeftChild_def put_RightChild_def)

lemma put_other [link_simps]:
  "x \<noteq> p \<Longrightarrow> put_Parent h p v x = h x"
  "x \<noteq> p \<Longrightarrow> put_LeftChild h p v x = h x"
  "x \<noteq> p \<Longrightarrow> put_RightChild h p v x = h x"
  by (simp_all add: put_Parent_def put_LeftChild_def put_RightChild_def)

lemma FixParent_fields [link_simps]:
  "Parent (FixParent h c p x) = (if c \<noteq> NULL \<and> x = c then p else Parent (h x))"
  "LeftChild (FixParent h c p x) = LeftChild (h x)"
  "RightChild (FixParent h c p x) = RightChild (h x)"
  by (simp_all add: FixParent_def link_simps)

lemma FixParent_other [link_simps]: "x \<noteq> c \<Longrightarrow> FixParent h c p x = h x"
  by (simp add: FixParent_def link_simps)

lemma Connect_fields [link_simps]:
  "Parent (ConnectLeft h p c x) = (if c \<noteq> NULL \<and> x = c then p else Parent (h x))"
  "LeftChild (ConnectLeft h p c x) = (if x = p then c else LeftChild (h x))"
  "RightChild (ConnectLeft h p c x) = RightChild (h x)"
  "Parent (ConnectRight h p c x) = (if c \<noteq> NULL \<and> x = c then p else Parent (h x))"
  "LeftChild (ConnectRight h p c x) = LeftChild (h x)"
  "RightChild (ConnectRight h p c x) = (if x = p then c else RightChild (h x))"
  by (simp_all add: ConnectLeft_def ConnectRight_def link_simps)

lemma Connect_other [link_simps]:
  "x \<noteq> p \<Longrightarrow> x \<noteq> c \<Longrightarrow> ConnectLeft h p c x = h x"
  "x \<noteq> p \<Longrightarrow> x \<noteq> c \<Longrightarrow> ConnectRight h p c x = h x"
  by (simp_all add: ConnectLeft_def ConnectRight_def link_simps)

section \<open>Trees in memory\<close>

fun root :: "ptr tree \<Rightarrow> ptr" where
  "root Leaf = NULL"
| "root (Node l x r) = x"

fun tree_at :: "links_heap \<Rightarrow> ptr \<Rightarrow> ptr tree \<Rightarrow> bool" where
  "tree_at h q Leaf = True"
| "tree_at h q (Node l x r) \<longleftrightarrow> x \<noteq> NULL \<and> Parent (h x) = q \<and> LeftChild (h x) = root l \<and>
     RightChild (h x) = root r \<and> tree_at h x l \<and> tree_at h x r"

definition is_tree :: "links_heap \<Rightarrow> ptr tree \<Rightarrow> bool" where
  "is_tree h t \<longleftrightarrow> distinct (inorder t) \<and> tree_at h (root t) t"

lemma root_in: "t \<noteq> Leaf \<Longrightarrow> root t \<in> set_tree t"
  by (cases t) auto

lemma tree_at_nonnull: "tree_at h q t \<Longrightarrow> x \<in> set_tree t \<Longrightarrow> x \<noteq> NULL"
  by (induction t arbitrary: q) auto

lemma root_null: "tree_at h q t \<Longrightarrow> root t = NULL \<longleftrightarrow> t = Leaf"
  by (cases t) auto

lemma tree_at_frame: "tree_at h q t \<Longrightarrow> (\<And>x. x \<in> set_tree t \<Longrightarrow> h' x = h x) \<Longrightarrow> tree_at h' q t"
  by (induction t arbitrary: q) auto

lemma tree_at_reparent:
  assumes "tree_at h q t" "distinct (inorder t)"
    and "t \<noteq> Leaf \<Longrightarrow> Parent (h' (root t)) = q' \<and> LeftChild (h' (root t)) = LeftChild (h (root t)) \<and>
        RightChild (h' (root t)) = RightChild (h (root t))"
    and "\<And>x. x \<in> set_tree t \<Longrightarrow> x \<noteq> root t \<Longrightarrow> h' x = h x"
  shows "tree_at h' q' t"
proof (cases t)
  case (Node l x r)
  then have "x \<notin> set_tree l" "x \<notin> set_tree r" using assms(2) by auto
  then have "tree_at h' x l" "tree_at h' x r"
    using assms Node by (auto intro!: tree_at_frame [where h = h and h' = h'])
  then show ?thesis using assms Node by auto
qed simp

section \<open>Contexts\<close>

datatype frame = LF ptr "ptr tree" | RF "ptr tree" ptr

fun plug :: "ptr tree \<Rightarrow> frame list \<Rightarrow> ptr tree" where
  "plug t [] = t"
| "plug t (LF p r # c) = plug (Node t p r) c"
| "plug t (RF l p # c) = plug (Node l p t) c"

fun frame_ptr :: "frame \<Rightarrow> ptr" where
  "frame_ptr (LF p r) = p"
| "frame_ptr (RF l p) = p"

fun before :: "frame list \<Rightarrow> ptr list" where
  "before [] = []"
| "before (LF p r # c) = before c"
| "before (RF l p # c) = before c @ inorder l @ [p]"

fun after :: "frame list \<Rightarrow> ptr list" where
  "after [] = []"
| "after (LF p r # c) = p # inorder r @ after c"
| "after (RF l p # c) = after c"

abbreviation ctx_set :: "frame list \<Rightarrow> ptr set" where
  "ctx_set c \<equiv> set (before c) \<union> set (after c)"

lemma inorder_plug: "inorder (plug t c) = before c @ inorder t @ after c"
  by (induction t c rule: plug.induct) auto

fun hole_parent :: "ptr \<Rightarrow> frame list \<Rightarrow> ptr" where
  \<comment> \<open>the parent of what is in the hole; \<open>q\<close> itself when the hole is the whole tree\<close>
  "hole_parent q [] = q"
| "hole_parent q (f # c) = frame_ptr f"

fun ctx_at :: "links_heap \<Rightarrow> ptr \<Rightarrow> frame list \<Rightarrow> bool" where
  "ctx_at h q [] = True"
| "ctx_at h q (LF p r # c) \<longleftrightarrow> p \<noteq> NULL \<and> Parent (h p) = hole_parent p c \<and> LeftChild (h p) = q \<and>
     RightChild (h p) = root r \<and> tree_at h p r \<and> ctx_at h p c"
| "ctx_at h q (RF l p # c) \<longleftrightarrow> p \<noteq> NULL \<and> Parent (h p) = hole_parent p c \<and> LeftChild (h p) = root l \<and>
     RightChild (h p) = q \<and> tree_at h p l \<and> ctx_at h p c"

lemma tree_at_plug:
  "tree_at h (root (plug t c)) (plug t c) \<longleftrightarrow> tree_at h (hole_parent (root t) c) t \<and> ctx_at h (root t) c"
  by (induction t c rule: plug.induct) auto

lemma is_tree_plug:
  "is_tree h (plug t c) \<longleftrightarrow> distinct (before c @ inorder t @ after c) \<and>
     tree_at h (hole_parent (root t) c) t \<and> ctx_at h (root t) c"
  by (simp add: is_tree_def inorder_plug tree_at_plug)

lemma ctx_at_frame:
  "ctx_at h q c \<Longrightarrow> (\<And>x. x \<in> ctx_set c \<Longrightarrow> h' x = h x) \<Longrightarrow> ctx_at h' q c"
proof (induction h q c rule: ctx_at.induct)
  case (2 h q p r c)
  then show ?case using tree_at_frame [of h p r h'] by auto
next
  case (3 h q l p c)
  then show ?case using tree_at_frame [of h p l h'] by auto
qed simp

lemma ctx_at_nonnull: "ctx_at h q c \<Longrightarrow> x \<in> ctx_set c \<Longrightarrow> x \<noteq> NULL"
proof (induction h q c rule: ctx_at.induct)
  case (2 h q p r c)
  then show ?case using tree_at_nonnull [of h p r] by auto
next
  case (3 h q l p c)
  then show ?case using tree_at_nonnull [of h p l] by auto
qed simp

lemma ctx_at_replace:
  assumes "ctx_at h q (f # c)" "distinct (before (f # c) @ after (f # c))"
    and "\<And>x. x \<in> ctx_set (f # c) \<Longrightarrow> x \<noteq> frame_ptr f \<Longrightarrow> h' x = h x"
    and "Parent (h' (frame_ptr f)) = Parent (h (frame_ptr f))"
    and "case f of LF p r \<Rightarrow> LeftChild (h' p) = q' \<and> RightChild (h' p) = RightChild (h p)
          | RF l p \<Rightarrow> RightChild (h' p) = q' \<and> LeftChild (h' p) = LeftChild (h p)"
  shows "ctx_at h' q' (f # c)"
proof (cases f)
  case (LF p r)
  have "tree_at h' p r" by (rule tree_at_frame [of h]) (use assms LF in auto)
  moreover have "ctx_at h' p c" by (rule ctx_at_frame [of h]) (use assms LF in auto)
  ultimately show ?thesis using assms LF by auto
next
  case (RF l p)
  have "tree_at h' p l" by (rule tree_at_frame [of h]) (use assms RF in auto)
  moreover have "ctx_at h' p c" by (rule ctx_at_frame [of h]) (use assms RF in auto)
  ultimately show ?thesis using assms RF by auto
qed

section \<open>Writing to the hole of a context\<close>

fun hole_slot :: "frame \<Rightarrow> child_slot" where
  "hole_slot (LF p r) = LeftSlot p"
| "hole_slot (RF l p) = RightSlot p"

lemma put_slot_other [link_simps]: "x \<noteq> frame_ptr f \<Longrightarrow> put_slot h (hole_slot f) v x = h x"
  by (cases f) (simp_all add: link_simps)

lemma hole_slot_address:
  assumes "ctx_at h q (f # c)" "q \<noteq> NULL" "q \<notin> ctx_set (f # c)" "Parent (h q) = frame_ptr f"
  shows "ParentsChildPointerAddress h q = hole_slot f"
proof (cases f)
  case (LF p r)
  then show ?thesis using assms by (simp add: ParentsChildPointerAddress_def RtlIsLeftChild_def)
next
  case (RF l p)
  then have "root l \<noteq> q" using assms root_in [of l] by (cases l) auto
  then show ?thesis using assms RF by (simp add: ParentsChildPointerAddress_def RtlIsLeftChild_def)
qed

lemma put_hole:
  assumes "ctx_at h q (f # c)" "distinct (before (f # c) @ after (f # c))"
  shows "ctx_at (put_slot h (hole_slot f) q') q' (f # c)"
  by (rule ctx_at_replace [OF assms]) (cases f; simp add: link_simps)+

lemma frame_ptr_in: "frame_ptr f \<in> ctx_set (f # c)"
  by (cases f) auto

lemma ctx_at_ne: "ctx_at h q (f # c) \<Longrightarrow> frame_ptr f \<noteq> NULL"
  by (cases f) auto

lemma LinkGreatGrandParent_ctx:
  assumes c: "ctx_at h G c" "distinct (before c @ after c)" "Parent (h G) = hole_parent G c"
    and G: "G \<noteq> NULL" "G \<notin> ctx_set c" and L: "L \<notin> ctx_set c" "L \<noteq> G"
  defines "h' \<equiv> LinkGreatGrandParent h L G"
  shows "ctx_at h' L c" "Parent (h' L) = hole_parent L c"
    "LeftChild (h' L) = LeftChild (h L)" "RightChild (h' L) = RightChild (h L)"
    "\<And>x. x \<notin> ctx_set c \<Longrightarrow> x \<noteq> L \<Longrightarrow> h' x = h x"
proof -
  have "ctx_at h' L c \<and> Parent (h' L) = hole_parent L c \<and> LeftChild (h' L) = LeftChild (h L) \<and>
     RightChild (h' L) = RightChild (h L) \<and> (\<forall>x. x \<notin> ctx_set c \<longrightarrow> x \<noteq> L \<longrightarrow> h' x = h x)"
  proof (cases c)
    case Nil
    then show ?thesis using c by (simp add: h'_def LinkGreatGrandParent_def RtlIsRoot_def link_simps)
  next
    case (Cons f d)
    let ?h = "put_Parent h L (frame_ptr f)"
    have fp: "frame_ptr f \<in> ctx_set c" using frame_ptr_in [of f d] Cons by blast
    then have nr: "frame_ptr f \<noteq> G" "frame_ptr f \<noteq> L" using G L by auto
    have at: "ctx_at ?h G (f # d)"
      by (rule ctx_at_frame [of h]) (use c L Cons in \<open>auto intro!: put_other\<close>)
    have "ParentsChildPointerAddress ?h G = hole_slot f"
      by (rule hole_slot_address [OF at]) (use G L c Cons in \<open>auto simp: link_simps\<close>)
    then have h': "h' = put_slot ?h (hole_slot f) L"
      using c Cons nr by (simp add: h'_def LinkGreatGrandParent_def RtlIsRoot_def)
    have "ctx_at h' L (f # d)" unfolding h' by (rule put_hole [OF at]) (use c Cons in auto)
    moreover have "h' L = ?h L" unfolding h' using nr by (simp add: link_simps)
    moreover have "h' x = h x" if "x \<notin> ctx_set c" "x \<noteq> L" for x
      unfolding h' using that fp by (metis put_slot_other put_other(1))
    ultimately show ?thesis using Cons by (simp add: link_simps)
  qed
  then show "ctx_at h' L c" "Parent (h' L) = hole_parent L c"
    "LeftChild (h' L) = LeftChild (h L)" "RightChild (h' L) = RightChild (h L)"
    "\<And>x. x \<notin> ctx_set c \<Longrightarrow> x \<noteq> L \<Longrightarrow> h' x = h x" by blast+
qed

lemma is_tree_nonnull: "is_tree h t \<Longrightarrow> NULL \<notin> set (inorder t)"
  using tree_at_nonnull [of h "root t" t NULL] by (auto simp: is_tree_def)

lemma root_cases: "root t = NULL \<or> root t \<in> set_tree t"
  by (cases t) auto

text \<open>Distinct parts of a tree get distinct numbers, which tells their nodes apart.\<close>

lemma zones: "distinct (concat ps) \<Longrightarrow> \<exists>z. \<forall>i < length ps. \<forall>y \<in> set (ps ! i). z y = i"
proof (induction ps rule: rev_induct)
  case (snoc p ps)
  then obtain z where z: "\<forall>i < length ps. \<forall>y \<in> set (ps ! i). z y = i" by auto
  let ?z = "\<lambda>y. if y \<in> set p then length ps else z y"
  have "?z y = i" if "i < length (ps @ [p])" "y \<in> set ((ps @ [p]) ! i)" for i y
  proof (cases "i < length ps")
    case True
    then have "y \<in> set (concat ps)" using that by (auto simp: nth_append)
    then have "y \<notin> set p" using snoc.prems by auto
    then show ?thesis using True that z by (simp add: nth_append)
  next
    case False
    then show ?thesis using that by (auto simp: nth_append less_Suc_eq)
  qed
  then show ?case by (intro exI [of _ ?z] allI impI ballI)
qed simp

lemma zoneD: "\<forall>y \<in> S. z y = (k :: nat) \<Longrightarrow> z y \<noteq> k \<Longrightarrow> y \<notin> S"
  by auto

lemma seven_zones:
  assumes "is_tree h (plug T x)"
    and "inorder T = inorder a @ [n1] @ inorder b @ [n2] @ inorder c @ [n3] @ inorder d"
  obtains z :: "ptr \<Rightarrow> nat" where "\<forall>y \<in> ctx_set x. z y = 0" "\<forall>y \<in> set_tree a. z y = 1" "z n1 = 2"
    "\<forall>y \<in> set_tree b. z y = 3" "z n2 = 4" "\<forall>y \<in> set_tree c. z y = 5" "z n3 = 6"
    "\<forall>y \<in> set_tree d. z y = 7" "z NULL = 8"
proof -
  let ?ps = "[before x @ after x, inorder a, [n1], inorder b, [n2], inorder c, [n3], inorder d, [NULL]]"
  have "distinct (before x @ inorder T @ after x)" "NULL \<notin> set (before x @ inorder T @ after x)"
    using assms(1) is_tree_nonnull [OF assms(1)] by (simp_all add: is_tree_plug inorder_plug)
  then have "distinct (concat ?ps)" unfolding assms(2) by auto
  from zones [OF this] obtain z where z: "\<forall>i < length ?ps. \<forall>y \<in> set (?ps ! i). z y = i" by blast
  have "\<forall>y \<in> set (?ps ! i). z y = i" if "i < 9" for i using z that by simp
  from this [of 0] this [of 1] this [of 2] this [of 3] this [of 4] this [of 5] this [of 6] this [of 7] this [of 8]
  show thesis by (intro that [of z]) simp_all
qed

end
