(* ===== verification/Splay_Rotate.thy ===== *)
theory Splay_Rotate
  imports Splay_Tree
begin

text \<open>
  \<open>RtlSplay\<close> refines the abstract splay: each of the six rotations of the loop body turns
  the links of a tree into the links of the rotated tree and touches no other memory.
\<close>


lemma double_rotation:
  assumes tree: "is_tree h (plug T x)"
    and io: "inorder T = inorder a @ [n1] @ inorder b @ [n2] @ inorder c @ [n3] @ inorder d"
    and sub: "tree_at h qa a" "tree_at h qb b" "tree_at h qc c" "tree_at h qd d"
    and L: "L \<in> {n1, n2, n3}" "root T \<in> {n1, n2, n3}" "L \<noteq> root T"
    and par: "\<And>y. Parent (h2 y) = (if y \<noteq> NULL \<and> y = root b then qb'
        else if y \<noteq> NULL \<and> y = root c then qc' else Parent (h y))"
    and children: "\<And>y. y \<notin> {n1, n2, n3} \<Longrightarrow> LeftChild (h2 y) = LeftChild (h y) \<and> RightChild (h2 y) = RightChild (h y)"
    and h3: "h3 = LinkGreatGrandParent h2 L (root T)"
    and h4: "\<And>y. y \<notin> {n1, n2, n3} \<Longrightarrow> h4 y = h3 y"
  shows "tree_at h4 qa a" "tree_at h4 qb' b" "tree_at h4 qc' c" "tree_at h4 qd d" "ctx_at h4 L x"
    "Parent (h3 L) = hole_parent L x" "LeftChild (h3 L) = LeftChild (h2 L)" "RightChild (h3 L) = RightChild (h2 L)"
    "\<And>y. y \<in> {n1, n2, n3} \<Longrightarrow> y \<noteq> L \<Longrightarrow> h3 y = h2 y"
    "distinct [n1, n2, n3]" "\<And>y. y \<notin> set (inorder (plug T x)) \<Longrightarrow> h4 y = h y"
proof -
  obtain z :: "ptr \<Rightarrow> nat" where z: "\<forall>y \<in> ctx_set x. z y = 0" "\<forall>y \<in> set_tree a. z y = 1" "z n1 = 2"
    "\<forall>y \<in> set_tree b. z y = 3" "z n2 = 4" "\<forall>y \<in> set_tree c. z y = 5" "z n3 = 6"
    "\<forall>y \<in> set_tree d. z y = 7" "z NULL = 8"
    by (rule seven_zones [OF tree io])
  have zb: "z (root b) = 3 \<or> z (root b) = 8" using root_cases [of b] z by auto
  have zc: "z (root c) = 5 \<or> z (root c) = 8" using root_cases [of c] z by auto
  have D: "distinct (before x @ inorder T @ after x)" and T: "tree_at h (hole_parent (root T) x) T"
    and C: "ctx_at h (root T) x" using tree by (simp_all add: is_tree_plug)
  have zn: "z y \<in> {2, 4, 6}" if "y \<in> {n1, n2, n3}" for y using that z by auto
  have mid: "h2 y = h y" if "y \<notin> {n1, n2, n3}" "y \<noteq> root b" "y \<noteq> root c" for y
    using children [OF that(1)] par [of y] that by (intro RTL_SPLAY_LINKS.equality) auto
  show dist: "distinct [n1, n2, n3]" using z by auto
  have nG: "root T \<notin> ctx_set x" "L \<notin> ctx_set x" using zn [OF L(1)] zn [OF L(2)] z by auto
  have null: "root T \<noteq> NULL"
  proof
    assume "root T = NULL"
    then show False using zn [OF L(2)] z(9) by simp
  qed
  have keep: "y \<notin> {n1, n2, n3} \<and> y \<noteq> root b \<and> y \<noteq> root c" if "z y \<in> {0, 1, 7}" for y
    using that zn [of y] zb zc by auto
  have c2: "ctx_at h2 (root T) x"
    by (rule ctx_at_frame [OF C]) (use z keep mid in auto)
  have p2: "Parent (h2 (root T)) = hole_parent (root T) x"
    using T zn [OF L(2)] zb zc null par [of "root T"] by (cases T) auto
  have d2: "distinct (before x @ after x)" using D by auto
  note l = LinkGreatGrandParent_ctx [OF c2 d2 p2 null nG L(3), folded h3]
  show "Parent (h3 L) = hole_parent L x" "LeftChild (h3 L) = LeftChild (h2 L)" "RightChild (h3 L) = RightChild (h2 L)"
    by (rule l(2), rule l(3), rule l(4))
  show "\<And>y. y \<in> {n1, n2, n3} \<Longrightarrow> y \<noteq> L \<Longrightarrow> h3 y = h2 y"
    using l(5) zn z(1) by force
  have out: "h4 y = h2 y" if "z y \<notin> {0, 2, 4, 6}" for y
  proof -
    have "y \<notin> {n1, n2, n3}" "y \<noteq> L" "y \<notin> ctx_set x" using that zn [of y] z(1) L(1) zn [of L] by auto
    then show ?thesis using h4 l(5) by auto
  qed
  have out': "h4 y = h y" if "z y \<in> {1, 7}" for y
    using out [of y] mid [of y] keep [of y] that by auto
  show "tree_at h4 qa a" by (rule tree_at_frame [OF sub(1)]) (use z out' in auto)
  show "tree_at h4 qd d" by (rule tree_at_frame [OF sub(4)]) (use z out' in auto)
  show "ctx_at h4 L x" by (rule ctx_at_frame [OF l(1)]) (use z keep h4 in auto)
  have db: "distinct (inorder b)" "distinct (inorder c)" using D io by auto
  show "tree_at h4 qb' b"
  proof (rule tree_at_reparent [OF sub(2) db(1)])
    assume "b \<noteq> Leaf"
    then have "z (root b) = 3" "root b \<noteq> NULL" using z root_in [of b] root_null [OF sub(2)] by blast+
    moreover from this have "root b \<notin> {n1, n2, n3}" using zn [of "root b"] by auto
    ultimately show "Parent (h4 (root b)) = qb' \<and> LeftChild (h4 (root b)) = LeftChild (h (root b)) \<and>
        RightChild (h4 (root b)) = RightChild (h (root b))"
      using out [of "root b"] par [of "root b"] children [of "root b"] by auto
  next
    fix y assume y: "y \<in> set_tree b" "y \<noteq> root b"
    then have "z y = 3" using z by auto
    then have "y \<notin> {n1, n2, n3}" "y \<noteq> root c" "h4 y = h2 y" using out [of y] zn [of y] zc by auto
    then show "h4 y = h y" using mid [of y] y by simp
  qed
  show "tree_at h4 qc' c"
  proof (rule tree_at_reparent [OF sub(3) db(2)])
    assume "c \<noteq> Leaf"
    then have "z (root c) = 5" "root c \<noteq> NULL" using z root_in [of c] root_null [OF sub(3)] by blast+
    moreover from this have "root c \<notin> {n1, n2, n3}" "root c \<noteq> root b" using zn [of "root c"] zb by auto
    ultimately show "Parent (h4 (root c)) = qc' \<and> LeftChild (h4 (root c)) = LeftChild (h (root c)) \<and>
        RightChild (h4 (root c)) = RightChild (h (root c))"
      using out [of "root c"] par [of "root c"] children [of "root c"] by auto
  next
    fix y assume y: "y \<in> set_tree c" "y \<noteq> root c"
    then have "z y = 5" using z by auto
    then have "y \<notin> {n1, n2, n3}" "y \<noteq> root b" "h4 y = h2 y" using out [of y] zn [of y] zb by auto
    then show "h4 y = h y" using mid [of y] y by simp
  qed
  show "h4 y = h y" if "y \<notin> set (inorder (plug T x))" for y
  proof -
    have y: "y \<notin> ctx_set x" "y \<notin> {n1, n2, n3}" "y \<notin> set_tree b" "y \<notin> set_tree c"
      using that by (auto simp: inorder_plug io)
    then have "h4 y = h2 y" using h4 l(5) L(1) by auto
    moreover have "h2 y = h y"
      using children [OF y(2)] par [of y] root_cases [of b] root_cases [of c] y(3,4)
      by (intro RTL_SPLAY_LINKS.equality) auto
    ultimately show ?thesis by simp
  qed
qed

lemma two_roots:
  assumes "is_tree h (plug T x)"
    and "inorder T = inorder a @ [n1] @ inorder b @ [n2] @ inorder c @ [n3] @ inorder d"
  shows "root b = root c \<Longrightarrow> root b = NULL"
proof -
  have "distinct (inorder T)" using assms(1) by (simp add: is_tree_plug)
  then have "set_tree b \<inter> set_tree c = {}" unfolding assms(2) by auto
  then show "root b = root c \<Longrightarrow> root b = NULL" using root_cases [of b] root_cases [of c] by auto
qed

lemma SplayLeftLeft_tree:
  assumes "is_tree h (plug (Node (Node (Node a L b) P c) G d) x)"
  defines "h' \<equiv> SplayLeftLeft h L P G" and "t' \<equiv> plug (Node a L (Node b P (Node c G d))) x"
  shows "is_tree h' t' \<and> (\<forall>y. y \<notin> set (inorder t') \<longrightarrow> h' y = h y)"
proof -
  let ?T = "Node (Node (Node a L b) P c) G d"
  have io: "inorder ?T = inorder a @ [L] @ inorder b @ [P] @ inorder c @ [G] @ inorder d" by simp
  have D: "distinct (before x @ inorder ?T @ after x)" and T: "tree_at h (hole_parent G x) ?T"
    using assms(1) unfolding is_tree_plug by simp_all
  define h2 where "h2 = ConnectLeft (ConnectLeft h P (root b)) G (root c)"
  define h3 where "h3 = LinkGreatGrandParent h2 L G"
  have lpg: "L \<noteq> P" "L \<noteq> G" "P \<noteq> G" using D by auto
  have eq: "h' = put_Parent (put_RightChild (put_Parent (put_RightChild h3 L P) P L) P G) G P"
    using T lpg two_roots [OF assms(1) io]
    by (simp add: h'_def SplayLeftLeft_def Let_def h3_def h2_def link_simps)
  have sub: "tree_at h L a" "tree_at h L b" "tree_at h P c" "tree_at h G d" using T by simp_all
  have Ls: "L \<in> {L, P, G}" "root ?T \<in> {L, P, G}" "L \<noteq> root ?T" using lpg by simp_all
  have par: "Parent (h2 y) = (if y \<noteq> NULL \<and> y = root b then P
      else if y \<noteq> NULL \<and> y = root c then G else Parent (h y))" for y
    using two_roots [OF assms(1) io] by (auto simp: h2_def link_simps)
  have ch: "LeftChild (h2 y) = LeftChild (h y) \<and> RightChild (h2 y) = RightChild (h y)" if "y \<notin> {L, P, G}" for y
    using that by (simp add: h2_def link_simps)
  have h3: "h3 = LinkGreatGrandParent h2 L (root ?T)" by (simp add: h3_def)
  have h4: "h' y = h3 y" if "y \<notin> {L, P, G}" for y using that by (simp add: eq link_simps)
  note r = double_rotation [OF assms(1) io sub Ls par ch h3 h4]
  have "h3 P = h2 P" "h3 G = h2 G" using r(9) lpg by simp_all
  then have "tree_at h' (hole_parent L x) (Node a L (Node b P (Node c G d)))"
    using r(1-4,6-8) T lpg by (simp add: eq h2_def link_simps)
  then show ?thesis using r(5,11) D by (simp add: t'_def is_tree_plug inorder_plug)
qed

lemma SplayLeftRight_tree:
  assumes "is_tree h (plug (Node a G (Node (Node b L c) P d)) x)"
  defines "h' \<equiv> SplayLeftRight h L P G" and "t' \<equiv> plug (Node (Node a G b) L (Node c P d)) x"
  shows "is_tree h' t' \<and> (\<forall>y. y \<notin> set (inorder t') \<longrightarrow> h' y = h y)"
proof -
  let ?T = "Node a G (Node (Node b L c) P d)"
  have io: "inorder ?T = inorder a @ [G] @ inorder b @ [L] @ inorder c @ [P] @ inorder d" by simp
  have D: "distinct (before x @ inorder ?T @ after x)" and T: "tree_at h (hole_parent G x) ?T"
    using assms(1) unfolding is_tree_plug by simp_all
  define h2 where "h2 = ConnectLeft (ConnectRight h G (root b)) P (root c)"
  define h3 where "h3 = LinkGreatGrandParent h2 L G"
  have lpg: "L \<noteq> P" "L \<noteq> G" "P \<noteq> G" using D by auto
  have eq: "h' = put_Parent (put_RightChild (put_Parent (put_LeftChild h3 L G) G L) L P) P L"
    using T lpg two_roots [OF assms(1) io]
    by (simp add: h'_def SplayLeftRight_def Let_def h3_def h2_def link_simps)
  have sub: "tree_at h G a" "tree_at h L b" "tree_at h L c" "tree_at h P d" using T by simp_all
  have Ls: "L \<in> {G, L, P}" "root ?T \<in> {G, L, P}" "L \<noteq> root ?T" using lpg by simp_all
  have par: "Parent (h2 y) = (if y \<noteq> NULL \<and> y = root b then G
      else if y \<noteq> NULL \<and> y = root c then P else Parent (h y))" for y
    using two_roots [OF assms(1) io] by (auto simp: h2_def link_simps)
  have ch: "LeftChild (h2 y) = LeftChild (h y) \<and> RightChild (h2 y) = RightChild (h y)" if "y \<notin> {G, L, P}" for y
    using that by (simp add: h2_def link_simps)
  have h3: "h3 = LinkGreatGrandParent h2 L (root ?T)" by (simp add: h3_def)
  have h4: "h' y = h3 y" if "y \<notin> {G, L, P}" for y using that by (simp add: eq link_simps)
  note r = double_rotation [OF assms(1) io sub Ls par ch h3 h4]
  have "h3 P = h2 P" "h3 G = h2 G" using r(9) lpg by simp_all
  then have "tree_at h' (hole_parent L x) (Node (Node a G b) L (Node c P d))"
    using r(1-4,6-8) T lpg by (simp add: eq h2_def link_simps)
  then show ?thesis using r(5,11) D by (simp add: t'_def is_tree_plug inorder_plug)
qed

lemma SplayRightRight_tree:
  assumes "is_tree h (plug (Node a G (Node b P (Node c L d))) x)"
  defines "h' \<equiv> SplayRightRight h L P G" and "t' \<equiv> plug (Node (Node (Node a G b) P c) L d) x"
  shows "is_tree h' t' \<and> (\<forall>y. y \<notin> set (inorder t') \<longrightarrow> h' y = h y)"
proof -
  let ?T = "Node a G (Node b P (Node c L d))"
  have io: "inorder ?T = inorder a @ [G] @ inorder b @ [P] @ inorder c @ [L] @ inorder d" by simp
  have D: "distinct (before x @ inorder ?T @ after x)" and T: "tree_at h (hole_parent G x) ?T"
    using assms(1) unfolding is_tree_plug by simp_all
  define h2 where "h2 = ConnectRight (ConnectRight h G (root b)) P (root c)"
  define h3 where "h3 = LinkGreatGrandParent h2 L G"
  have lpg: "L \<noteq> P" "L \<noteq> G" "P \<noteq> G" using D by auto
  have eq: "h' = put_Parent (put_LeftChild (put_Parent (put_LeftChild h3 L P) P L) P G) G P"
    using T lpg two_roots [OF assms(1) io]
    by (simp add: h'_def SplayRightRight_def Let_def h3_def h2_def link_simps)
  have sub: "tree_at h G a" "tree_at h P b" "tree_at h L c" "tree_at h L d" using T by simp_all
  have Ls: "L \<in> {G, P, L}" "root ?T \<in> {G, P, L}" "L \<noteq> root ?T" using lpg by simp_all
  have par: "Parent (h2 y) = (if y \<noteq> NULL \<and> y = root b then G
      else if y \<noteq> NULL \<and> y = root c then P else Parent (h y))" for y
    using two_roots [OF assms(1) io] by (auto simp: h2_def link_simps)
  have ch: "LeftChild (h2 y) = LeftChild (h y) \<and> RightChild (h2 y) = RightChild (h y)" if "y \<notin> {G, P, L}" for y
    using that by (simp add: h2_def link_simps)
  have h3: "h3 = LinkGreatGrandParent h2 L (root ?T)" by (simp add: h3_def)
  have h4: "h' y = h3 y" if "y \<notin> {G, P, L}" for y using that by (simp add: eq link_simps)
  note r = double_rotation [OF assms(1) io sub Ls par ch h3 h4]
  have "h3 P = h2 P" "h3 G = h2 G" using r(9) lpg by simp_all
  then have "tree_at h' (hole_parent L x) (Node (Node (Node a G b) P c) L d)"
    using r(1-4,6-8) T lpg by (simp add: eq h2_def link_simps)
  then show ?thesis using r(5,11) D by (simp add: t'_def is_tree_plug inorder_plug)
qed

lemma SplayRightLeft_tree:
  assumes "is_tree h (plug (Node (Node a P (Node b L c)) G d) x)"
  defines "h' \<equiv> SplayRightLeft h L P G" and "t' \<equiv> plug (Node (Node a P b) L (Node c G d)) x"
  shows "is_tree h' t' \<and> (\<forall>y. y \<notin> set (inorder t') \<longrightarrow> h' y = h y)"
proof -
  let ?T = "Node (Node a P (Node b L c)) G d"
  have io: "inorder ?T = inorder a @ [P] @ inorder b @ [L] @ inorder c @ [G] @ inorder d" by simp
  have D: "distinct (before x @ inorder ?T @ after x)" and T: "tree_at h (hole_parent G x) ?T"
    using assms(1) unfolding is_tree_plug by simp_all
  define h2 where "h2 = ConnectLeft (ConnectRight h P (root b)) G (root c)"
  define h3 where "h3 = LinkGreatGrandParent h2 L G"
  have lpg: "L \<noteq> P" "L \<noteq> G" "P \<noteq> G" using D by auto
  have eq: "h' = put_Parent (put_RightChild (put_Parent (put_LeftChild h3 L P) P L) L G) G L"
    using T lpg two_roots [OF assms(1) io]
    by (simp add: h'_def SplayRightLeft_def Let_def h3_def h2_def link_simps)
  have sub: "tree_at h P a" "tree_at h L b" "tree_at h L c" "tree_at h G d" using T by simp_all
  have Ls: "L \<in> {P, L, G}" "root ?T \<in> {P, L, G}" "L \<noteq> root ?T" using lpg by simp_all
  have par: "Parent (h2 y) = (if y \<noteq> NULL \<and> y = root b then P
      else if y \<noteq> NULL \<and> y = root c then G else Parent (h y))" for y
    using two_roots [OF assms(1) io] by (auto simp: h2_def link_simps)
  have ch: "LeftChild (h2 y) = LeftChild (h y) \<and> RightChild (h2 y) = RightChild (h y)" if "y \<notin> {P, L, G}" for y
    using that by (simp add: h2_def link_simps)
  have h3: "h3 = LinkGreatGrandParent h2 L (root ?T)" by (simp add: h3_def)
  have h4: "h' y = h3 y" if "y \<notin> {P, L, G}" for y using that by (simp add: eq link_simps)
  note r = double_rotation [OF assms(1) io sub Ls par ch h3 h4]
  have "h3 P = h2 P" "h3 G = h2 G" using r(9) lpg by simp_all
  then have "tree_at h' (hole_parent L x) (Node (Node a P b) L (Node c G d))"
    using r(1-4,6-8) T lpg by (simp add: eq h2_def link_simps)
  then show ?thesis using r(5,11) D by (simp add: t'_def is_tree_plug inorder_plug)
qed

lemma SplayLeftRoot_tree:
  assumes "is_tree h (Node (Node a L b) P c)"
  defines "h' \<equiv> SplayLeftRoot h L P" and "t' \<equiv> Node a L (Node b P c)"
  shows "is_tree h' t' \<and> (\<forall>y. y \<notin> set (inorder t') \<longrightarrow> h' y = h y)"
proof -
  have D: "distinct (inorder t')" and T: "tree_at h P (Node (Node a L b) P c)"
    using assms(1) by (simp_all add: is_tree_def t'_def)
  have lp: "L \<noteq> P" "root b \<noteq> L" "root b \<noteq> P" using D T root_cases [of b] by (auto simp: t'_def)
  have eq: "h' = put_Parent (put_Parent (put_RightChild (ConnectLeft h P (root b)) L P) P L) L L"
    using T lp by (simp add: h'_def SplayLeftRoot_def Let_def link_simps)
  have keep: "h' y = h y" if "y \<notin> {L, P, root b}" for y using that by (simp add: eq link_simps)
  have out: "y \<notin> {L, P, root b}" if "y \<in> set_tree a \<union> set_tree c" for y
    using that D T root_cases [of b] tree_at_nonnull [of h L a y] tree_at_nonnull [of h P c y]
    by (auto simp: t'_def)
  have "tree_at h' L a" by (rule tree_at_frame [of h]) (use T keep out in auto)
  moreover have "tree_at h' P c" by (rule tree_at_frame [of h]) (use T keep out in auto)
  moreover have "tree_at h' P b"
  proof (rule tree_at_reparent [of h L])
    show "h' y = h y" if "y \<in> set_tree b" "y \<noteq> root b" for y
      using keep [of y] that D by (auto simp: t'_def)
  qed (use T D lp root_null [of h L b] in \<open>auto simp: t'_def eq link_simps\<close>)
  moreover have "h' y = h y" if "y \<notin> set (inorder t')" for y
  proof (cases "y = root b")
    case True
    then have "y = NULL" using that root_cases [of b] by (auto simp: t'_def)
    then show ?thesis using True that lp by (intro RTL_SPLAY_LINKS.equality) (auto simp: eq t'_def link_simps)
  qed (use that keep [of y] in \<open>auto simp: t'_def\<close>)
  ultimately show ?thesis using D T lp by (simp add: is_tree_def t'_def eq link_simps)
qed

lemma SplayRightRoot_tree:
  assumes "is_tree h (Node a P (Node b L c))"
  defines "h' \<equiv> SplayRightRoot h L P" and "t' \<equiv> Node (Node a P b) L c"
  shows "is_tree h' t' \<and> (\<forall>y. y \<notin> set (inorder t') \<longrightarrow> h' y = h y)"
proof -
  have D: "distinct (inorder t')" and T: "tree_at h P (Node a P (Node b L c))"
    using assms(1) by (simp_all add: is_tree_def t'_def)
  have lp: "L \<noteq> P" "root b \<noteq> L" "root b \<noteq> P" using D T root_cases [of b] by (auto simp: t'_def)
  have eq: "h' = put_Parent (put_Parent (put_LeftChild (ConnectRight h P (root b)) L P) P L) L L"
    using T lp by (simp add: h'_def SplayRightRoot_def Let_def link_simps)
  have keep: "h' y = h y" if "y \<notin> {L, P, root b}" for y using that by (simp add: eq link_simps)
  have out: "y \<notin> {L, P, root b}" if "y \<in> set_tree a \<union> set_tree c" for y
    using that D T root_cases [of b] tree_at_nonnull [of h P a y] tree_at_nonnull [of h L c y]
    by (auto simp: t'_def)
  have "tree_at h' P a" by (rule tree_at_frame [of h]) (use T keep out in auto)
  moreover have "tree_at h' L c" by (rule tree_at_frame [of h]) (use T keep out in auto)
  moreover have "tree_at h' P b"
  proof (rule tree_at_reparent [of h L])
    show "h' y = h y" if "y \<in> set_tree b" "y \<noteq> root b" for y
      using keep [of y] that D by (auto simp: t'_def)
  qed (use T D lp root_null [of h L b] in \<open>auto simp: t'_def eq link_simps\<close>)
  moreover have "h' y = h y" if "y \<notin> set (inorder t')" for y
  proof (cases "y = root b")
    case True
    then have "y = NULL" using that root_cases [of b] by (auto simp: t'_def)
    then show ?thesis using True that lp by (intro RTL_SPLAY_LINKS.equality) (auto simp: eq t'_def link_simps)
  qed (use that keep [of y] in \<open>auto simp: t'_def\<close>)
  ultimately show ?thesis using D T lp by (simp add: is_tree_def t'_def eq link_simps)
qed

section \<open>The abstract splay\<close>

fun splay_up :: "ptr tree \<Rightarrow> ptr \<Rightarrow> ptr tree \<Rightarrow> frame list \<Rightarrow> ptr tree" where
  "splay_up l x r [] = Node l x r"
| "splay_up l x r [LF p c] = Node l x (Node r p c)"
| "splay_up l x r [RF a p] = Node (Node a p l) x r"
| "splay_up l x r (LF p c # LF g d # ctx) = splay_up l x (Node r p (Node c g d)) ctx"
| "splay_up l x r (LF p d # RF a g # ctx) = splay_up (Node a g l) x (Node r p d) ctx"
| "splay_up l x r (RF b p # RF a g # ctx) = splay_up (Node (Node a g b) p l) x r ctx"
| "splay_up l x r (RF a p # LF g d # ctx) = splay_up (Node a p l) x (Node r g d) ctx"

lemma inorder_splay_up: "inorder (splay_up l x r c) = inorder (plug (Node l x r) c)"
  by (induction l x r c rule: splay_up.induct) (simp_all add: inorder_plug)

lemma root_splay_up: "root (splay_up l x r c) = x"
  by (induction l x r c rule: splay_up.induct) simp_all

lemma at_root: "is_tree h (plug (Node l x r) c) \<Longrightarrow> RtlIsRoot h x \<longleftrightarrow> c = []"
  using frame_ptr_in [of _ "tl c"] by (cases c) (auto simp: is_tree_plug RtlIsRoot_def, simp add: is_tree_def)

lemma at_left:
  assumes "is_tree h (plug (Node l x r) (f # c))"
  shows "RtlIsLeftChild h x \<longleftrightarrow> (case f of LF p s \<Rightarrow> True | RF s p \<Rightarrow> False)"
    "RtlIsRightChild h x \<longleftrightarrow> (case f of LF p s \<Rightarrow> False | RF s p \<Rightarrow> True)"
    "Parent (h x) = frame_ptr f"
proof -
  have "x \<noteq> root s" if "f = LF p s \<or> f = RF s p" for p s
    using assms that root_cases [of s] by (auto simp: is_tree_plug)
  then show "RtlIsLeftChild h x \<longleftrightarrow> (case f of LF p s \<Rightarrow> True | RF s p \<Rightarrow> False)"
    "RtlIsRightChild h x \<longleftrightarrow> (case f of LF p s \<Rightarrow> False | RF s p \<Rightarrow> True)"
    "Parent (h x) = frame_ptr f"
    using assms by (auto simp: is_tree_plug RtlIsLeftChild_def RtlIsRightChild_def split: frame.splits)
qed

lemma RtlSplay_step: "\<not> RtlIsRoot h L \<Longrightarrow> RtlSplay h L = RtlSplay (SplayStep h L) L"
  by (subst RtlSplay.simps) simp

lemma RtlSplay_stop: "RtlIsRoot h L \<Longrightarrow> RtlSplay h L = Some (h, L)"
  by (subst RtlSplay.simps) simp

lemmas step_trees = SplayLeftRoot_tree SplayRightRoot_tree SplayLeftLeft_tree SplayLeftRight_tree
  SplayRightRight_tree SplayRightLeft_tree

definition splayed :: "links_heap \<Rightarrow> links_heap \<Rightarrow> ptr tree \<Rightarrow> bool" where
  \<comment> \<open>memory \<open>h'\<close> holds tree \<open>t\<close> and is otherwise memory \<open>h\<close>\<close>
  "splayed h h' t \<longleftrightarrow> is_tree h' t \<and> (\<forall>y. y \<notin> set (inorder t) \<longrightarrow> h' y = h y)"

lemma splayed_trans:
  "splayed h h' t \<Longrightarrow> splayed h' h'' t' \<Longrightarrow> set (inorder t') = set (inorder t) \<Longrightarrow> splayed h h'' t'"
  by (auto simp: splayed_def)

lemma SplayStep_tree:
  "is_tree h (plug (Node l x r) [LF p c]) \<Longrightarrow> splayed h (SplayStep h x) (Node l x (Node r p c))"
  "is_tree h (plug (Node l x r) [RF a p]) \<Longrightarrow> splayed h (SplayStep h x) (Node (Node a p l) x r)"
  "is_tree h (plug (Node l x r) (LF p c # LF g d # ctx)) \<Longrightarrow>
     splayed h (SplayStep h x) (plug (Node l x (Node r p (Node c g d))) ctx)"
  "is_tree h (plug (Node l x r) (LF p d # RF a g # ctx)) \<Longrightarrow>
     splayed h (SplayStep h x) (plug (Node (Node a g l) x (Node r p d)) ctx)"
  "is_tree h (plug (Node l x r) (RF b p # RF a g # ctx)) \<Longrightarrow>
     splayed h (SplayStep h x) (plug (Node (Node (Node a g b) p l) x r) ctx)"
  "is_tree h (plug (Node l x r) (RF a p # LF g d # ctx)) \<Longrightarrow>
     splayed h (SplayStep h x) (plug (Node (Node a p l) x (Node r g d)) ctx)"
proof -
  note at = at_left [where h = h and l = l and x = x and r = r]
  assume T: "is_tree h (plug (Node l x r) [LF p c])"
  show "splayed h (SplayStep h x) (Node l x (Node r p c))"
    using SplayLeftRoot_tree [of h l x r p c] T at [OF T] at_root [of h "Node l x r" p c "[]"]
    by (simp add: SplayStep_def Let_def splayed_def)
next
  assume T: "is_tree h (plug (Node l x r) [RF a p])"
  show "splayed h (SplayStep h x) (Node (Node a p l) x r)"
    using SplayRightRoot_tree [of h a p l x r] T at_left [OF T] at_root [of h a p "Node l x r" "[]"]
    by (simp add: SplayStep_def Let_def splayed_def)
next
  assume T: "is_tree h (plug (Node l x r) (LF p c # LF g d # ctx))"
  then have T': "is_tree h (plug (Node (Node l x r) p c) (LF g d # ctx))" by simp
  show "splayed h (SplayStep h x) (plug (Node l x (Node r p (Node c g d))) ctx)"
    using SplayLeftLeft_tree [of h l x r p c g d ctx] T at_left [OF T] at_left [OF T'] at_root [OF T']
    by (simp add: SplayStep_def Let_def splayed_def)
next
  assume T: "is_tree h (plug (Node l x r) (LF p d # RF a g # ctx))"
  then have T': "is_tree h (plug (Node (Node l x r) p d) (RF a g # ctx))" by simp
  show "splayed h (SplayStep h x) (plug (Node (Node a g l) x (Node r p d)) ctx)"
    using SplayLeftRight_tree [of h a g l x r p d ctx] T at_left [OF T] at_left [OF T'] at_root [OF T']
    by (simp add: SplayStep_def Let_def splayed_def)
next
  assume T: "is_tree h (plug (Node l x r) (RF b p # RF a g # ctx))"
  then have T': "is_tree h (plug (Node b p (Node l x r)) (RF a g # ctx))" by simp
  show "splayed h (SplayStep h x) (plug (Node (Node (Node a g b) p l) x r) ctx)"
    using SplayRightRight_tree [of h a g b p l x r ctx] T at_left [OF T] at_left [OF T'] at_root [OF T']
    by (simp add: SplayStep_def Let_def splayed_def)
next
  assume T: "is_tree h (plug (Node l x r) (RF a p # LF g d # ctx))"
  then have T': "is_tree h (plug (Node a p (Node l x r)) (LF g d # ctx))" by simp
  show "splayed h (SplayStep h x) (plug (Node (Node a p l) x (Node r g d)) ctx)"
    using SplayRightLeft_tree [of h a p l x r g d ctx] T at_left [OF T] at_left [OF T'] at_root [OF T']
    by (simp add: SplayStep_def Let_def splayed_def)
qed

lemma splay_on:
  assumes "is_tree h (plug (Node l x r) (f # c))" "splayed h (SplayStep h x) (plug (Node l' x r') c')"
    "inorder (plug (Node l' x r') c') = inorder (plug (Node l x r) (f # c))"
    "\<And>h. is_tree h (plug (Node l' x r') c') \<Longrightarrow>
       \<exists>h'. RtlSplay h x = Some (h', x) \<and> splayed h h' (splay_up l' x r' c')"
  shows "\<exists>h'. RtlSplay h x = Some (h', x) \<and> splayed h h' (splay_up l' x r' c')"
proof -
  obtain h' where "RtlSplay (SplayStep h x) x = Some (h', x)" "splayed (SplayStep h x) h' (splay_up l' x r' c')"
    using assms(2) assms(4) [of "SplayStep h x"] by (auto simp: splayed_def)
  moreover have "RtlSplay h x = RtlSplay (SplayStep h x) x"
    using at_root [OF assms(1)] by (intro RtlSplay_step) simp
  moreover have "splayed h h' (splay_up l' x r' c')"
    by (rule splayed_trans [OF assms(2) calculation(2)]) (simp only: inorder_splay_up)
  ultimately show ?thesis by auto
qed

lemma RtlSplay_refines:
  assumes "is_tree h (plug (Node l x r) c)"
  shows "\<exists>h'. RtlSplay h x = Some (h', x) \<and> splayed h h' (splay_up l x r c)"
  using assms
proof (induction l x r c arbitrary: h rule: splay_up.induct)
  case (1 l x r)
  then have "RtlIsRoot h x" using at_root [of h l x r "[]"] by simp
  then show ?case using 1 by (simp add: RtlSplay_stop splayed_def)
next
  case (2 l x r p c)
  show ?case
    using splay_on [OF 2, of l "Node r p c" "[]"] SplayStep_tree(1) [OF 2] RtlSplay_stop at_root [of _ l x "Node r p c" "[]"]
    by (auto simp: splayed_def inorder_plug)
next
  case (3 l x r a p)
  show ?case
    using splay_on [OF 3, of "Node a p l" r "[]"] SplayStep_tree(2) [OF 3] RtlSplay_stop at_root [of _ "Node a p l" x r "[]"]
    by (auto simp: splayed_def inorder_plug)
next
  case (4 l x r p c g d ctx)
  show ?case using splay_on [OF 4(2) SplayStep_tree(3) [OF 4(2)] _ 4(1)] by (simp add: inorder_plug)
next
  case (5 l x r p d a g ctx)
  show ?case using splay_on [OF 5(2) SplayStep_tree(4) [OF 5(2)] _ 5(1)] by (simp add: inorder_plug)
next
  case (6 l x r b p a g ctx)
  show ?case using splay_on [OF 6(2) SplayStep_tree(5) [OF 6(2)] _ 6(1)] by (simp add: inorder_plug)
next
  case (7 l x r a p g d ctx)
  show ?case using splay_on [OF 7(2) SplayStep_tree(6) [OF 7(2)] _ 7(1)] by (simp add: inorder_plug)
qed

end
