(* ===== verification/Splay_Swap.thy ===== *)
theory Splay_Swap
  imports Splay_Rotate
begin

text \<open>
  \<open>SwapSplayLinks\<close>: on the nodes of a tree, exchanging two links is the renaming that
  exchanges their addresses.
\<close>

section \<open>Every node has a context\<close>

lemma plug_append: "plug t (c @ d) = plug (plug t c) d"
  by (induction t c rule: plug.induct) auto

lemma zipper: "x \<in> set_tree t \<Longrightarrow> \<exists>l r c. t = plug (Node l x r) c"
proof (induction t)
  case (Node l y r)
  consider "x = y" | "x \<in> set_tree l" | "x \<in> set_tree r" using Node.prems by auto
  then show ?case
  proof cases
    case 1
    then show ?thesis by (intro exI [of _ l] exI [of _ r] exI [of _ "[]"]) simp
  next
    case 2
    then obtain l' r' c where "l = plug (Node l' x r') c" using Node.IH(1) by blast
    then show ?thesis by (intro exI [of _ l'] exI [of _ r'] exI [of _ "c @ [LF y r]"]) (simp add: plug_append)
  next
    case 3
    then obtain l' r' c where "r = plug (Node l' x r') c" using Node.IH(2) by blast
    then show ?thesis by (intro exI [of _ l'] exI [of _ r'] exI [of _ "c @ [RF l y]"]) (simp add: plug_append)
  qed
qed simp

section \<open>Local laws of links\<close>

definition linked :: "links_heap \<Rightarrow> ptr set \<Rightarrow> bool" where
  \<comment> \<open>the links of the nodes \<open>S\<close> fit together\<close>
  "linked h S \<longleftrightarrow> NULL \<notin> S \<and>
     (\<forall>y \<in> S. LeftChild (h y) \<noteq> NULL \<longrightarrow> LeftChild (h y) \<in> S \<and> Parent (h (LeftChild (h y))) = y \<and>
        LeftChild (h y) \<noteq> y \<and> LeftChild (h y) \<noteq> RightChild (h y)) \<and>
     (\<forall>y \<in> S. RightChild (h y) \<noteq> NULL \<longrightarrow> RightChild (h y) \<in> S \<and> Parent (h (RightChild (h y))) = y \<and>
        RightChild (h y) \<noteq> y) \<and>
     (\<forall>y \<in> S. Parent (h y) \<in> S) \<and>
     (\<forall>y \<in> S. Parent (h y) \<noteq> y \<longrightarrow> LeftChild (h (Parent (h y))) = y \<or> RightChild (h (Parent (h y))) = y)"

lemma linkedD:
  assumes "linked h S"
  shows "NULL \<notin> S"
    "\<And>y. y \<in> S \<Longrightarrow> LeftChild (h y) \<noteq> NULL \<Longrightarrow> LeftChild (h y) \<in> S \<and> Parent (h (LeftChild (h y))) = y \<and>
        LeftChild (h y) \<noteq> y \<and> LeftChild (h y) \<noteq> RightChild (h y)"
    "\<And>y. y \<in> S \<Longrightarrow> RightChild (h y) \<noteq> NULL \<Longrightarrow> RightChild (h y) \<in> S \<and> Parent (h (RightChild (h y))) = y \<and>
        RightChild (h y) \<noteq> y"
    "\<And>y. y \<in> S \<Longrightarrow> Parent (h y) \<noteq> y \<Longrightarrow> LeftChild (h (Parent (h y))) = y \<or> RightChild (h (Parent (h y))) = y"
  using assms unfolding linked_def by blast+

lemma tree_linked:
  assumes "is_tree h t"
  shows "linked h (set_tree t)"
proof -
  have z: "y \<noteq> NULL \<and>
     (LeftChild (h y) \<noteq> NULL \<longrightarrow> LeftChild (h y) \<in> set_tree t \<and> Parent (h (LeftChild (h y))) = y \<and>
        LeftChild (h y) \<noteq> y \<and> LeftChild (h y) \<noteq> RightChild (h y)) \<and>
     (RightChild (h y) \<noteq> NULL \<longrightarrow> RightChild (h y) \<in> set_tree t \<and> Parent (h (RightChild (h y))) = y \<and>
        RightChild (h y) \<noteq> y) \<and>
     Parent (h y) \<in> set_tree t \<and>
     (Parent (h y) \<noteq> y \<longrightarrow> LeftChild (h (Parent (h y))) = y \<or> RightChild (h (Parent (h y))) = y)"
    if y: "y \<in> set_tree t" for y
  proof -
    obtain l r c where t: "t = plug (Node l y r) c" using zipper [OF y] by blast
    have D: "distinct (before c @ inorder l @ y # inorder r @ after c)"
      and T: "tree_at h (hole_parent y c) (Node l y r)" and C: "ctx_at h y c"
      using assms by (simp_all add: t is_tree_plug)
    have S: "set_tree t = ctx_set c \<union> set_tree l \<union> {y} \<union> set_tree r"
      using set_inorder [of t] unfolding t inorder_plug by auto
    have l: "root l \<noteq> NULL \<longrightarrow> root l \<in> set_tree l \<and> Parent (h (root l)) = y"
      using T by (cases l) auto
    have r: "root r \<noteq> NULL \<longrightarrow> root r \<in> set_tree r \<and> Parent (h (root r)) = y"
      using T by (cases r) auto
    have p: "Parent (h y) \<in> set_tree t \<and>
       (Parent (h y) \<noteq> y \<longrightarrow> LeftChild (h (Parent (h y))) = y \<or> RightChild (h (Parent (h y))) = y)"
    proof (cases c)
      case Nil
      then show ?thesis using T S by simp
    next
      case (Cons f d)
      then show ?thesis using T C S frame_ptr_in [of f d] by (cases f) auto
    qed
    have d: "y \<notin> set_tree l" "y \<notin> set_tree r" "\<And>v. v \<in> set_tree l \<Longrightarrow> v \<notin> set_tree r" using D by auto
    have e: "LeftChild (h y) = root l" "RightChild (h y) = root r" "y \<noteq> NULL" using T by simp_all
    have "root l \<noteq> NULL \<longrightarrow> root l \<noteq> y \<and> root l \<noteq> root r" "root r \<noteq> NULL \<longrightarrow> root r \<noteq> y"
      using d l r root_cases [of r] by metis+
    then show ?thesis unfolding e using S l r p e(3) by blast
  qed
  then show ?thesis unfolding linked_def by blast
qed

section \<open>Exchanging two links\<close>

definition sw :: "ptr \<Rightarrow> ptr \<Rightarrow> ptr \<Rightarrow> ptr" where
  "sw A B v = (if v = A then B else if v = B then A else v)"

definition renamed :: "ptr \<Rightarrow> ptr \<Rightarrow> links_heap \<Rightarrow> links_heap" where
  "renamed A B h x = \<lparr>Parent = sw A B (Parent (h (sw A B x))), LeftChild = sw A B (LeftChild (h (sw A B x))),
     RightChild = sw A B (RightChild (h (sw A B x)))\<rparr>"

lemma sw_simps [simp]: "sw A B A = B" "sw A B B = A" "sw A B (sw A B v) = v"
  by (auto simp: sw_def)

lemma sw_null [simp]: "A \<noteq> NULL \<Longrightarrow> B \<noteq> NULL \<Longrightarrow> sw A B NULL = NULL"
  by (simp add: sw_def)

lemma root_map_sw: "A \<noteq> NULL \<Longrightarrow> B \<noteq> NULL \<Longrightarrow> root (map_tree (sw A B) t) = sw A B (root t)"
  by (cases t) simp_all

lemma tree_at_renamed:
  assumes "A \<noteq> NULL" "B \<noteq> NULL"
  shows "tree_at h q t \<Longrightarrow> tree_at (renamed A B h) (sw A B q) (map_tree (sw A B) t)"
proof (induction t arbitrary: q)
  case (Node l x r)
  then show ?case using assms by (auto simp: renamed_def root_map_sw) (auto simp: sw_def split: if_splits)
qed simp

lemma inj_sw: "inj (sw A B)"
  by (rule injI) (metis sw_simps(3))

lemma is_tree_renamed:
  assumes "is_tree h t" "A \<noteq> NULL" "B \<noteq> NULL"
  shows "is_tree (renamed A B h) (map_tree (sw A B) t)"
  using assms tree_at_renamed [OF assms(2,3), of h "root t" t]
  by (simp add: is_tree_def root_map_sw inorder_map distinct_map inj_on_subset [OF inj_sw])


lemma FixFour_Parent:
  "Parent (FixParent (FixParent (FixParent (FixParent h a A) b A) c B) d B y) =
     (if y \<noteq> NULL \<and> (y = c \<or> y = d) then B else if y \<noteq> NULL \<and> (y = a \<or> y = b) then A else Parent (h y))"
  by (simp add: link_simps)

lemma swap_finish:
  assumes S: "linked h S" "A \<in> S" "B \<in> S" "A \<noteq> B" "Parent (h B) \<noteq> A" "Parent (h A) \<noteq> A"
    and ch: "\<And>y. y \<in> S \<Longrightarrow> LeftChild (h2 y) = sw A B (LeftChild (h (sw A B y))) \<and>
        RightChild (h2 y) = sw A B (RightChild (h (sw A B y)))"
    and par: "\<And>y. y \<in> S \<Longrightarrow> y \<noteq> A \<Longrightarrow> y \<noteq> B \<Longrightarrow> Parent (h2 y) = Parent (h y)"
    and A: "Parent (h2 A) = sw A B (Parent (h B))"
    and B: "Parent (h A) \<noteq> B \<Longrightarrow> Parent (h2 B) = Parent (h A)"
    and y: "y \<in> S"
  shows "FixParent (FixParent (FixParent (FixParent h2 (LeftChild (h2 A)) A) (RightChild (h2 A)) A)
      (LeftChild (h2 B)) B) (RightChild (h2 B)) B y = renamed A B h y"
proof -
  note L = linkedD [OF S(1)]
  have y0: "y \<noteq> NULL" "A \<noteq> NULL" "B \<noteq> NULL" using L(1) y S(2,3) by metis+
  have chA: "LeftChild (h2 A) = sw A B (LeftChild (h B))" "RightChild (h2 A) = sw A B (RightChild (h B))"
    "LeftChild (h2 B) = sw A B (LeftChild (h A))" "RightChild (h2 B) = sw A B (RightChild (h A))"
    using ch S by simp_all
  have nA: "LeftChild (h A) \<noteq> A" "RightChild (h A) \<noteq> A" "LeftChild (h A) \<noteq> B" "RightChild (h A) \<noteq> B"
    "LeftChild (h B) \<noteq> B" "RightChild (h B) \<noteq> B"
    using L(2,3) [OF S(2)] L(2,3) [OF S(3)] S(5) y0 by auto
  have kid: "v = LeftChild (h p) \<or> v = RightChild (h p) \<longleftrightarrow> Parent (h v) = p" if v: "v \<in> S" "p \<in> S" "v \<noteq> p" for v p
  proof
    have "v \<noteq> NULL" using v(1) L(1) by metis
    then show "v = LeftChild (h p) \<or> v = RightChild (h p) \<Longrightarrow> Parent (h v) = p" using L(2,3) [OF v(2)] by auto
    show "Parent (h v) = p \<Longrightarrow> v = LeftChild (h p) \<or> v = RightChild (h p)" using L(4) [OF v(1)] v(3) by auto
  qed
  have swv: "v = sw A B w \<longleftrightarrow> sw A B v = w" for v w by (metis sw_simps(3))
  consider "y = A" | "y = B" | "y \<noteq> A" "y \<noteq> B" by blast
  then have P: "(if y = LeftChild (h2 B) \<or> y = RightChild (h2 B) then B
      else if y = LeftChild (h2 A) \<or> y = RightChild (h2 A) then A else Parent (h2 y)) = sw A B (Parent (h (sw A B y)))"
  proof cases
    case 1
    then show ?thesis using nA A by (simp add: chA swv eq_commute [of B])
  next
    case 2
    then show ?thesis
      using nA kid [OF S(2,3,4)] B S(4-6) by (auto simp: chA swv eq_commute [of A "LeftChild _"]) (auto simp: sw_def)
  next
    case 3
    then have e: "sw A B y = y" by (simp add: sw_def)
    show ?thesis
      unfolding chA swv e kid [OF y S(2) 3(1)] kid [OF y S(3) 3(2)] par [OF y 3] by (simp add: sw_def)
  qed
  show ?thesis
  proof (rule RTL_SPLAY_LINKS.equality)
    show "Parent (FixParent (FixParent (FixParent (FixParent h2 (LeftChild (h2 A)) A) (RightChild (h2 A)) A)
      (LeftChild (h2 B)) B) (RightChild (h2 B)) B y) = Parent (renamed A B h y)"
      by (simp only: FixFour_Parent y0(1) simp_thms not_False_eq_True P renamed_def RTL_SPLAY_LINKS.simps)
  qed (use ch [OF y] in \<open>simp_all add: renamed_def link_simps\<close>)
qed


lemma slot_child:
  assumes "linked h S" "v \<in> S" "Parent (h v) \<noteq> v"
  shows "get_slot h (ParentsChildPointerAddress h v) = v"
  using assms by (auto simp: linked_def ParentsChildPointerAddress_def RtlIsLeftChild_def)

lemma slot_unique:
  assumes S: "linked h S" and v: "v \<in> S" "Parent (h v) \<noteq> v" and y: "y \<in> S"
  shows "LeftChild (h y) = v \<longleftrightarrow> ParentsChildPointerAddress h v = LeftSlot y"
    "RightChild (h y) = v \<longleftrightarrow> ParentsChildPointerAddress h v = RightSlot y"
proof -
  have n: "v \<noteq> NULL" using S v(1) unfolding linked_def by metis
  have y1: "LeftChild (h y) \<noteq> NULL \<Longrightarrow> Parent (h (LeftChild (h y))) = y \<and> LeftChild (h y) \<noteq> RightChild (h y)"
    "RightChild (h y) \<noteq> NULL \<Longrightarrow> Parent (h (RightChild (h y))) = y"
    using S y unfolding linked_def by blast+
  have c: "LeftChild (h (Parent (h v))) = v \<or> RightChild (h (Parent (h v))) = v"
    using S v unfolding linked_def by blast
  show "LeftChild (h y) = v \<longleftrightarrow> ParentsChildPointerAddress h v = LeftSlot y"
    using y1(1) n by (auto simp: ParentsChildPointerAddress_def RtlIsLeftChild_def)
  show "RightChild (h y) = v \<longleftrightarrow> ParentsChildPointerAddress h v = RightSlot y"
    using y1 n c by (auto simp: ParentsChildPointerAddress_def RtlIsLeftChild_def)
qed

lemma slot_fields [link_simps]:
  "Parent (put_slot h s v x) = Parent (h x)"
  "LeftChild (put_slot h s v x) = (if s = LeftSlot x then v else LeftChild (h x))"
  "RightChild (put_slot h s v x) = (if s = RightSlot x then v else RightChild (h x))"
  by (cases s; simp add: link_simps)+

lemma SwapSlots_fields [link_simps]:
  "Parent (SwapSlots h s t x) = Parent (h x)"
  "LeftChild (SwapSlots h s t x) = (if t = LeftSlot x then get_slot h s
     else if s = LeftSlot x then get_slot h t else LeftChild (h x))"
  "RightChild (SwapSlots h s t x) = (if t = RightSlot x then get_slot h s
     else if s = RightSlot x then get_slot h t else RightChild (h x))"
  by (simp_all add: SwapSlots_def Let_def link_simps)

lemma SwapChildren_fields [link_simps]:
  assumes "A \<noteq> B"
  shows "Parent (SwapChildren h A B x) = Parent (h x)"
    "LeftChild (SwapChildren h A B x) = LeftChild (h (sw A B x))"
    "RightChild (SwapChildren h A B x) = RightChild (h (sw A B x))"
  using assms by (auto simp: SwapChildren_def link_simps sw_def)

lemma SwapParents_fields [link_simps]:
  "Parent (SwapParents h A B x) = Parent (h (sw A B x))"
  "LeftChild (SwapParents h A B x) = LeftChild (h x)"
  "RightChild (SwapParents h A B x) = RightChild (h x)"
  by (auto simp: SwapParents_def Let_def link_simps sw_def)

lemma SwapDistant_fields:
  assumes S: "linked h S" "A \<in> S" "B \<in> S" "A \<noteq> B" "Parent (h B) \<noteq> A" "Parent (h A) \<noteq> A" "Parent (h A) \<noteq> B"
  shows "\<And>y. y \<in> S \<Longrightarrow> LeftChild (SwapDistant h A B y) = sw A B (LeftChild (h (sw A B y))) \<and>
        RightChild (SwapDistant h A B y) = sw A B (RightChild (h (sw A B y)))"
    "\<And>y. y \<in> S \<Longrightarrow> y \<noteq> A \<Longrightarrow> y \<noteq> B \<Longrightarrow> Parent (SwapDistant h A B y) = Parent (h y)"
    "Parent (SwapDistant h A B A) = sw A B (Parent (h B))"
    "Parent (SwapDistant h A B B) = Parent (h A)"
proof -
  have sS: "sw A B y \<in> S" if "y \<in> S" for y using that S by (simp add: sw_def)
  note uA = slot_unique [OF S(1,2,6)]
  have nB: "Parent (h B) = B \<Longrightarrow> LeftChild (h y) \<noteq> B \<and> RightChild (h y) \<noteq> B" if "y \<in> S" for y
    using S(1,3) that unfolding linked_def by metis
  show "LeftChild (SwapDistant h A B y) = sw A B (LeftChild (h (sw A B y))) \<and>
        RightChild (SwapDistant h A B y) = sw A B (RightChild (h (sw A B y)))" if y: "y \<in> S" for y
  proof (cases "RtlIsRoot h B")
    case True
    then have "Parent (h B) = B" by (simp add: RtlIsRoot_def)
    then show ?thesis
      using True uA [OF sS [OF y]] nB [OF sS [OF y]] S(4)
      by (auto simp: SwapDistant_def Let_def link_simps sw_def [of A B "LeftChild _"] sw_def [of A B "RightChild _"])
  next
    case False
    then have r: "Parent (h B) \<noteq> B" by (simp add: RtlIsRoot_def)
    note uB = slot_unique [OF S(1,3) r]
    show ?thesis
      using False uA [OF sS [OF y]] uB [OF sS [OF y]] S(4) slot_child [OF S(1,2,6)] slot_child [OF S(1,3) r]
      by (auto simp: SwapDistant_def Let_def link_simps sw_def [of A B "LeftChild _"] sw_def [of A B "RightChild _"])
  qed
  show "\<And>y. y \<in> S \<Longrightarrow> y \<noteq> A \<Longrightarrow> y \<noteq> B \<Longrightarrow> Parent (SwapDistant h A B y) = Parent (h y)"
    "Parent (SwapDistant h A B A) = sw A B (Parent (h B))"
    "Parent (SwapDistant h A B B) = Parent (h A)"
    using S(4-7) by (auto simp: SwapDistant_def Let_def link_simps RtlIsRoot_def sw_def)
qed

lemma SwapAdjacent_fields:
  assumes S: "linked h S" "A \<in> S" "B \<in> S" "A \<noteq> B" "Parent (h B) \<noteq> A" "Parent (h A) = B"
  shows "\<And>y. y \<in> S \<Longrightarrow> LeftChild (SwapAdjacent h A B y) = sw A B (LeftChild (h (sw A B y))) \<and>
        RightChild (SwapAdjacent h A B y) = sw A B (RightChild (h (sw A B y)))"
    "\<And>y. y \<in> S \<Longrightarrow> y \<noteq> A \<Longrightarrow> y \<noteq> B \<Longrightarrow> Parent (SwapAdjacent h A B y) = Parent (h y)"
    "Parent (SwapAdjacent h A B A) = sw A B (Parent (h B))"
proof -
  note L0 = linkedD(1-3) [OF S(1)]
  have "LeftChild (h B) = A \<or> RightChild (h B) = A" using linkedD(4) [OF S(1,2)] S(4,6) by simp
  note L = L0 this
  have n0: "A \<noteq> NULL" "B \<noteq> NULL" using L(1) S(2,3) by metis+
  have own: "LeftChild (h y) \<noteq> A \<and> RightChild (h y) \<noteq> A" if "y \<in> S" "y \<noteq> B" for y
    using L(2,3) [OF that(1)] S(6) that(2) n0 by auto
  have self: "LeftChild (h A) \<noteq> B" "RightChild (h A) \<noteq> B" "LeftChild (h B) \<noteq> B" "RightChild (h B) \<noteq> B"
    using L(2,3) [OF S(2)] L(2,3) [OF S(3)] S(5) n0 by auto
  have one: "LeftChild (h B) = A \<Longrightarrow> RightChild (h B) \<noteq> A" using L(2) [OF S(3)] n0 by auto
  have nB: "Parent (h B) = B \<Longrightarrow> LeftChild (h y) \<noteq> B \<and> RightChild (h y) \<noteq> B" if "y \<in> S" for y
    using L(2,3) [OF that] L(2,3) [OF S(3)] n0 self by metis
  show "LeftChild (SwapAdjacent h A B y) = sw A B (LeftChild (h (sw A B y))) \<and>
        RightChild (SwapAdjacent h A B y) = sw A B (RightChild (h (sw A B y)))" if y: "y \<in> S" for y
  proof (cases "RtlIsRoot h B")
    case True
    then have "Parent (h B) = B" by (simp add: RtlIsRoot_def)
    note nB' = nB [OF y this]
    consider "y = A" | "y = B" | "y \<noteq> A" "y \<noteq> B" by blast
    then show ?thesis
    proof cases
      case 1
      then show ?thesis
        using True S(4) L(4) self one by (auto simp: SwapAdjacent_def Let_def link_simps sw_def)
    next
      case 2
      then show ?thesis
        using True S(4) L(4) self one own [OF S(2,4)] by (auto simp: SwapAdjacent_def Let_def link_simps sw_def)
    next
      case 3
      then show ?thesis
        using True S(4) own [OF y 3(2)] nB' by (auto simp: SwapAdjacent_def Let_def link_simps sw_def)
    qed
  next
    case False
    then have r: "Parent (h B) \<noteq> B" by (simp add: RtlIsRoot_def)
    note uB = slot_unique [OF S(1,3) r]
    consider "y = A" | "y = B" | "y \<noteq> A" "y \<noteq> B" by blast
    then show ?thesis
    proof cases
      case 1
      then show ?thesis
        using False S(4) L(4) self one uB [OF S(3)] uB [OF S(2)]
        by (auto simp: SwapAdjacent_def Let_def link_simps sw_def)
    next
      case 2
      then show ?thesis
        using False S(4) L(4) self one own [OF S(2,4)] uB [OF S(3)] uB [OF S(2)]
        by (auto simp: SwapAdjacent_def Let_def link_simps sw_def)
    next
      case 3
      then show ?thesis
        using False S(4) own [OF y 3(2)] uB [OF y] by (auto simp: SwapAdjacent_def Let_def link_simps sw_def)
    qed
  qed
  show "\<And>y. y \<in> S \<Longrightarrow> y \<noteq> A \<Longrightarrow> y \<noteq> B \<Longrightarrow> Parent (SwapAdjacent h A B y) = Parent (h y)"
    "Parent (SwapAdjacent h A B A) = sw A B (Parent (h B))"
    using S(4-6) by (auto simp: SwapAdjacent_def Let_def link_simps RtlIsRoot_def sw_def)
qed

definition swap_core :: "links_heap \<Rightarrow> ptr \<Rightarrow> ptr \<Rightarrow> links_heap" where
  "swap_core h A B = (if Parent (h A) \<noteq> B then SwapDistant h A B else SwapAdjacent h A B)"

lemma SwapSplayLinks_eq:
  assumes "Parent (h B) \<noteq> A" "Parent (h A) \<noteq> A"
  defines "k \<equiv> swap_core h A B"
  shows "SwapSplayLinks h A B =
    FixParent (FixParent (FixParent (FixParent k (LeftChild (k A)) A) (RightChild (k A)) A) (LeftChild (k B)) B) (RightChild (k B)) B"
  using assms by (simp add: SwapSplayLinks_def Let_def RtlIsRoot_def link_simps swap_core_def)

lemma swap_core_fields:
  assumes S: "linked h S" "A \<in> S" "B \<in> S" "A \<noteq> B" "Parent (h B) \<noteq> A" "Parent (h A) \<noteq> A"
  shows "\<And>y. y \<in> S \<Longrightarrow> LeftChild (swap_core h A B y) = sw A B (LeftChild (h (sw A B y))) \<and>
        RightChild (swap_core h A B y) = sw A B (RightChild (h (sw A B y)))"
    "\<And>y. y \<in> S \<Longrightarrow> y \<noteq> A \<Longrightarrow> y \<noteq> B \<Longrightarrow> Parent (swap_core h A B y) = Parent (h y)"
    "Parent (swap_core h A B A) = sw A B (Parent (h B))"
    "Parent (h A) \<noteq> B \<Longrightarrow> Parent (swap_core h A B B) = Parent (h A)"
  using SwapDistant_fields [OF S] SwapAdjacent_fields [OF S(1-5)] by (simp_all add: swap_core_def)

lemma SwapSplayLinks_renamed:
  assumes S: "linked h S" "A \<in> S" "B \<in> S" "A \<noteq> B" "Parent (h B) \<noteq> A" "Parent (h A) \<noteq> A" and y: "y \<in> S"
  shows "SwapSplayLinks h A B y = renamed A B h y"
  unfolding SwapSplayLinks_eq [OF S(5,6)] by (rule swap_finish [OF S swap_core_fields [OF S] y])

lemma SwapSplayLinks_frame:
  assumes S: "linked h S" "A \<in> S" "B \<in> S" "A \<noteq> B" "Parent (h B) \<noteq> A" "Parent (h A) \<noteq> A" and y: "y \<notin> S"
  shows "SwapSplayLinks h A B y = h y"
proof -
  let ?h2 = "swap_core h A B"
  have pS: "Parent (h A) \<in> S" "Parent (h B) \<in> S" using S(1-3) unfolding linked_def by blast+
  have yAB: "y \<noteq> A" "y \<noteq> B" "y \<noteq> Parent (h A)" "y \<noteq> Parent (h B)" using S(2,3) pS y by auto
  then have slot: "ParentsChildPointerAddress h A \<noteq> LeftSlot y" "ParentsChildPointerAddress h A \<noteq> RightSlot y"
    "ParentsChildPointerAddress h B \<noteq> LeftSlot y" "ParentsChildPointerAddress h B \<noteq> RightSlot y"
    by (auto simp: ParentsChildPointerAddress_def)
  have h2: "?h2 y = h y"
    using yAB slot S(4) by (intro RTL_SPLAY_LINKS.equality)
      (auto simp: swap_core_def SwapDistant_def SwapAdjacent_def Let_def link_simps sw_def)
  have kid: "sw A B v \<in> S \<or> v = NULL" if "v \<in> S \<or> v = NULL" for v using that S(2,3) by (auto simp: sw_def)
  have chS: "LeftChild (h v) \<in> S \<or> LeftChild (h v) = NULL" "RightChild (h v) \<in> S \<or> RightChild (h v) = NULL" if "v \<in> S" for v
    using linkedD(2,3) [OF S(1) that] by blast+
  note fields = swap_core_fields(1) [OF S]
  have n0: "A \<noteq> NULL" "B \<noteq> NULL" using linkedD(1) [OF S(1)] S(2,3) by metis+
  have "y \<noteq> v" if "v \<in> {LeftChild (?h2 A), RightChild (?h2 A), LeftChild (?h2 B), RightChild (?h2 B)}" "v \<noteq> NULL" for v
    using that kid [OF chS(1) [OF S(2)]] kid [OF chS(2) [OF S(2)]] kid [OF chS(1) [OF S(3)]] kid [OF chS(2) [OF S(3)]]
      fields [OF S(2)] fields [OF S(3)] y n0 by auto
  then have "FixParent (FixParent (FixParent (FixParent ?h2 (LeftChild (?h2 A)) A)
      (RightChild (?h2 A)) A) (LeftChild (?h2 B)) B) (RightChild (?h2 B)) B y = ?h2 y"
    by (intro RTL_SPLAY_LINKS.equality) (auto simp: FixFour_Parent link_simps)
  then show ?thesis unfolding SwapSplayLinks_eq [OF S(5,6)] h2 .
qed

end
