(* ===== verification/Splay_Delete.thy ===== *)
theory Splay_Delete
  imports Splay_Swap
begin

text \<open>
  Successors, predecessors and \<open>RtlDelete\<close> on the inorder sequence of a tree, and the
  properties of the splay links.
\<close>

section \<open>Walking along the links\<close>

lemma Leftmost_hd: "tree_at h q t \<Longrightarrow> t \<noteq> Leaf \<Longrightarrow> Leftmost h (root t) = Some (hd (inorder t))"
proof (induction t arbitrary: q)
  case (Node l x r)
  have "l \<noteq> Leaf \<Longrightarrow> inorder l \<noteq> []" by (cases l) auto
  then show ?case using Node root_null [of h x l] by (subst Leftmost.simps) auto
qed simp

lemma Rightmost_last:
  "tree_at h q t \<Longrightarrow> t \<noteq> Leaf \<Longrightarrow> Rightmost h (root t) = Some (last (inorder t)) \<and> RightChild (h (last (inorder t))) = NULL"
proof (induction t arbitrary: q)
  case (Node l x r)
  have "r \<noteq> Leaf \<Longrightarrow> inorder r \<noteq> []" by (cases r) auto
  then show ?case using Node root_null [of h x r] by (subst Rightmost.simps) auto
qed simp

definition first_ptr :: "ptr list \<Rightarrow> ptr" where
  "first_ptr xs = (case xs of [] \<Rightarrow> NULL | x # _ \<Rightarrow> x)"

definition last_ptr :: "ptr list \<Rightarrow> ptr" where
  "last_ptr xs = (if xs = [] then NULL else last xs)"

lemma not_own_child:
  assumes "is_tree h (plug (Node l x r) c)"
  shows "root l \<noteq> x" "root r \<noteq> x" "x \<noteq> NULL"
  using assms root_cases [of l] root_cases [of r] by (auto simp: is_tree_plug)

lemma at_top:
  assumes "is_tree h (Node l x r)"
  shows "\<not> RtlIsLeftChild h x" "\<not> RtlIsRightChild h x"
  using assms not_own_child [of h l x r "[]"]
  by (auto simp: is_tree_def RtlIsLeftChild_def RtlIsRightChild_def)

lemma ClimbRight_after:
  assumes "is_tree h (plug (Node l x r) c)"
  shows "\<exists>y. ClimbRight h x = Some y \<and> (if RtlIsLeftChild h y then Parent (h y) else NULL) = first_ptr (after c)"
  using assms
proof (induction c arbitrary: l x r)
  case Nil
  then show ?case using at_top [of h l x r] by (subst ClimbRight.simps) (simp add: first_ptr_def)
next
  case (Cons f c)
  note at = at_left [OF Cons.prems]
  show ?case
  proof (cases f)
    case (LF p s)
    then show ?thesis using at by (subst ClimbRight.simps) (simp add: first_ptr_def)
  next
    case (RF s p)
    then have "is_tree h (plug (Node s p (Node l x r)) c)" using Cons.prems by simp
    from Cons.IH [OF this] show ?thesis using at RF by (subst ClimbRight.simps) simp
  qed
qed

lemma ClimbLeft_before:
  assumes "is_tree h (plug (Node l x r) c)"
  shows "\<exists>y. ClimbLeft h x = Some y \<and> (if RtlIsRightChild h y then Parent (h y) else NULL) = last_ptr (before c)"
  using assms
proof (induction c arbitrary: l x r)
  case Nil
  then show ?case using at_top [of h l x r] by (subst ClimbLeft.simps) (simp add: last_ptr_def)
next
  case (Cons f c)
  note at = at_left [OF Cons.prems]
  show ?case
  proof (cases f)
    case (LF p s)
    then have "is_tree h (plug (Node (Node l x r) p s) c)" using Cons.prems by simp
    from Cons.IH [OF this] show ?thesis using at LF by (subst ClimbLeft.simps) simp
  next
    case (RF s p)
    then show ?thesis using at by (subst ClimbLeft.simps) (simp add: last_ptr_def)
  qed
qed

lemma links_of:
  assumes "is_tree h (plug (Node l x r) c)"
  shows "LeftChild (h x) = root l" "RightChild (h x) = root r" "tree_at h x l" "tree_at h x r"
  using assms by (simp_all add: is_tree_plug)

lemma first_ptr_append: "xs \<noteq> [] \<Longrightarrow> first_ptr (xs @ ys) = hd xs"
  by (cases xs) (simp_all add: first_ptr_def)

lemma RealSuccessor_zip:
  assumes "is_tree h (plug (Node l x r) c)"
  shows "RtlRealSuccessor h x = Some (first_ptr (inorder r @ after c))"
proof (cases "r = Leaf")
  case True
  then show ?thesis
    using ClimbRight_after [OF assms] links_of [OF assms] by (auto simp: RtlRealSuccessor_def)
next
  case False
  then have "inorder r \<noteq> []" by (cases r) auto
  then show ?thesis
    using Leftmost_hd [OF links_of(4) [OF assms] False] links_of [OF assms] root_null [OF links_of(4) [OF assms]] False
    by (simp add: RtlRealSuccessor_def first_ptr_append)
qed

lemma RealPredecessor_zip:
  assumes "is_tree h (plug (Node l x r) c)"
  shows "RtlRealPredecessor h x = Some (last_ptr (before c @ inorder l))"
proof (cases "l = Leaf")
  case True
  then show ?thesis
    using ClimbLeft_before [OF assms] links_of [OF assms] by (auto simp: RtlRealPredecessor_def)
next
  case False
  then have "inorder l \<noteq> []" by (cases l) auto
  then show ?thesis
    using Rightmost_last [OF links_of(3) [OF assms] False] links_of [OF assms] root_null [OF links_of(3) [OF assms]] False
    by (simp add: RtlRealPredecessor_def last_ptr_def)
qed

lemma split_unique:
  assumes "distinct (xs @ x # ys)" "xs @ x # ys = xs' @ x # ys'"
  shows "xs = xs' \<and> ys = ys'"
  using assms by (metis append_Cons_eq_iff distinct_append not_distinct_conv_prefix distinct.simps(2) Un_iff set_append)

lemma zip_at:
  assumes "is_tree h t" "inorder t = xs @ x # ys"
  obtains l r c where "t = plug (Node l x r) c" "xs = before c @ inorder l" "ys = inorder r @ after c"
proof -
  have "x \<in> set_tree t" using assms(2) set_inorder [of t] by auto
  then obtain l r c where t: "t = plug (Node l x r) c" using zipper by blast
  have "(before c @ inorder l) @ x # (inorder r @ after c) = xs @ x # ys"
    using assms(2) by (simp add: t inorder_plug)
  moreover have "distinct ((before c @ inorder l) @ x # (inorder r @ after c))"
    using assms(1) by (simp add: t is_tree_plug)
  ultimately have "before c @ inorder l = xs \<and> inorder r @ after c = ys" by (intro split_unique)
  then show thesis by (intro that [OF t]) simp_all
qed

section \<open>RtlDelete\<close>

definition tree_result :: "links_heap \<Rightarrow> ptr set \<Rightarrow> ptr list \<Rightarrow> (links_heap \<times> ptr) option \<Rightarrow> bool" where
  \<comment> \<open>the routine returned the root of a tree with inorder \<open>xs\<close>; memory outside \<open>K\<close> is as in \<open>h\<close>\<close>
  "tree_result h K xs res \<longleftrightarrow>
     (\<exists>h' t. res = Some (h', root t) \<and> is_tree h' t \<and> inorder t = xs \<and> (\<forall>y. y \<notin> K \<longrightarrow> h' y = h y))"

lemma splay_result:
  assumes "is_tree h t" "x \<in> set_tree t"
  shows "tree_result h (set_tree t) (inorder t) (RtlSplay h x)"
proof -
  obtain l r c where t: "t = plug (Node l x r) c" using zipper [OF assms(2)] by blast
  obtain h' where "RtlSplay h x = Some (h', x)" "splayed h h' (splay_up l x r c)"
    using RtlSplay_refines [of h l x r c] assms(1) t by auto
  then show ?thesis
    using inorder_splay_up [of l x r c] root_splay_up [of l x r c]
    unfolding tree_result_def t splayed_def set_inorder [symmetric] by metis
qed

lemma tree_result_frame:
  assumes "tree_result h' K xs res" "\<And>y. y \<notin> K' \<Longrightarrow> h' y = h y" "K \<subseteq> K'"
  shows "tree_result h K' xs res"
proof -
  obtain h'' t where r: "res = Some (h'', root t)" "is_tree h'' t" "inorder t = xs" "\<forall>y. y \<notin> K \<longrightarrow> h'' y = h' y"
    using assms(1) unfolding tree_result_def by blast
  then have "\<forall>y. y \<notin> K' \<longrightarrow> h'' y = h y" using assms(2,3) by auto
  then show ?thesis using r unfolding tree_result_def by blast
qed

lemma unlink_tree:
  \<comment> \<open>a node with at most one child is replaced by that child\<close>
  assumes tree: "is_tree h (plug (Node l x r) (f # c))" and one: "l = Leaf \<and> s = r \<or> r = Leaf \<and> s = l"
  defines "h' \<equiv> FixParent (put_slot h (hole_slot f) (root s)) (root s) (frame_ptr f)"
  shows "is_tree h' (plug s (f # c))" "\<And>y. y \<notin> set (inorder (plug s (f # c))) \<Longrightarrow> h' y = h y"
proof -
  have D: "distinct (before (f # c) @ inorder l @ x # inorder r @ after (f # c))"
    and T: "tree_at h x l" "tree_at h x r" and C: "ctx_at h x (f # c)"
    using tree by (simp_all add: is_tree_plug del: before.simps after.simps ctx_at.simps)
  have D': "distinct (before (f # c) @ inorder s @ after (f # c))"
    using D one by (auto simp del: before.simps after.simps)
  have s: "tree_at h x s" using T one by auto
  have fp: "frame_ptr f \<in> ctx_set (f # c)" by (rule frame_ptr_in)
  have sep: "y \<notin> set_tree s" if "y \<in> ctx_set (f # c)" for y
    using that D' by (auto simp del: before.simps after.simps)
  have rs: "root s \<notin> ctx_set (f # c)"
    using root_cases [of s] sep ctx_at_nonnull [OF C] by metis
  have "ctx_at h' (root s) (f # c)"
  proof (rule ctx_at_frame)
    show "ctx_at (put_slot h (hole_slot f) (root s)) (root s) (f # c)"
      using D' by (intro put_hole [OF C]) (auto simp del: before.simps after.simps)
    show "h' y = put_slot h (hole_slot f) (root s) y" if "y \<in> ctx_set (f # c)" for y
      using that rs unfolding h'_def by (intro FixParent_other) auto
  qed
  moreover have "tree_at h' (frame_ptr f) s"
  proof (rule tree_at_reparent [OF s])
    show "distinct (inorder s)" using D' by simp
    have ne: "hole_slot f \<noteq> LeftSlot y" "hole_slot f \<noteq> RightSlot y" if "y \<in> set_tree s" for y
      using that sep [OF fp] by (cases f; auto)+
    show "Parent (h' (root s)) = frame_ptr f \<and> LeftChild (h' (root s)) = LeftChild (h (root s)) \<and>
        RightChild (h' (root s)) = RightChild (h (root s))" if "s \<noteq> Leaf"
      using root_null [OF s] that ne [OF root_in [OF that]] by (simp add: h'_def link_simps)
    show "h' y = h y" if "y \<in> set_tree s" "y \<noteq> root s" for y
      using that ne [OF that(1)] by (intro RTL_SPLAY_LINKS.equality) (simp_all add: h'_def link_simps)
  qed
  ultimately show "is_tree h' (plug s (f # c))"
    using D' unfolding is_tree_plug by simp
  show "h' y = h y" if "y \<notin> set (inorder (plug s (f # c)))" for y
  proof -
    have y: "y \<noteq> frame_ptr f" "y \<notin> set_tree s"
      using that fp by (auto simp: inorder_plug simp del: plug.simps before.simps after.simps)
    have "hole_slot f \<noteq> LeftSlot y" "hole_slot f \<noteq> RightSlot y" using y(1) by (cases f; simp)+
    then show ?thesis
      using y(2) root_cases [of s] by (intro RTL_SPLAY_LINKS.equality) (auto simp: h'_def link_simps)
  qed
qed

lemma DeleteAtMostOneChild_result:
  assumes tree: "is_tree h (plug (Node l x r) c)" and one: "l = Leaf \<and> s = r \<or> r = Leaf \<and> s = l"
  shows "tree_result h (set (before c @ inorder s @ after c)) (before c @ inorder s @ after c) (DeleteAtMostOneChild h x)"
proof -
  note lk = links_of [OF tree]
  have s: "tree_at h x s" using lk one by auto
  have leaf: "LeftChild (h x) = NULL \<and> RightChild (h x) = NULL \<longleftrightarrow> s = Leaf"
    using lk one root_null [OF lk(3)] root_null [OF lk(4)] by auto
  have child: "(if LeftChild (h x) \<noteq> NULL then LeftChild (h x) else RightChild (h x)) = root s"
    using lk one root_null [OF lk(3)] root_null [OF lk(4)] by auto
  show ?thesis
  proof (cases c)
    case Nil
    then have rt: "RtlIsRoot h x" using at_root [OF tree] by simp
    show ?thesis
    proof (cases "s = Leaf")
      case True
      then have "DeleteAtMostOneChild h x = Some (h, NULL)" using leaf rt by (simp add: DeleteAtMostOneChild_def)
      then show ?thesis using Nil True
        unfolding tree_result_def by (intro exI [of _ h] exI [of _ Leaf]) (simp add: is_tree_def)
    next
      case False
      let ?h = "put_Parent h (root s) (root s)"
      have d: "distinct (inorder s)" using tree one by (auto simp: is_tree_plug)
      have "tree_at ?h (root s) s"
        by (rule tree_at_reparent [OF s d]) (simp_all add: link_simps)
      then have "is_tree ?h s" using d by (simp add: is_tree_def)
      moreover have "DeleteAtMostOneChild h x = Some (?h, root s)"
        using False leaf child rt by (auto simp: DeleteAtMostOneChild_def Let_def)
      moreover have "?h y = h y" if "y \<notin> set (inorder s)" for y
        using that root_in [OF False] by (intro put_other) auto
      ultimately show ?thesis using Nil unfolding tree_result_def by (intro exI [of _ ?h] exI [of _ s]) simp
    qed
  next
    case (Cons f d)
    note at = at_left [OF tree [unfolded Cons]]
    have tr: "is_tree h (plug (Node l x r) (f # d))" using tree Cons by simp
    have C: "ctx_at h x (f # d)" "x \<notin> ctx_set (f # d)"
      using tr by (auto simp: is_tree_plug simp del: plug.simps before.simps after.simps ctx_at.simps)
    have nr: "\<not> RtlIsRoot h x" using at_root [OF tree] Cons by simp
    have slot: "ParentsChildPointerAddress h x = hole_slot f"
      using hole_slot_address [OF C(1) not_own_child(3) [OF tree] C(2) at(3)] .
    define h' where "h' = FixParent (put_slot h (hole_slot f) (root s)) (root s) (frame_ptr f)"
    note u = unlink_tree [OF tr one, folded h'_def]
    have "frame_ptr f \<in> set (inorder (plug s (f # d)))"
      using frame_ptr_in [of f d] by (auto simp: inorder_plug simp del: plug.simps before.simps after.simps)
    then have "tree_result h' (set_tree (plug s (f # d))) (inorder (plug s (f # d))) (RtlSplay h' (frame_ptr f))"
      by (intro splay_result u(1)) simp
    then have "tree_result h (set (inorder (plug s (f # d)))) (inorder (plug s (f # d))) (RtlSplay h' (frame_ptr f))"
      by (rule tree_result_frame) (use u(2) in auto)
    moreover have "DeleteAtMostOneChild h x = RtlSplay h' (frame_ptr f)"
    proof (cases "s = Leaf")
      case True
      then show ?thesis using leaf nr slot at(3) by (simp add: DeleteAtMostOneChild_def h'_def FixParent_def)
    next
      case False
      then have "root s \<noteq> NULL" using root_null [OF s] by simp
      then show ?thesis
        using False leaf child nr slot at(3)
        by (auto simp: DeleteAtMostOneChild_def Let_def h'_def FixParent_def link_simps)
    qed
    ultimately show ?thesis unfolding Cons inorder_plug by simp
  qed
qed

lemma tree_at_no_loop:
  "tree_at h q t \<Longrightarrow> distinct (inorder t) \<Longrightarrow> q \<notin> set_tree t \<Longrightarrow> p \<in> set_tree t \<Longrightarrow> Parent (h p) \<noteq> p"
  by (induction t arbitrary: q) auto

lemma RtlDelete_result:
  assumes tree: "is_tree h t" and io: "inorder t = xs @ x # ys"
  shows "tree_result h (set_tree t) (xs @ ys) (RtlDelete h x)"
proof -
  obtain l r c where z: "t = plug (Node l x r) c" "xs = before c @ inorder l" "ys = inorder r @ after c"
    by (rule zip_at [OF tree io])
  have tr: "is_tree h (plug (Node l x r) c)" using tree z(1) by simp
  note lk = links_of [OF tr]
  have two: "LeftChild (h x) \<noteq> NULL \<and> RightChild (h x) \<noteq> NULL \<longleftrightarrow> l \<noteq> Leaf \<and> r \<noteq> Leaf"
    using lk root_null [OF lk(3)] root_null [OF lk(4)] by simp
  show ?thesis
  proof (cases "l = Leaf \<or> r = Leaf")
    case True
    then have "RtlDelete h x = DeleteAtMostOneChild h x"
      using two by (auto simp: RtlDelete_def DeleteTwoChildren_def)
    moreover have "tree_result h (set (xs @ ys)) (xs @ ys) (DeleteAtMostOneChild h x)"
      using DeleteAtMostOneChild_result [OF tr, of r] DeleteAtMostOneChild_result [OF tr, of l] True z(2,3) by auto
    moreover have "set (xs @ ys) \<subseteq> set_tree t" using io set_inorder [of t] by auto
    ultimately show ?thesis by (auto intro: tree_result_frame)
  next
    case False
    define p where "p = last (inorder l)"
    have ne: "inorder l \<noteq> []" using False by (cases l) auto
    have pl: "p \<in> set_tree l" using last_in_set [OF ne] by (simp add: p_def)
    have D: "distinct (before c @ inorder l @ x # inorder r @ after c)" using tr by (simp add: is_tree_plug)
    then have px: "p \<noteq> x" "x \<notin> set_tree l" "distinct (inorder l)" using pl by auto
    have pred: "RtlSubtreePredecessor h x = Some p" "RightChild (h p) = NULL"
      using Rightmost_last [OF lk(3)] two lk False by (simp_all add: RtlSubtreePredecessor_def p_def)
    define h1 where "h1 = SwapSplayLinks h p x"
    have del: "RtlDelete h x = DeleteAtMostOneChild h1 x"
      using two False pred by (simp add: RtlDelete_def DeleteTwoChildren_def h1_def)
    have S: "linked h (set_tree t)" by (rule tree_linked [OF tree])
    have mem: "p \<in> set_tree t" "x \<in> set_tree t"
      using io z pl set_inorder [of t] by auto
    have pp: "Parent (h p) \<noteq> p" using tree_at_no_loop [OF lk(3) px(3,2) pl] .
    have xp: "Parent (h x) \<noteq> p"
    proof (cases c)
      case Nil
      then show ?thesis using tr px by (simp add: is_tree_def)
    next
      case (Cons f d)
      then have "Parent (h x) = frame_ptr f" using at_left(3) tr by blast
      moreover have "frame_ptr f \<noteq> p"
        using D pl frame_ptr_in [of f d] Cons by (auto simp del: before.simps after.simps)
      ultimately show ?thesis by simp
    qed
    let ?t = "map_tree (sw p x) t"
    note ren = SwapSplayLinks_renamed [OF S mem px(1) xp pp, folded h1_def]
    have n0: "p \<noteq> NULL" "x \<noteq> NULL" using linkedD(1) [OF S] mem by metis+
    have st: "set_tree ?t = set_tree t"
      using mem by (force simp: tree.set_map sw_def image_iff)
    have "is_tree (renamed p x h) ?t" by (rule is_tree_renamed [OF tree n0])
    then have t1: "is_tree h1 ?t"
      using ren st tree_at_frame [of "renamed p x h" _ ?t h1] by (auto simp: is_tree_def)
    have "before c @ inorder l = before c @ butlast (inorder l) @ [p]" using ne by (simp add: p_def)
    then have xs: "xs = (before c @ butlast (inorder l)) @ [p]" using z(2) by simp
    have fix_sw: "map (sw p x) zs = zs" if "p \<notin> set zs" "x \<notin> set zs" for zs
      using that by (intro map_idI) (auto simp: sw_def)
    have Dt: "distinct ((before c @ butlast (inorder l)) @ [p] @ x # ys)"
      using tree io xs unfolding is_tree_def by (metis append.assoc append_Cons append_Nil)
    then have io1: "inorder ?t = (before c @ butlast (inorder l)) @ x # p # ys"
      unfolding inorder_map io xs map_append using fix_sw [of "before c"] fix_sw [of "butlast (inorder l)"] fix_sw [of ys]
      by auto
    obtain l1 r1 c1 where z1: "?t = plug (Node l1 x r1) c1" "before c @ butlast (inorder l) = before c1 @ inorder l1"
      "p # ys = inorder r1 @ after c1"
      by (rule zip_at [OF t1 io1])
    have tr1: "is_tree h1 (plug (Node l1 x r1) c1)" using t1 z1(1) by simp
    have "RightChild (h1 x) = NULL" using ren [OF mem(2)] pred(2) n0 by (simp add: renamed_def)
    then have "r1 = Leaf" using links_of(2,4) [OF tr1] root_null by metis
    then have "tree_result h1 (set (xs @ ys)) (xs @ ys) (DeleteAtMostOneChild h1 x)"
      using DeleteAtMostOneChild_result [OF tr1, of l1] z1(2,3) xs by simp
    then show ?thesis
      unfolding del using SwapSplayLinks_frame [OF S mem px(1) xp pp, folded h1_def] io set_inorder [of t]
      by (auto elim!: tree_result_frame)
  qed
qed

section \<open>Properties\<close>

text \<open>
  C6: \<open>RtlSplay\<close> returns, its result is the link it was given, and that link is the
  root of the tree the abstract bottom-up splay gives; the inorder sequence is the same and
  memory outside the tree is untouched.
\<close>

theorem RtlSplay_correct:
  assumes "is_tree h (plug (Node l x r) c)"
  shows "\<exists>h'. RtlSplay h x = Some (h', x) \<and> is_tree h' (splay_up l x r c) \<and>
    root (splay_up l x r c) = x \<and> inorder (splay_up l x r c) = inorder (plug (Node l x r) c) \<and>
    (\<forall>y. y \<notin> set_tree (plug (Node l x r) c) \<longrightarrow> h' y = h y)"
  using RtlSplay_refines [OF assms] inorder_splay_up [of l x r c] root_splay_up [of l x r c]
  unfolding splayed_def set_inorder [symmetric] by auto

definition three_links :: links_heap where
  \<comment> \<open>the left path 3 - 2 - 1, and a right child 4 of 3\<close>
  "three_links = (\<lambda>_. \<lparr>Parent = 0, LeftChild = 0, RightChild = 0\<rparr>)
     (3 := \<lparr>Parent = 3, LeftChild = 2, RightChild = 4\<rparr>,
      2 := \<lparr>Parent = 3, LeftChild = 1, RightChild = 0\<rparr>,
      1 := \<lparr>Parent = 2, LeftChild = 0, RightChild = 0\<rparr>,
      4 := \<lparr>Parent = 3, LeftChild = 0, RightChild = 0\<rparr>)"

lemma three_links_tree: "is_tree three_links (Node (Node (Node Leaf 1 Leaf) 2 Leaf) 3 (Node Leaf 4 Leaf))"
  by (simp add: is_tree_def three_links_def)

theorem RtlSplay_correct_witness:
  "\<exists>h'. RtlSplay three_links 1 = Some (h', 1) \<and>
     is_tree h' (Node Leaf 1 (Node Leaf 2 (Node Leaf 3 (Node Leaf 4 Leaf))))"
proof -
  have "is_tree three_links (plug (Node Leaf 1 Leaf) [LF 2 Leaf, LF 3 (Node Leaf 4 Leaf)])"
    using three_links_tree by simp
  from RtlSplay_correct [OF this] show ?thesis by auto
qed

text \<open>
  C7: \<open>RtlDelete\<close> returns the root of a tree whose inorder sequence is the old one
  without the deleted link, or null when that is empty; memory outside the tree is
  untouched.
\<close>

theorem RtlDelete_correct:
  assumes "is_tree h t" "inorder t = xs @ x # ys"
  shows "\<exists>h' t'. RtlDelete h x = Some (h', root t') \<and> is_tree h' t' \<and> inorder t' = xs @ ys \<and>
    (\<forall>y. y \<notin> set_tree t \<longrightarrow> h' y = h y)"
  using RtlDelete_result [OF assms] by (simp add: tree_result_def)

theorem RtlDelete_correct_witness:
  "\<exists>h' t'. RtlDelete three_links 3 = Some (h', root t') \<and> is_tree h' t' \<and> inorder t' = [1, 2, 4]"
  using RtlDelete_correct [OF three_links_tree, of "[1, 2]" 3 "[4]"] by auto

text \<open>
  C13: \<open>RtlRealSuccessor\<close> and \<open>RtlRealPredecessor\<close> return the neighbours of a link in
  the inorder sequence of its tree, and null at the two ends.
\<close>

theorem RtlReal_neighbours:
  assumes "is_tree h t" "inorder t = xs @ x # ys"
  shows "RtlRealSuccessor h x = Some (first_ptr ys) \<and> RtlRealPredecessor h x = Some (last_ptr xs)"
proof -
  obtain l r c where "t = plug (Node l x r) c" "xs = before c @ inorder l" "ys = inorder r @ after c"
    by (rule zip_at [OF assms])
  then show ?thesis using RealSuccessor_zip [of h l x r c] RealPredecessor_zip [of h l x r c] assms(1) by simp
qed

theorem RtlReal_neighbours_witness:
  "RtlRealSuccessor three_links 2 = Some 3 \<and> RtlRealPredecessor three_links 2 = Some 1"
  using RtlReal_neighbours [OF three_links_tree, of "[1]" 2 "[3, 4]"] by (simp add: first_ptr_def last_ptr_def)

end
