(* ===== verification/Table_Find.thy ===== *)
theory Table_Find
  imports Table_Model Splay_Delete
begin

text \<open>
  The search of the generic table in a tree that is sorted by the compare routine, and the
  tree that results from hanging a new node at the place the search found.
\<close>

section \<open>Compare routines\<close>

text \<open>
  What the package relies on of a compare routine: it is a total order on the keys of the
  elements.
\<close>

locale generic_compare =
  fixes cmp :: "'e \<Rightarrow> 'e \<Rightarrow> RTL_GENERIC_COMPARE_RESULTS"
  assumes cmp_swap: "cmp x y = GenericLessThan \<longleftrightarrow> cmp y x = GenericGreaterThan"
    and cmp_equal: "cmp x y = GenericEqual \<Longrightarrow> cmp x z = cmp y z"
    and cmp_trans: "cmp x y = GenericLessThan \<Longrightarrow> cmp y z = GenericLessThan \<Longrightarrow> cmp x z = GenericLessThan"
begin

lemma cmp_refl: "cmp x x = GenericEqual"
  using cmp_swap [of x x] by (cases "cmp x x") auto

lemma cmp_sym: "cmp x y = GenericEqual \<longleftrightarrow> cmp y x = GenericEqual"
  using cmp_equal [of x y x] cmp_equal [of y x y] cmp_refl [of x] cmp_refl [of y] by auto

lemma cmp_greater_trans:
  "cmp x y = GenericGreaterThan \<Longrightarrow> cmp z y = GenericLessThan \<Longrightarrow> cmp x z = GenericGreaterThan"
  using cmp_trans [of z y x] cmp_swap by auto

end

definition ordered_by :: "('e \<Rightarrow> 'e \<Rightarrow> RTL_GENERIC_COMPARE_RESULTS) \<Rightarrow> (ptr \<Rightarrow> 'e) \<Rightarrow> ptr list \<Rightarrow> bool" where
  \<comment> \<open>the elements of the nodes ascend strictly\<close>
  "ordered_by cmp el = sorted_wrt (\<lambda>a b. cmp (el (node_data a)) (el (node_data b)) = GenericLessThan)"

section \<open>The search\<close>

definition search_place :: "(ptr \<Rightarrow> RTL_GENERIC_COMPARE_RESULTS) \<Rightarrow> ptr tree \<Rightarrow> SEARCH_RESULT \<Rightarrow> ptr \<Rightarrow> bool" where
  \<comment> \<open>\<open>b\<close> compares the buffer with the elements of the nodes of \<open>t\<close>\<close>
  "search_place b t res n \<longleftrightarrow> (case res of
     EmptyTree \<Rightarrow> t = Leaf
   | FoundNode \<Rightarrow> n \<in> set_tree t \<and> b n = GenericEqual
   | InsertAsLeft \<Rightarrow> \<exists>r c. t = plug (Node Leaf n r) c \<and>
       (\<forall>a \<in> set (before c). b a = GenericGreaterThan) \<and> (\<forall>a \<in> set (n # inorder r @ after c). b a = GenericLessThan)
   | InsertAsRight \<Rightarrow> \<exists>l c. t = plug (Node l n Leaf) c \<and>
       (\<forall>a \<in> set (before c @ inorder l @ [n]). b a = GenericGreaterThan) \<and> (\<forall>a \<in> set (after c). b a = GenericLessThan))"

lemma FindLoop_cases:
  "b (el (node_data x)) = GenericLessThan \<Longrightarrow>
     FindLoop b h el x = (if LeftChild (h x) \<noteq> NULL then FindLoop b h el (LeftChild (h x)) else Some (InsertAsLeft, x))"
  "b (el (node_data x)) = GenericGreaterThan \<Longrightarrow>
     FindLoop b h el x = (if RightChild (h x) \<noteq> NULL then FindLoop b h el (RightChild (h x)) else Some (InsertAsRight, x))"
  "b (el (node_data x)) = GenericEqual \<Longrightarrow> FindLoop b h el x = Some (FoundNode, x)"
  by (subst FindLoop.simps, simp)+

context generic_compare
begin

lemma FindLoop_place:
  assumes "is_tree h (plug t c)" "t \<noteq> Leaf" "ordered_by cmp el (inorder (plug t c))"
    and "\<And>a. a \<in> set (before c) \<Longrightarrow> cmp buf (el (node_data a)) = GenericGreaterThan"
    and "\<And>a. a \<in> set (after c) \<Longrightarrow> cmp buf (el (node_data a)) = GenericLessThan"
  shows "\<exists>res n. FindLoop (cmp buf) h el (root t) = Some (res, n) \<and>
    search_place (\<lambda>n. cmp buf (el (node_data n))) (plug t c) res n"
  using assms
proof (induction t arbitrary: c)
  case (Node l x r)
  let ?b = "\<lambda>n. cmp buf (el (node_data n))"
  note lk = links_of [OF Node.prems(1)]
  have lr: "a \<in> set_tree l \<Longrightarrow> cmp (el (node_data a)) (el (node_data x)) = GenericLessThan"
    "a \<in> set_tree r \<Longrightarrow> cmp (el (node_data x)) (el (node_data a)) = GenericLessThan" for a
    using Node.prems(3) by (auto simp: ordered_by_def inorder_plug sorted_wrt_append)
  show ?case
  proof (cases "?b x")
    case GenericLessThan
    have up: "a \<in> set (x # inorder r @ after c) \<Longrightarrow> ?b a = GenericLessThan" for a
      using cmp_trans [OF GenericLessThan lr(2) [of a]] GenericLessThan Node.prems(5) [of a] by auto
    show ?thesis
    proof (cases "l = Leaf")
      case True
      have "search_place ?b (plug (Node l x r) c) InsertAsLeft x"
        unfolding search_place_def using True up Node.prems(4) by fastforce
      then show ?thesis using FindLoop_cases(1) [of "cmp buf" el x h] GenericLessThan True lk(1) by simp
    next
      case False
      have "\<exists>res n. FindLoop (cmp buf) h el (root l) = Some (res, n) \<and> search_place ?b (plug l (LF x r # c)) res n"
        by (rule Node.IH(1)) (use Node.prems False up in auto)
      moreover have "FindLoop (cmp buf) h el x = FindLoop (cmp buf) h el (root l)"
        unfolding FindLoop_cases(1) [of "cmp buf" el x h, OF GenericLessThan] lk(1) using False root_null [OF lk(3)] by simp
      ultimately show ?thesis by simp
    qed
  next
    case GenericGreaterThan
    have dn: "a \<in> set (before c @ inorder l @ [x]) \<Longrightarrow> ?b a = GenericGreaterThan" for a
      using cmp_greater_trans [OF GenericGreaterThan lr(1) [of a]] GenericGreaterThan Node.prems(4) [of a] by auto
    show ?thesis
    proof (cases "r = Leaf")
      case True
      have "search_place ?b (plug (Node l x r) c) InsertAsRight x"
        unfolding search_place_def using True dn Node.prems(5) by fastforce
      then show ?thesis using FindLoop_cases(2) [of "cmp buf" el x h] GenericGreaterThan True lk(2) by simp
    next
      case False
      have "\<exists>res n. FindLoop (cmp buf) h el (root r) = Some (res, n) \<and> search_place ?b (plug r (RF l x # c)) res n"
        by (rule Node.IH(2)) (use Node.prems False dn in auto)
      moreover have "FindLoop (cmp buf) h el x = FindLoop (cmp buf) h el (root r)"
        unfolding FindLoop_cases(2) [of "cmp buf" el x h, OF GenericGreaterThan] lk(2) using False root_null [OF lk(4)] by simp
      ultimately show ?thesis by simp
    qed
  next
    case GenericEqual
    then show ?thesis
      using FindLoop_cases(3) [of "cmp buf" el x h] by (auto simp: search_place_def set_inorder [symmetric] inorder_plug simp del: set_inorder)
  qed
qed simp

end

section \<open>Hanging a new node into the tree\<close>

definition hang :: "links_heap \<Rightarrow> frame \<Rightarrow> ptr \<Rightarrow> links_heap" where
  \<comment> \<open>a fresh node \<open>z\<close> is put into the empty slot of the frame\<close>
  "hang h f z = put_Parent (put_slot (RtlInitializeSplayLinks h z) (hole_slot f) z) z (frame_ptr f)"

lemma hang_child:
  "RtlInsertAsLeftChild (RtlInitializeSplayLinks h z) p z = hang h (LF p r) z"
  "RtlInsertAsRightChild (RtlInitializeSplayLinks h z) p z = hang h (RF l p) z"
  by (simp_all add: hang_def RtlInsertAsLeftChild_def RtlInsertAsRightChild_def)

lemma hang_other: "x \<noteq> z \<Longrightarrow> x \<noteq> frame_ptr f \<Longrightarrow> hang h f z x = h x"
  by (simp add: hang_def RtlInitializeSplayLinks_def link_simps)

lemma hang_new:
  assumes "z \<noteq> frame_ptr f"
  shows "Parent (hang h f z z) = frame_ptr f" "LeftChild (hang h f z z) = NULL" "RightChild (hang h f z z) = NULL"
  using assms by (simp_all add: hang_def RtlInitializeSplayLinks_def link_simps)

lemma hang_parent:
  assumes "z \<noteq> frame_ptr f"
  shows "Parent (hang h f z (frame_ptr f)) = Parent (h (frame_ptr f))"
    and "case f of LF p r \<Rightarrow> LeftChild (hang h f z p) = z \<and> RightChild (hang h f z p) = RightChild (h p)
          | RF l p \<Rightarrow> RightChild (hang h f z p) = z \<and> LeftChild (hang h f z p) = LeftChild (h p)"
  using assms by (cases f; simp add: hang_def RtlInitializeSplayLinks_def link_simps)+

lemma hang_tree:
  assumes "is_tree h (plug Leaf (f # c))" "z \<notin> ctx_set (f # c)" "z \<noteq> NULL"
  shows "is_tree (hang h f z) (plug (Node Leaf z Leaf) (f # c))"
proof -
  have c: "ctx_at h NULL (f # c)" and d: "distinct (before (f # c) @ after (f # c))"
    using assms(1) unfolding is_tree_plug by simp_all
  have zf: "z \<noteq> frame_ptr f" using frame_ptr_in [of f c] assms(2) by auto
  have "ctx_at (hang h f z) z (f # c)"
  proof (rule ctx_at_replace [OF c d])
    fix x assume "x \<in> ctx_set (f # c)" "x \<noteq> frame_ptr f"
    then show "hang h f z x = h x" using assms(2) by (intro hang_other) auto
  qed (rule hang_parent [OF zf])+
  then show ?thesis unfolding is_tree_plug using d assms(2,3) hang_new [OF zf, of h]
    by (simp del: ctx_at.simps before.simps after.simps)
qed

definition spliced :: "(ptr \<Rightarrow> RTL_GENERIC_COMPARE_RESULTS) \<Rightarrow> ptr list \<Rightarrow> ptr \<Rightarrow> ptr list \<Rightarrow> bool" where
  \<comment> \<open>\<open>zs\<close> is \<open>ns\<close> with \<open>z\<close> put in where the comparison \<open>b\<close> changes sign\<close>
  "spliced b ns z zs \<longleftrightarrow> (\<exists>xs ys. ns = xs @ ys \<and> zs = xs @ z # ys \<and>
     (\<forall>a \<in> set xs. b a = GenericGreaterThan) \<and> (\<forall>a \<in> set ys. b a = GenericLessThan))"

lemma LinkNewNode_tree:
  assumes "is_tree h t" "search_place b t res n" "res \<noteq> FoundNode" "z \<notin> set_tree t" "z \<noteq> NULL"
  shows "\<exists>t'. is_tree (LinkNewNode (RtlInitializeSplayLinks h z) res n z) t' \<and> spliced b (inorder t) z (inorder t')"
proof -
  have hung: ?thesis if "LinkNewNode (RtlInitializeSplayLinks h z) res n z = hang h f z" "t = plug Leaf (f # c)"
    "\<forall>a \<in> set (before (f # c)). b a = GenericGreaterThan" "\<forall>a \<in> set (after (f # c)). b a = GenericLessThan" for f c
  proof (intro exI conjI)
    have "z \<notin> ctx_set (f # c)" using assms(4) unfolding that(2) set_inorder [symmetric] inorder_plug by simp
    then show "is_tree (LinkNewNode (RtlInitializeSplayLinks h z) res n z) (plug (Node Leaf z Leaf) (f # c))"
      unfolding that(1) using hang_tree assms(1,5) that(2) by blast
    show "spliced b (inorder t) z (inorder (plug (Node Leaf z Leaf) (f # c)))"
      unfolding spliced_def that(2) inorder_plug using that(3,4)
      by (intro exI [of _ "before (f # c)"] exI [of _ "after (f # c)"]) simp
  qed
  show ?thesis
  proof (cases res)
    case EmptyTree
    then have "is_tree (RtlInitializeSplayLinks h z) (Node Leaf z Leaf)" "t = Leaf"
      using assms by (simp_all add: is_tree_def RtlInitializeSplayLinks_def link_simps search_place_def)
    then show ?thesis using EmptyTree by (intro exI [of _ "Node Leaf z Leaf"]) (simp add: LinkNewNode_def spliced_def)
  next
    case InsertAsLeft
    then obtain r c where "t = plug (Node Leaf n r) c" "\<forall>a \<in> set (before c). b a = GenericGreaterThan"
      "\<forall>a \<in> set (n # inorder r @ after c). b a = GenericLessThan" using assms(2) by (auto simp: search_place_def)
    then show ?thesis using InsertAsLeft by (intro hung [of "LF n r" c]) (simp_all add: LinkNewNode_def hang_child)
  next
    case InsertAsRight
    then obtain l c where "t = plug (Node l n Leaf) c" "\<forall>a \<in> set (before c @ inorder l @ [n]). b a = GenericGreaterThan"
      "\<forall>a \<in> set (after c). b a = GenericLessThan" using assms(2) by (auto simp: search_place_def)
    then show ?thesis using InsertAsRight by (intro hung [of "RF l n" c]) (simp_all add: LinkNewNode_def hang_child)
  qed (use assms in simp)
qed

end
