(* ===== verification/Generic_Table.thy ===== *)
theory Generic_Table
  imports Table_Find
begin

text \<open>
  The invariant of the generic table, and the operations of the package: what each returns,
  which elements the table holds afterwards, and that the invariant is kept.
\<close>

section \<open>The invariant\<close>

definition table_inv :: "('e, 'a) RTL_GENERIC_TABLE \<Rightarrow> ('e, 'a) table_mem \<Rightarrow> ptr tree \<Rightarrow> ptr list \<Rightarrow> bool" where
  \<comment> \<open>\<open>t\<close> is the tree of nodes, \<open>ns\<close> the nodes in the order of their insertion\<close>
  "table_inv T m t ns \<longleftrightarrow>
     is_tree (Links m) t \<and> TableRoot T = root t \<and> ordered_by (CompareRoutine T) (Elements m) (inorder t) \<and>
     is_list (Entries m) (InsertOrderList T) (map node_entry ns) \<and> set ns = set_tree t \<and>
     NumberGenericTableElements T = length ns \<and> length ns < MAXULONG \<and>
     WhichOrderedElement T \<le> length ns \<and>
     OrderedPointer T = (InsertOrderList T # map node_entry ns) ! WhichOrderedElement T"

definition present :: "('e, 'a) RTL_GENERIC_TABLE \<Rightarrow> ('e, 'a) table_mem \<Rightarrow> ptr list \<Rightarrow> 'e \<Rightarrow> bool" where
  \<comment> \<open>some element of the table has the key of the buffer\<close>
  "present T m ns buf \<longleftrightarrow> (\<exists>n \<in> set ns. CompareRoutine T buf (Elements m (node_data n)) = GenericEqual)"

definition same_routines :: "('e, 'a) RTL_GENERIC_TABLE \<Rightarrow> ('e, 'a) RTL_GENERIC_TABLE \<Rightarrow> bool" where
  \<comment> \<open>the fields only \<open>RtlInitializeGenericTable\<close> sets\<close>
  "same_routines T T' \<longleftrightarrow> CompareRoutine T' = CompareRoutine T \<and> AllocateRoutine T' = AllocateRoutine T \<and>
     FreeRoutine T' = FreeRoutine T \<and> InsertOrderList T' = InsertOrderList T"

lemma node_inj [simp]: "node_entry a = node_entry b \<longleftrightarrow> a = b" "node_data a = node_data b \<longleftrightarrow> a = b"
  by (auto simp: node_entry_def entry_data_def)

lemma node_data_nonnull [simp]: "entry_data e \<noteq> NULL" "0 < entry_data e"
  by (simp_all add: entry_data_def)

lemma ordered_by_update:
  "z \<notin> set ns \<Longrightarrow> ordered_by cmp (el(node_data z := buf)) ns \<longleftrightarrow> ordered_by cmp el ns"
  unfolding ordered_by_def by (induction ns) auto

context generic_compare
begin

lemma spliced_ordered:
  assumes "ordered_by cmp el ns" "spliced (\<lambda>n. cmp buf (el (node_data n))) ns z zs" "z \<notin> set ns"
  shows "ordered_by cmp (el(node_data z := buf)) zs"
proof -
  obtain xs ys where s: "ns = xs @ ys" "zs = xs @ z # ys"
    "\<And>a. a \<in> set xs \<Longrightarrow> cmp buf (el (node_data a)) = GenericGreaterThan"
    "\<And>a. a \<in> set ys \<Longrightarrow> cmp buf (el (node_data a)) = GenericLessThan"
    using assms(2) unfolding spliced_def by blast
  have z: "z \<notin> set xs" "z \<notin> set ys" using assms(3) s(1) by auto
  have "ordered_by cmp (el(node_data z := buf)) (xs @ ys)" 
    using assms(1,3) s(1) by (simp add: ordered_by_update del: set_append)
  moreover have "cmp (el (node_data a)) buf = GenericLessThan" if "a \<in> set xs" for a
    using s(3) [OF that] cmp_swap by blast
  ultimately show ?thesis
    using s(4) z by (auto simp: s(2) ordered_by_def sorted_wrt_append)
qed

lemma FindNodeOrParent_place:
  assumes "table_inv T m t ns" "CompareRoutine T = cmp"
  shows "\<exists>res n. FindNodeOrParent T m buf = Some (res, n) \<and>
    search_place (\<lambda>n. cmp buf (Elements m (node_data n))) t res n"
proof (cases t)
  case Leaf
  then show ?thesis using assms(1)
    by (simp add: FindNodeOrParent_def RtlIsGenericTableEmpty_def table_inv_def search_place_def)
next
  case (Node l x r)
  then have "\<not> RtlIsGenericTableEmpty T"
    using assms(1) by (simp add: table_inv_def RtlIsGenericTableEmpty_def is_tree_def)
  then show ?thesis
    using FindLoop_place [of "Links m" t "[]" "Elements m" buf] assms Node
    by (simp add: FindNodeOrParent_def table_inv_def)
qed

end

lemma search_place_found:
  "search_place b t res n \<Longrightarrow> res = FoundNode \<longleftrightarrow> (\<exists>a \<in> set_tree t. b a = GenericEqual)"
proof -
  assume p: "search_place b t res n"
  have io: "a \<in> set (inorder t)" if "a \<in> set_tree t" for a using that by simp
  show ?thesis
  proof (cases res)
    case InsertAsLeft
    then obtain r c where "t = plug (Node Leaf n r) c" "\<forall>a \<in> set (before c). b a = GenericGreaterThan"
      "\<forall>a \<in> set (n # inorder r @ after c). b a = GenericLessThan" using p by (auto simp: search_place_def)
    then show ?thesis using InsertAsLeft io by (fastforce simp: inorder_plug simp del: set_inorder)
  next
    case InsertAsRight
    then obtain l c where "t = plug (Node l n Leaf) c" "\<forall>a \<in> set (before c @ inorder l @ [n]). b a = GenericGreaterThan"
      "\<forall>a \<in> set (after c). b a = GenericLessThan" using p by (auto simp: search_place_def)
    then show ?thesis using InsertAsRight io by (fastforce simp: inorder_plug simp del: set_inorder)
  qed (use p in \<open>auto simp: search_place_def\<close>)
qed

section \<open>Splaying inside a table\<close>

lemma table_splay:
  assumes "table_inv T m t ns" "n \<in> set ns"
  shows "\<exists>h t'. RtlSplay (Links m) n = Some (h, n) \<and> table_inv (T\<lparr>TableRoot := n\<rparr>) (m\<lparr>Links := h\<rparr>) t' ns \<and>
    inorder t' = inorder t"
proof -
  have t: "is_tree (Links m) t" "n \<in> set_tree t" using assms by (simp_all add: table_inv_def)
  obtain l r c where z: "t = plug (Node l n r) c" using zipper [OF t(2)] by blast
  have T: "is_tree (Links m) (plug (Node l n r) c)" using t(1) z by simp
  from RtlSplay_refines [OF T] obtain h where h: "RtlSplay (Links m) n = Some (h, n)"
    "is_tree h (splay_up l n r c)" by (auto simp: splayed_def)
  have io: "inorder (splay_up l n r c) = inorder t" using inorder_splay_up [of l n r c] z by simp
  then have st: "set_tree (splay_up l n r c) = set_tree t" unfolding set_inorder [symmetric] by simp
  have "table_inv (T\<lparr>TableRoot := n\<rparr>) (m\<lparr>Links := h\<rparr>) (splay_up l n r c) ns"
    using assms(1) h(2) unfolding table_inv_def by (simp add: io st root_splay_up)
  then show ?thesis using h(1) io by blast
qed

lemma ordered_by_remove: "ordered_by cmp el (xs @ x # ys) \<Longrightarrow> ordered_by cmp el (xs @ ys)"
  by (simp add: ordered_by_def sorted_wrt_append)

lemma remove_inv:
  \<comment> \<open>a node is taken out of the tree and of the list\<close>
  assumes inv: "table_inv T m t ns" and n: "n \<in> set ns"
  shows "\<exists>h t'. RtlDelete (Links m) n = Some (h, root t') \<and>
    table_inv (T\<lparr>TableRoot := root t', NumberGenericTableElements := u32_sub (NumberGenericTableElements T) 1,
        WhichOrderedElement := 0, OrderedPointer := InsertOrderList T\<rparr>)
      (m\<lparr>Links := h, Entries := RemoveEntryList (Entries m) (node_entry n), Pool := pool\<rparr>) t' (remove1 n ns)"
proof -
  have t: "is_tree (Links m) t" "set_tree t = set ns" and l: "is_list (Entries m) (InsertOrderList T) (map node_entry ns)"
    and o: "ordered_by (CompareRoutine T) (Elements m) (inorder t)"
    using inv by (simp_all add: table_inv_def)
  have "n \<in> set (inorder t)" using n t(2) by simp
  then obtain xs ys where io: "inorder t = xs @ n # ys" by (meson split_list)
  obtain as bs where ns: "ns = as @ n # bs" "n \<notin> set as" using n by (meson split_list_first)
  have "n \<notin> set xs" "n \<notin> set ys" using t(1) io by (auto simp: is_tree_def)
  moreover have dn: "n \<notin> set bs" using l ns by (auto simp: is_list_def)
  moreover have "insert n (set as \<union> set bs) = insert n (set xs \<union> set ys)"
    using t(2) ns(1) io set_inorder [of t] by simp
  ultimately have st: "set as \<union> set bs = set xs \<union> set ys"
    using ns(2) insert_ident [of n "set as \<union> set bs" "set xs \<union> set ys"] by simp
  obtain h t' where d: "RtlDelete (Links m) n = Some (h, root t')" "is_tree h t'" "inorder t' = xs @ ys"
    using RtlDelete_result [OF t(1) io] by (auto simp: tree_result_def)
  have "set_tree t' = set as \<union> set bs" using d(3) set_inorder [of t'] st by simp
  moreover have "is_list (RemoveEntryList (Entries m) (node_entry n)) (InsertOrderList T) (map node_entry (as @ bs))"
    using RemoveEntryList_is_list(1) [of "Entries m" "InsertOrderList T" "map node_entry as" "node_entry n" "map node_entry bs"]
      l ns(1) by simp
  moreover have "ordered_by (CompareRoutine T) (Elements m) (inorder t')"
    using o ordered_by_remove unfolding io d(3) by blast
  moreover have "remove1 n ns = as @ bs" using ns by (simp add: remove1_append)
  ultimately have "table_inv (T\<lparr>TableRoot := root t', NumberGenericTableElements := u32_sub (NumberGenericTableElements T) 1,
        WhichOrderedElement := 0, OrderedPointer := InsertOrderList T\<rparr>)
      (m\<lparr>Links := h, Entries := RemoveEntryList (Entries m) (node_entry n), Pool := pool\<rparr>) t' (remove1 n ns)"
    using inv d(2) ns(1) by (simp add: table_inv_def)
  then show ?thesis using d(1) by blast
qed

section \<open>Insertion\<close>

lemma nth_prefix: "k \<le> length xs \<Longrightarrow> (a # xs @ [b]) ! k = (a # xs) ! k"
  by (cases k) (auto simp: nth_append)

lemma InsertTailList_fresh:
  assumes "is_list h H xs" "e \<notin> set (H # xs)"
  shows "is_list (InsertTailList (InitializeListHead h e) H e) H (xs @ [e])"
proof -
  have "is_list (InitializeListHead h e) H xs"
    by (rule is_list_frame [OF assms(1)]) (use assms(2) in \<open>auto simp: InitializeListHead_def put_Flink_def put_Blink_def\<close>)
  then show ?thesis using InsertTailList_is_list(1) assms(2) by auto
qed

context generic_compare
begin

lemma AddNode_inv:
  assumes inv: "table_inv T m t ns" and cmp: "CompareRoutine T = cmp"
    and place: "search_place (\<lambda>n. cmp buf (Elements m (node_data n))) t res n" "res \<noteq> FoundNode"
    and p: "p \<noteq> NULL" "p \<notin> set ns" "node_entry p \<noteq> InsertOrderList T" and room: "length ns + 1 < MAXULONG"
    and add: "AddNode T m res n p buf = (T', m')"
  shows "\<exists>t'. table_inv (T'\<lparr>TableRoot := root t'\<rparr>) m' t' (ns @ [p])"
proof -
  have t: "is_tree (Links m) t" "set ns = set_tree t" using inv by (simp_all add: table_inv_def)
  from LinkNewNode_tree [OF t(1) place _ p(1)] obtain t' where
    t': "is_tree (LinkNewNode (RtlInitializeSplayLinks (Links m) p) res n p) t'"
      "spliced (\<lambda>n. cmp buf (Elements m (node_data n))) (inorder t) p (inorder t')"
    using p(2) t(2) by auto
  have "set (inorder t') = insert p (set (inorder t))" using t'(2) by (auto simp: spliced_def simp del: set_inorder)
  then have "set_tree t' = insert p (set ns)" using t(2) by simp
  moreover have "ordered_by cmp ((Elements m)(node_data p := buf)) (inorder t')"
    by (rule spliced_ordered [OF _ t'(2)]) (use inv cmp p(2) in \<open>auto simp: table_inv_def\<close>)
  moreover have "is_list (InsertTailList (InitializeListHead (Entries m) (node_entry p)) (InsertOrderList T) (node_entry p))
      (InsertOrderList T) (map node_entry ns @ [node_entry p])"
    by (rule InsertTailList_fresh) (use inv p in \<open>auto simp: table_inv_def\<close>)
  ultimately have "table_inv (T'\<lparr>TableRoot := root t'\<rparr>) m' t' (ns @ [p])"
    using inv t'(1) add room nth_prefix [of "WhichOrderedElement T" "map node_entry ns" "InsertOrderList T" "node_entry p"]
    by (auto simp: table_inv_def AddNode_def Let_def cmp)
  then show ?thesis by blast
qed

lemma insert_inv:
  assumes inv: "table_inv T m t ns" and cmp: "CompareRoutine T = cmp"
    and alloc: "AllocateRoutine T (Pool m) (u32 (BufferSize + 20)) = (pool, p)"
    and p: "p \<noteq> NULL \<Longrightarrow> p \<notin> set ns \<and> node_entry p \<noteq> InsertOrderList T" and room: "length ns + 1 < MAXULONG"
  shows "\<exists>T' m' e new t' ns'. RtlInsertElementGenericTable T m buf BufferSize = Some (T', m', e, new) \<and> table_inv T' m' t' ns' \<and> same_routines T T' \<and>
    (if present T m ns buf then ns' = ns \<and> Elements m' = Elements m \<and> Pool m' = Pool m \<and> \<not> new \<and> 
       (\<exists>n \<in> set ns. e = node_data n \<and> cmp buf (Elements m e) = GenericEqual)
     else if p = NULL then T' = T \<and> m' = m\<lparr>Pool := pool\<rparr> \<and> ns' = ns \<and> e = NULL \<and> \<not> new
     else ns' = ns @ [p] \<and> e = node_data p \<and> new \<and> Elements m' = (Elements m)(e := buf) \<and> Pool m' = pool)"
proof -
  obtain res n where f: "FindNodeOrParent T m buf = Some (res, n)"
    and place: "search_place (\<lambda>n. cmp buf (Elements m (node_data n))) t res n"
    using FindNodeOrParent_place [OF inv cmp] by blast
  have found: "res = FoundNode \<longleftrightarrow> present T m ns buf"
    using search_place_found [OF place] inv by (simp add: present_def table_inv_def cmp)
  consider "res = FoundNode" | "res \<noteq> FoundNode" "p = NULL" | "res \<noteq> FoundNode" "p \<noteq> NULL" by blast
  then show ?thesis
  proof cases
    case 1
    have n: "n \<in> set ns" "cmp buf (Elements m (node_data n)) = GenericEqual"
      using place inv 1 by (simp_all add: search_place_def table_inv_def)
    from table_splay [OF inv n(1)] show ?thesis
      using 1 f found n by (auto simp: RtlInsertElementGenericTable_def same_routines_def intro!: exI [of _ False])
  next
    case 2
    have "table_inv T (m\<lparr>Pool := pool\<rparr>) t ns" using inv by (simp add: table_inv_def)
    then show ?thesis using 2 f found alloc
      by (auto simp: RtlInsertElementGenericTable_def same_routines_def intro!: exI [of _ False])
  next
    case 3
    let ?m = "m\<lparr>Pool := pool\<rparr>"
    obtain T1 m1 where add: "AddNode T ?m res n p buf = (T1, m1)" by fastforce
    have "table_inv T ?m t ns" using inv by (simp add: table_inv_def)
    from AddNode_inv [OF this cmp _ _ _ _ _ room add] obtain t1 where
      i1: "table_inv (T1\<lparr>TableRoot := root t1\<rparr>) m1 t1 (ns @ [p])"
      using place 3 p by auto
    from table_splay [OF i1, of p] obtain h t2 where "RtlSplay (Links m1) p = Some (h, p)"
      "table_inv (T1\<lparr>TableRoot := p\<rparr>) (m1\<lparr>Links := h\<rparr>) t2 (ns @ [p])" by auto
    moreover have "Elements m1 = (Elements m)(node_data p := buf)" "Pool m1 = pool" "same_routines T T1"
      using add by (auto simp: AddNode_def Let_def same_routines_def)
    ultimately show ?thesis using 3 f found alloc add
      by (auto simp: RtlInsertElementGenericTable_def same_routines_def)
  qed
qed

lemma equal_unique:
  assumes "table_inv T m t ns" "CompareRoutine T = cmp" "a \<in> set ns" "b \<in> set ns"
    and "cmp buf (Elements m (node_data a)) = GenericEqual" "cmp buf (Elements m (node_data b)) = GenericEqual"
  shows "a = b"
proof (rule ccontr)
  assume ne: "a \<noteq> b"
  have eq: "cmp (Elements m (node_data a)) (Elements m (node_data b)) = GenericEqual"
    using cmp_equal [OF assms(5)] assms(6) by metis
  have "a \<in> set (inorder t)" "b \<in> set (inorder t)" using assms by (simp_all add: table_inv_def)
  then obtain i j where ij: "i < length (inorder t)" "inorder t ! i = a" "j < length (inorder t)" "inorder t ! j = b"
    by (metis in_set_conv_nth)
  then have "i < j \<or> j < i" using ne by (metis linorder_neqE_nat)
  moreover have "ordered_by cmp (Elements m) (inorder t)" using assms by (simp add: table_inv_def)
  ultimately show False
    using ij eq cmp_sym [of "Elements m (node_data a)" "Elements m (node_data b)"]
    by (auto simp: ordered_by_def sorted_wrt_iff_nth_less)
qed

lemma delete_inv:
  assumes inv: "table_inv T m t ns" and cmp: "CompareRoutine T = cmp"
  shows "\<exists>T' m' t' ns'. RtlDeleteElementGenericTable T m buf = Some (T', m', present T m ns buf) \<and> table_inv T' m' t' ns' \<and>
    Elements m' = Elements m \<and> same_routines T T' \<and>
    (if present T m ns buf
     then \<exists>n \<in> set ns. cmp buf (Elements m (node_data n)) = GenericEqual \<and> ns' = remove1 n ns \<and> Pool m' = FreeRoutine T (Pool m) n
     else T' = T \<and> m' = m \<and> ns' = ns)"
proof -
  obtain res n where f: "FindNodeOrParent T m buf = Some (res, n)"
    and place: "search_place (\<lambda>n. cmp buf (Elements m (node_data n))) t res n"
    using FindNodeOrParent_place [OF inv cmp] by blast
  have found: "res = FoundNode \<longleftrightarrow> present T m ns buf"
    using search_place_found [OF place] inv by (simp add: present_def table_inv_def cmp)
  show ?thesis
  proof (cases "res = FoundNode")
    case False
    then show ?thesis using f found inv cmp by (auto simp: RtlDeleteElementGenericTable_def same_routines_def)
  next
    case True
    have n: "n \<in> set ns" "cmp buf (Elements m (node_data n)) = GenericEqual"
      using place inv True by (simp_all add: search_place_def table_inv_def)
    from remove_inv [OF inv n(1), of "FreeRoutine T (Pool m) n"] obtain h t' where
      "RtlDelete (Links m) n = Some (h, root t')"
      "table_inv (T\<lparr>TableRoot := root t', NumberGenericTableElements := u32_sub (NumberGenericTableElements T) 1,
          WhichOrderedElement := 0, OrderedPointer := InsertOrderList T\<rparr>)
        (m\<lparr>Links := h, Entries := RemoveEntryList (Entries m) (node_entry n), Pool := FreeRoutine T (Pool m) n\<rparr>)
        t' (remove1 n ns)" by blast
    then show ?thesis
      using True f found n cmp by (auto simp: RtlDeleteElementGenericTable_def same_routines_def Let_def)
  qed
qed

lemma lookup_inv:
  assumes inv: "table_inv T m t ns" and cmp: "CompareRoutine T = cmp"
  shows "\<exists>T' m' t' e. RtlLookupElementGenericTable T m buf = Some (T', m', e) \<and> table_inv T' m' t' ns \<and>
    Elements m' = Elements m \<and> Pool m' = Pool m \<and> same_routines T T' \<and>
    (if present T m ns buf then \<exists>n \<in> set ns. e = node_data n \<and> cmp buf (Elements m e) = GenericEqual else e = NULL)"
proof -
  obtain res n where f: "FindNodeOrParent T m buf = Some (res, n)"
    and place: "search_place (\<lambda>n. cmp buf (Elements m (node_data n))) t res n"
    using FindNodeOrParent_place [OF inv cmp] by blast
  have found: "res = FoundNode \<longleftrightarrow> present T m ns buf"
    using search_place_found [OF place] inv by (simp add: present_def table_inv_def cmp)
  show ?thesis
  proof (cases "res = FoundNode")
    case False
    then show ?thesis using f found inv cmp by (auto simp: RtlLookupElementGenericTable_def same_routines_def)
  next
    case True
    have n: "n \<in> set ns" "cmp buf (Elements m (node_data n)) = GenericEqual"
      using place inv True by (simp_all add: search_place_def table_inv_def)
    from table_splay [OF inv n(1)] show ?thesis
      using True f found n cmp by (auto simp: RtlLookupElementGenericTable_def same_routines_def)
  qed
qed

end

end
