(* ===== verification/Table_Order.thy ===== *)
theory Table_Order
  imports Generic_Table
begin

text \<open>
  The two orders of the generic table: enumeration in ascending order of the keys, and access
  by position in the order of insertion.
\<close>

section \<open>The loops a user of the package writes\<close>

text \<open>
  The documentation of \<open>RtlEnumerateGenericTable\<close> gives the loop that enumerates a table;
  the model collects the elements in the order they are returned.
\<close>

partial_function (option) EnumerateRest ::
  "('e, 'a) RTL_GENERIC_TABLE \<Rightarrow> ('e, 'a) table_mem \<Rightarrow> ptr \<Rightarrow> 'e list \<Rightarrow> 'e list option" where
  "EnumerateRest Table m p acc =
     (if p = NULL then Some acc
      else do {
        (Table', m', p') \<leftarrow> RtlEnumerateGenericTable Table m False;
        EnumerateRest Table' m' p' (acc @ [Elements m p])
      })"

definition EnumerateAll :: "('e, 'a) RTL_GENERIC_TABLE \<Rightarrow> ('e, 'a) table_mem \<Rightarrow> 'e list option" where
  "EnumerateAll Table m = do {
     (Table, m, p) \<leftarrow> RtlEnumerateGenericTable Table m True;
     EnumerateRest Table m p []
   }"

partial_function (option) ListRest ::
  "('e, 'a) RTL_GENERIC_TABLE \<Rightarrow> ('e, 'a) table_mem \<Rightarrow> ptr \<Rightarrow> ptr \<Rightarrow> 'e list \<Rightarrow> 'e list option" where
  "ListRest Table m RestartKey p acc =
     (if p = NULL then Some acc
      else do {
        (RestartKey, p') \<leftarrow> RtlEnumerateGenericTableWithoutSplaying Table m RestartKey;
        ListRest Table m RestartKey p' (acc @ [Elements m p])
      })"

definition ListAll :: "('e, 'a) RTL_GENERIC_TABLE \<Rightarrow> ('e, 'a) table_mem \<Rightarrow> 'e list option" where
  "ListAll Table m = do {
     (RestartKey, p) \<leftarrow> RtlEnumerateGenericTableWithoutSplaying Table m NULL;
     ListRest Table m RestartKey p []
   }"

section \<open>Enumeration\<close>

lemma node_in_table:
  assumes "table_inv T m t ns" "inorder t = xs @ x # ys"
  shows "x \<in> set ns" "x \<noteq> NULL" "RtlRealSuccessor (Links m) x = Some (first_ptr ys)" "\<not> RtlIsGenericTableEmpty T"
proof -
  have t: "is_tree (Links m) t" "set ns = set_tree t" "TableRoot T = root t" using assms(1) by (simp_all add: table_inv_def)
  have "x \<in> set (inorder t)" using assms(2) by simp
  then show "x \<in> set ns" "x \<noteq> NULL" using t is_tree_nonnull [OF t(1)] by (simp, metis)
  show "RtlRealSuccessor (Links m) x = Some (first_ptr ys)"
    using zip_at [OF t(1) assms(2)] RealSuccessor_zip t(1) by metis
  have "t \<noteq> Leaf" using assms(2) by auto
  then show "\<not> RtlIsGenericTableEmpty T"
    using t root_null [of "Links m" "root t" t] by (simp add: RtlIsGenericTableEmpty_def is_tree_def)
qed

lemma enumerate_next:
  assumes "table_inv T m t ns" "TableRoot T = x" "inorder t = xs @ x # y # ys"
  shows "\<exists>T' m' t'. RtlEnumerateGenericTable T m False = Some (T', m', node_data y) \<and> table_inv T' m' t' ns \<and>
    TableRoot T' = y \<and> inorder t' = inorder t \<and> Elements m' = Elements m"
proof -
  note x = node_in_table [OF assms(1,3)]
  have y: "y \<in> set ns" "y \<noteq> NULL" using node_in_table(1,2) [OF assms(1), of "xs @ [x]" y ys] assms(3) by auto
  from table_splay [OF assms(1) y(1)] show ?thesis
    using x(3,4) y(2) assms(2) by (auto simp: RtlEnumerateGenericTable_def first_ptr_def)
qed

lemma enumerate_end:
  assumes "table_inv T m t ns" "TableRoot T = x" "inorder t = xs @ [x]"
  shows "RtlEnumerateGenericTable T m False = Some (T, m, NULL)"
  using node_in_table [OF assms(1), of xs x "[]"] assms(2,3) by (simp add: RtlEnumerateGenericTable_def first_ptr_def)

lemma EnumerateRest_all:
  assumes "table_inv T m t ns" "TableRoot T = x" "inorder t = xs @ x # ys"
  shows "EnumerateRest T m (node_data x) acc = Some (acc @ map (\<lambda>n. Elements m (node_data n)) (x # ys))"
  using assms
proof (induction ys arbitrary: T m t x xs acc)
  case Nil
  show ?case
    by (subst EnumerateRest.simps, simp add: enumerate_end [OF Nil.prems], subst EnumerateRest.simps, simp)
next
  case (Cons y ys)
  obtain T' m' t' where s: "RtlEnumerateGenericTable T m False = Some (T', m', node_data y)" "table_inv T' m' t' ns"
    "TableRoot T' = y" "inorder t' = (xs @ [x]) @ y # ys" "Elements m' = Elements m"
    using enumerate_next [OF Cons.prems] Cons.prems(3) by auto
  show ?case using Cons.IH [OF s(2-4), of "acc @ [Elements m (node_data x)]"] s(1,5)
    by (subst EnumerateRest.simps) simp
qed

lemma EnumerateAll_sorted:
  assumes "table_inv T m t ns"
  shows "EnumerateAll T m = Some (map (\<lambda>n. Elements m (node_data n)) (inorder t))"
proof (cases "inorder t")
  case Nil
  then have "RtlIsGenericTableEmpty T" using assms by (simp add: table_inv_def RtlIsGenericTableEmpty_def)
  then show ?thesis using Nil
    by (simp add: EnumerateAll_def RtlEnumerateGenericTable_def) (subst EnumerateRest.simps, simp)
next
  case (Cons x ys)
  have x: "x \<in> set ns" "x \<noteq> NULL" "\<not> RtlIsGenericTableEmpty T" using node_in_table [OF assms, of "[]"] Cons by auto
  have t: "tree_at (Links m) (root t) t" "t \<noteq> Leaf" "TableRoot T = root t"
    using assms Cons by (auto simp: table_inv_def is_tree_def)
  have left: "Leftmost (Links m) (TableRoot T) = Some x" using Leftmost_hd [OF t(1,2)] Cons t(3) by simp
  obtain h t' where s: "RtlSplay (Links m) x = Some (h, x)"
    "table_inv (T\<lparr>TableRoot := x\<rparr>) (m\<lparr>Links := h\<rparr>) t' ns" "inorder t' = [] @ x # ys"
    using table_splay [OF assms x(1)] Cons by auto
  show ?thesis using EnumerateRest_all [OF s(2) _ s(3)] x left s(1) Cons
    by (simp add: EnumerateAll_def RtlEnumerateGenericTable_def)
qed

lemma ListRest_all:
  assumes "table_inv T m t ns" "inorder t = xs @ x # ys"
  shows "ListRest T m x (node_data x) acc = Some (acc @ map (\<lambda>n. Elements m (node_data n)) (x # ys))"
  using assms(2)
proof (induction ys arbitrary: x xs acc)
  case Nil
  then show ?case using node_in_table [OF assms(1) Nil]
    by (subst ListRest.simps, simp add: RtlEnumerateGenericTableWithoutSplaying_def first_ptr_def, subst ListRest.simps, simp)
next
  case (Cons y ys)
  have "y \<noteq> NULL" using node_in_table(2) [OF assms(1), of "xs @ [x]" y ys] Cons.prems by simp
  then show ?case
    using Cons.IH [of "xs @ [x]" y "acc @ [Elements m (node_data x)]"] Cons.prems node_in_table [OF assms(1) Cons.prems]
    by (subst ListRest.simps, simp add: RtlEnumerateGenericTableWithoutSplaying_def first_ptr_def)
qed

lemma ListAll_sorted:
  assumes "table_inv T m t ns"
  shows "ListAll T m = Some (map (\<lambda>n. Elements m (node_data n)) (inorder t))"
proof (cases "inorder t")
  case Nil
  then have "RtlIsGenericTableEmpty T" using assms by (simp add: table_inv_def RtlIsGenericTableEmpty_def)
  then show ?thesis using Nil
    by (simp add: ListAll_def RtlEnumerateGenericTableWithoutSplaying_def) (subst ListRest.simps, simp)
next
  case (Cons x ys)
  have x: "x \<noteq> NULL" "\<not> RtlIsGenericTableEmpty T" using node_in_table [OF assms, of "[]"] Cons by auto
  have t: "tree_at (Links m) (root t) t" "t \<noteq> Leaf" "TableRoot T = root t"
    using assms Cons by (auto simp: table_inv_def is_tree_def)
  have "Leftmost (Links m) (TableRoot T) = Some x" using Leftmost_hd [OF t(1,2)] Cons t(3) by simp
  then show ?thesis using ListRest_all [OF assms, of "[]" x ys] x Cons
    by (simp add: ListAll_def RtlEnumerateGenericTableWithoutSplaying_def)
qed

section \<open>Access by position\<close>

lemma chain_nth:
  assumes "chain h a xs b" "i \<le> length xs"
  shows "Flink (h ((a # xs @ [b]) ! i)) = (a # xs @ [b]) ! Suc i \<and> Blink (h ((a # xs @ [b]) ! Suc i)) = (a # xs @ [b]) ! i"
  using assms
proof (induction xs arbitrary: a i)
  case (Cons x xs)
  then show ?case using Cons.IH [of x "i - 1"] by (cases i) auto
qed auto

lemma StepForward_nth:
  assumes "chain h a xs b" "i + d \<le> Suc (length xs)"
  shows "StepForward h d ((a # xs @ [b]) ! i) = (a # xs @ [b]) ! (i + d)"
  using assms(2)
proof (induction d arbitrary: i)
  case (Suc d)
  then show ?case using Suc.IH [of "Suc i"] chain_nth [OF assms(1), of i] by simp
qed simp

lemma StepBackward_nth:
  assumes "chain h a xs b" "i \<le> Suc (length xs)" "d \<le> i"
  shows "StepBackward h d ((a # xs @ [b]) ! i) = (a # xs @ [b]) ! (i - d)"
  using assms(2,3)
proof (induction d arbitrary: i)
  case (Suc d)
  then obtain j where "i = Suc j" by (cases i) auto
  then show ?case using Suc.IH [of j] Suc.prems chain_nth [OF assms(1), of j] by simp
qed simp

lemma get_inv:
  assumes inv: "table_inv T m t ns" and "I \<le> MAXULONG" and get: "RtlGetElementGenericTable T (Entries m) I = (T', e)"
  shows "table_inv T' m t ns" "e = (if I < length ns then node_data (ns ! I) else NULL)"
proof -
  let ?H = "InsertOrderList T" and ?xs = "map node_entry ns" and ?k = "WhichOrderedElement T"
  let ?R = "?H # ?xs @ [?H]"
  have c: "chain (Entries m) ?H ?xs ?H" and len: "length ns < MAXULONG" "?k \<le> length ns" "NumberGenericTableElements T = length ns"
    and op: "OrderedPointer T = ?R ! ?k"
    using inv nth_prefix [of ?k ?xs ?H ?H] by (auto simp: table_inv_def is_list_def)
  have "table_inv T' m t ns \<and> e = (if I < length ns then node_data (ns ! I) else NULL)"
  proof (cases "I < length ns")
    case False
    have "I = MAXULONG \<or> u32 (I + 1) = I + 1" using assms(2) u32_id [of "I + 1"] by linarith
    then have "RtlGetElementGenericTable T (Entries m) I = (T, NULL)"
      using False len by (auto simp: RtlGetElementGenericTable_def Let_def)
    then show ?thesis using get inv False by simp
  next
    case True
    have at: "?R ! Suc I = node_entry (ns ! I)" using True by (simp add: nth_append)
    have H: "?R ! 0 = ?H" "?R ! Suc (length ns) = ?H" by (simp_all add: nth_append)
    have fwd: "StepForward (Entries m) (Suc I - ?k) (OrderedPointer T) = node_entry (ns ! I)" if "?k \<le> Suc I"
      using StepForward_nth [OF c, of ?k "Suc I - ?k"] that True at op by simp
    have fwd0: "StepForward (Entries m) (Suc I) ?H = node_entry (ns ! I)"
      using StepForward_nth [OF c, of 0 "Suc I"] True at by simp
    have bwd: "StepBackward (Entries m) (?k - Suc I) (OrderedPointer T) = node_entry (ns ! I)" if "Suc I \<le> ?k"
      using StepBackward_nth [OF c, of ?k "?k - Suc I"] that len(2) at op by simp
    have bwd0: "StepBackward (Entries m) (Suc (length ns - Suc I)) ?H = node_entry (ns ! I)"
      using StepBackward_nth [OF c, of "Suc (length ns)" "Suc (length ns - Suc I)"] H(2) True at by simp
    have here: "OrderedPointer T = node_entry (ns ! I)" if "Suc I = ?k" using that at op by simp
    have res: "e = node_data (ns ! I) \<and> (T' = T \<or> T' = T\<lparr>OrderedPointer := node_entry (ns ! I), WhichOrderedElement := Suc I\<rparr>)"
      using get True len fwd fwd0 bwd bwd0 here
      by (auto simp: RtlGetElementGenericTable_def Let_def split: if_splits)
    then show ?thesis using inv True by (auto simp: table_inv_def)
  qed
  then show "table_inv T' m t ns" "e = (if I < length ns then node_data (ns ! I) else NULL)" by auto
qed

end
