(* ===== verification/Allocator.thy ===== *)
theory Allocator
  imports Nt_Prelude
begin

text \<open>
  The contract of an allocator as its clients use it: a block that is handed out is not
  null, not in use and not one of the addresses \<open>avoid\<close> that belong to something else.
\<close>

locale block_allocator =
  fixes alloc :: "'a \<Rightarrow> nat \<Rightarrow> 'a \<times> ptr"
    and free :: "'a \<Rightarrow> ptr \<Rightarrow> 'a"
    and holds :: "'a \<Rightarrow> ptr set \<Rightarrow> bool" \<comment> \<open>the blocks in use\<close>
    and avoid :: "ptr set"
  assumes alloc_null: "holds s L \<Longrightarrow> alloc s n = (s', NULL) \<Longrightarrow> holds s' L"
    and alloc_new: "holds s L \<Longrightarrow> alloc s n = (s', p) \<Longrightarrow> p \<noteq> NULL \<Longrightarrow> p \<notin> L \<and> p \<notin> avoid \<and> holds s' (insert p L)"
    and free_block: "holds s L \<Longrightarrow> p \<in> L \<Longrightarrow> holds (free s p) (L - {p})"
    and bounded: "holds s L \<Longrightarrow> finite L \<and> card L + 1 < MAXULONG"

end
