(* ===== verification/Table_Run.thy ===== *)
theory Table_Run
  imports Table_Order Allocator "HOL-Library.Multiset"
begin

text \<open>
  Sequences of calls on a generic table, with any compare routine and any allocator that
  keep their contracts, refine a dictionary that is just the list of its elements in the
  order of their insertion.
\<close>

section \<open>Calls and the dictionary they refine\<close>

datatype 'e table_op = TableInsert 'e nat | TableDelete 'e | TableLookup 'e

datatype 'e table_answer = Inserted | Existing | NoMemory | Deleted bool | Found "'e option"

fun table_call ::
  "'e table_op \<Rightarrow> ('e, 'a) RTL_GENERIC_TABLE \<Rightarrow> ('e, 'a) table_mem \<Rightarrow>
     (('e, 'a) RTL_GENERIC_TABLE \<times> ('e, 'a) table_mem \<times> 'e table_answer) option" where
  "table_call (TableInsert b n) T m = do {
     (T, m, e, new) \<leftarrow> RtlInsertElementGenericTable T m b n;
     Some (T, m, if e = NULL then NoMemory else if new then Inserted else Existing)
   }"
| "table_call (TableDelete b) T m = do {
     (T, m, done) \<leftarrow> RtlDeleteElementGenericTable T m b;
     Some (T, m, Deleted done)
   }"
| "table_call (TableLookup b) T m = do {
     (T, m, e) \<leftarrow> RtlLookupElementGenericTable T m b;
     Some (T, m, Found (if e = NULL then None else Some (Elements m e)))
   }"

fun table_run ::
  "'e table_op list \<Rightarrow> ('e, 'a) RTL_GENERIC_TABLE \<Rightarrow> ('e, 'a) table_mem \<Rightarrow>
     (('e, 'a) RTL_GENERIC_TABLE \<times> ('e, 'a) table_mem \<times> 'e table_answer list) option" where
  "table_run [] T m = Some (T, m, [])"
| "table_run (op # ops) T m = do {
     (T, m, a) \<leftarrow> table_call op T m;
     (T, m, as) \<leftarrow> table_run ops T m;
     Some (T, m, a # as)
   }"

fun dict_step ::
  "('e \<Rightarrow> 'e \<Rightarrow> RTL_GENERIC_COMPARE_RESULTS) \<Rightarrow> 'e table_op \<Rightarrow> 'e list \<Rightarrow> 'e table_answer \<Rightarrow> 'e list option" where
  \<comment> \<open>the elements after a call with this answer; \<open>None\<close> if the answer is wrong\<close>
  "dict_step cmp (TableInsert b n) xs a =
     (if list_ex (\<lambda>e. cmp b e = GenericEqual) xs then if a = Existing then Some xs else None
      else if a = Inserted then Some (xs @ [b]) else if a = NoMemory then Some xs else None)"
| "dict_step cmp (TableDelete b) xs a =
     (if a = Deleted (list_ex (\<lambda>e. cmp b e = GenericEqual) xs) then Some (filter (\<lambda>e. cmp b e \<noteq> GenericEqual) xs) else None)"
| "dict_step cmp (TableLookup b) xs a =
     (if a = Found (find (\<lambda>e. cmp b e = GenericEqual) xs) then Some xs else None)"

fun dict_run ::
  "('e \<Rightarrow> 'e \<Rightarrow> RTL_GENERIC_COMPARE_RESULTS) \<Rightarrow> 'e table_op list \<Rightarrow> 'e list \<Rightarrow> 'e table_answer list \<Rightarrow> 'e list option" where
  "dict_run cmp [] xs [] = Some xs"
| "dict_run cmp (op # ops) xs (a # as) = do {
     xs \<leftarrow> dict_step cmp op xs a;
     dict_run cmp ops xs as
   }"
| "dict_run cmp _ xs _ = None"

section \<open>The refinement\<close>

definition contents :: "('e, 'a) table_mem \<Rightarrow> ptr list \<Rightarrow> 'e list" where
  "contents m ns = map (\<lambda>n. Elements m (node_data n)) ns"

lemma find_unique:
  "n \<in> set ns \<Longrightarrow> Q (f n) \<Longrightarrow> \<forall>a \<in> set ns. a \<noteq> n \<longrightarrow> \<not> Q (f a) \<Longrightarrow> find Q (map f ns) = Some (f n)"
  by (induction ns) auto

lemma remove1_unique:
  "distinct ns \<Longrightarrow> n \<in> set ns \<Longrightarrow> Q (f n) \<Longrightarrow> \<forall>a \<in> set ns. a \<noteq> n \<longrightarrow> \<not> Q (f a) \<Longrightarrow>
     map f (remove1 n ns) = filter (\<lambda>e. \<not> Q e) (map f ns)"
proof (induction ns)
  case (Cons a ns)
  show ?case
  proof (cases "a = n")
    case True
    then have "\<forall>x \<in> set ns. \<not> Q (f x)" using Cons.prems by auto
    then show ?thesis using True Cons.prems(3) by (simp add: filter_id_conv)
  next
    case False
    then show ?thesis using Cons by auto
  qed
qed simp

definition table_state ::
  "('a \<Rightarrow> ptr set \<Rightarrow> bool) \<Rightarrow> ptr set \<Rightarrow> ('e, 'a) RTL_GENERIC_TABLE \<Rightarrow> ('e, 'a) table_mem \<Rightarrow> 'e list \<Rightarrow> bool" where
  \<comment> \<open>the table holds the elements \<open>xs\<close>, all its nodes are blocks in use, and no block
      covers the table's own list head\<close>
  "table_state holds avoid T m xs \<longleftrightarrow> (\<exists>t ns L. table_inv T m t ns \<and> holds (Pool m) L \<and> set ns \<subseteq> L \<and>
     (\<forall>p. node_entry p = InsertOrderList T \<longrightarrow> p \<in> avoid) \<and> xs = contents m ns)"

lemma table_inv_distinct: "table_inv T m t ns \<Longrightarrow> distinct ns"
  by (auto simp: table_inv_def is_list_def distinct_map)

locale table_user = generic_compare cmp + block_allocator alloc free holds avoid
  for cmp :: "'e \<Rightarrow> 'e \<Rightarrow> RTL_GENERIC_COMPARE_RESULTS"
    and alloc :: "'a \<Rightarrow> nat \<Rightarrow> 'a \<times> ptr" and free :: "'a \<Rightarrow> ptr \<Rightarrow> 'a"
    and holds :: "'a \<Rightarrow> ptr set \<Rightarrow> bool" and avoid :: "ptr set"
begin

definition my_table :: "('e, 'a) RTL_GENERIC_TABLE \<Rightarrow> bool" where
  "my_table T \<longleftrightarrow> CompareRoutine T = cmp \<and> AllocateRoutine T = alloc \<and> FreeRoutine T = free"

lemma present_contents:
  "CompareRoutine T = cmp \<Longrightarrow> list_ex (\<lambda>e. cmp b e = GenericEqual) (contents m ns) \<longleftrightarrow> present T m ns b"
  by (auto simp: present_def contents_def list_ex_iff)

lemma insert_step:
  assumes "table_state holds avoid T m xs" "my_table T"
  shows "\<exists>T' m' a xs'. table_call (TableInsert b n) T m = Some (T', m', a) \<and> dict_step cmp (TableInsert b n) xs a = Some xs' \<and>
    table_state holds avoid T' m' xs' \<and> my_table T'"
proof -
  obtain t ns L where s: "table_inv T m t ns" "holds (Pool m) L" "set ns \<subseteq> L"
    "\<forall>p. node_entry p = InsertOrderList T \<longrightarrow> p \<in> avoid" "xs = contents m ns"
    using assms(1) unfolding table_state_def by blast
  have r: "CompareRoutine T = cmp" "AllocateRoutine T = alloc" using assms(2) by (auto simp: my_table_def)
  obtain pool p where a: "alloc (Pool m) (u32 (n + 20)) = (pool, p)" by fastforce
  have p: "p \<noteq> NULL \<Longrightarrow> p \<notin> set ns \<and> node_entry p \<noteq> InsertOrderList T" "p \<noteq> NULL \<Longrightarrow> holds pool (insert p L)"
    using alloc_new [OF s(2) a] s(3,4) by auto
  have p0: "p = NULL \<Longrightarrow> holds pool L" using alloc_null [OF s(2)] a by blast
  have "length ns \<le> card L"
    using card_mono [of L "set ns"] s(3) bounded [OF s(2)] distinct_card [OF table_inv_distinct [OF s(1)]] by simp
  then have room: "length ns + 1 < MAXULONG" using bounded [OF s(2)] by simp
  note ex = present_contents [OF r(1), of b m ns, folded s(5)]
  from insert_inv [OF s(1) r(1) _ p(1) room, of n pool b] r(2) a obtain T' m' e new t' ns' where
    i: "RtlInsertElementGenericTable T m b n = Some (T', m', e, new)" "table_inv T' m' t' ns'" "same_routines T T'"
      "if present T m ns b then ns' = ns \<and> Elements m' = Elements m \<and> Pool m' = Pool m \<and> \<not> new \<and>
         (\<exists>n \<in> set ns. e = node_data n \<and> cmp b (Elements m e) = GenericEqual)
       else if p = NULL then T' = T \<and> m' = m\<lparr>Pool := pool\<rparr> \<and> ns' = ns \<and> e = NULL \<and> \<not> new
       else ns' = ns @ [p] \<and> e = node_data p \<and> new \<and> Elements m' = (Elements m)(e := b) \<and> Pool m' = pool" by blast
  have head: "\<forall>p. node_entry p = InsertOrderList T' \<longrightarrow> p \<in> avoid" and my: "my_table T'"
    using i(3) s(4) assms(2) by (auto simp: same_routines_def my_table_def)
  consider "present T m ns b" | "\<not> present T m ns b" "p = NULL" | "\<not> present T m ns b" "p \<noteq> NULL" by blast
  then show ?thesis
  proof cases
    case 1
    have "table_state holds avoid T' m' xs"
      unfolding table_state_def using i(2,4) 1 s(2,3,5) head by (intro exI [of _ t'] exI [of _ ns] exI [of _ L]) (simp add: contents_def)
    moreover have "e \<noteq> NULL" using i(4) 1 by auto
    ultimately show ?thesis using i(1,4) 1 ex my by auto
  next
    case 2
    have "table_state holds avoid T' m' xs"
      unfolding table_state_def using i(2,4) 2 s(3,5) p0 head by (intro exI [of _ t'] exI [of _ ns] exI [of _ L]) (simp add: contents_def)
    then show ?thesis using i(1,4) 2 ex my by simp
  next
    case 3
    have "contents m' (ns @ [p]) = xs @ [b]" using i(4) 3 p(1) s(5) by (auto simp: contents_def)
    then have "table_state holds avoid T' m' (xs @ [b])"
      unfolding table_state_def using i(2,4) 3 s(3) p(2) head by (intro exI [of _ t'] exI [of _ "ns @ [p]"] exI [of _ "insert p L"]) auto
    then show ?thesis using i(1,4) 3 ex my by simp
  qed
qed

lemma delete_step:
  assumes "table_state holds avoid T m xs" "my_table T"
  shows "\<exists>T' m' a xs'. table_call (TableDelete b) T m = Some (T', m', a) \<and> dict_step cmp (TableDelete b) xs a = Some xs' \<and>
    table_state holds avoid T' m' xs' \<and> my_table T'"
proof -
  obtain t ns L where s: "table_inv T m t ns" "holds (Pool m) L" "set ns \<subseteq> L"
    "\<forall>p. node_entry p = InsertOrderList T \<longrightarrow> p \<in> avoid" "xs = contents m ns"
    using assms(1) unfolding table_state_def by blast
  have r: "CompareRoutine T = cmp" "FreeRoutine T = free" using assms(2) by (auto simp: my_table_def)
  note ex = present_contents [OF r(1), of b m ns, folded s(5)]
  from delete_inv [OF s(1) r(1), of b] obtain T' m' t' ns' where
    i: "RtlDeleteElementGenericTable T m b = Some (T', m', present T m ns b)" "table_inv T' m' t' ns'"
      "Elements m' = Elements m" "same_routines T T'"
      "if present T m ns b
       then \<exists>n \<in> set ns. cmp b (Elements m (node_data n)) = GenericEqual \<and> ns' = remove1 n ns \<and> Pool m' = free (Pool m) n
       else T' = T \<and> m' = m \<and> ns' = ns" unfolding r(2) by blast
  have head: "\<forall>p. node_entry p = InsertOrderList T' \<longrightarrow> p \<in> avoid" and my: "my_table T'"
    using i(4) s(4) assms(2) by (auto simp: same_routines_def my_table_def)
  have d: "distinct ns" by (rule table_inv_distinct [OF s(1)])
  have "\<exists>L'. holds (Pool m') L' \<and> set ns' \<subseteq> L' \<and> contents m' ns' = filter (\<lambda>e. cmp b e \<noteq> GenericEqual) xs"
  proof (cases "present T m ns b")
    case False
    then have "filter (\<lambda>e. cmp b e \<noteq> GenericEqual) xs = xs" using s(5) r(1) by (auto simp: present_def contents_def filter_id_conv)
    then show ?thesis using False i(5) s by auto
  next
    case True
    then obtain n where n: "n \<in> set ns" "cmp b (Elements m (node_data n)) = GenericEqual" "ns' = remove1 n ns"
      "Pool m' = free (Pool m) n" using i(5) by auto
    have "contents m' ns' = filter (\<lambda>e. cmp b e \<noteq> GenericEqual) xs"
      unfolding contents_def s(5) n(3) i(3)
      by (rule remove1_unique [where Q = "\<lambda>e. cmp b e = GenericEqual"])
        (use d n equal_unique [OF s(1) r(1)] in blast)+
    moreover have "holds (Pool m') (L - {n})" "set ns' \<subseteq> L - {n}"
      using free_block [OF s(2), of n] n s(3) d by (auto simp: set_remove1_eq)
    ultimately show ?thesis by blast
  qed
  then have "table_state holds avoid T' m' (filter (\<lambda>e. cmp b e \<noteq> GenericEqual) xs)"
    unfolding table_state_def using i(2) head by metis
  then show ?thesis using i(1) ex my by simp
qed

lemma lookup_step:
  assumes "table_state holds avoid T m xs" "my_table T"
  shows "\<exists>T' m' a xs'. table_call (TableLookup b) T m = Some (T', m', a) \<and> dict_step cmp (TableLookup b) xs a = Some xs' \<and>
    table_state holds avoid T' m' xs' \<and> my_table T'"
proof -
  obtain t ns L where s: "table_inv T m t ns" "holds (Pool m) L" "set ns \<subseteq> L"
    "\<forall>p. node_entry p = InsertOrderList T \<longrightarrow> p \<in> avoid" "xs = contents m ns"
    using assms(1) unfolding table_state_def by blast
  have r: "CompareRoutine T = cmp" using assms(2) by (auto simp: my_table_def)
  from lookup_inv [OF s(1) r, of b] obtain T' m' t' e where
    i: "RtlLookupElementGenericTable T m b = Some (T', m', e)" "table_inv T' m' t' ns"
      "Elements m' = Elements m" "Pool m' = Pool m" "same_routines T T'"
      "if present T m ns b then \<exists>n \<in> set ns. e = node_data n \<and> cmp b (Elements m e) = GenericEqual else e = NULL" by blast
  have head: "\<forall>p. node_entry p = InsertOrderList T' \<longrightarrow> p \<in> avoid" and my: "my_table T'"
    using i(5) s(4) assms(2) by (auto simp: same_routines_def my_table_def)
  have "table_state holds avoid T' m' xs"
    unfolding table_state_def using i(2-4) s(2,3,5) head by (intro exI [of _ t'] exI [of _ ns] exI [of _ L]) (simp add: contents_def)
  moreover have "find (\<lambda>e. cmp b e = GenericEqual) xs = (if e = NULL then None else Some (Elements m e))"
  proof (cases "present T m ns b")
    case True
    then obtain n where n: "n \<in> set ns" "e = node_data n" "cmp b (Elements m e) = GenericEqual" using i(6) by auto
    have "find (\<lambda>e. cmp b e = GenericEqual) xs = Some (Elements m (node_data n))"
      unfolding s(5) contents_def by (rule find_unique) (use n equal_unique [OF s(1) r] in blast)+
    then show ?thesis using n(2) by simp
  next
    case False
    then show ?thesis using i(6) s(5) r by (auto simp: present_def contents_def find_None_iff)
  qed
  ultimately show ?thesis using i(1,3) my by auto
qed

lemma call_step:
  assumes "table_state holds avoid T m xs" "my_table T"
  shows "\<exists>T' m' a xs'. table_call op T m = Some (T', m', a) \<and> dict_step cmp op xs a = Some xs' \<and>
    table_state holds avoid T' m' xs' \<and> my_table T'"
proof (cases op)
  case (TableInsert b n)
  show ?thesis unfolding TableInsert by (rule insert_step [OF assms])
next
  case (TableDelete b)
  show ?thesis unfolding TableDelete by (rule delete_step [OF assms])
next
  case (TableLookup b)
  show ?thesis unfolding TableLookup by (rule lookup_step [OF assms])
qed

lemma run_refines:
  assumes "table_state holds avoid T m xs" "my_table T"
  shows "\<exists>T' m' as xs'. table_run ops T m = Some (T', m', as) \<and> dict_run cmp ops xs as = Some xs' \<and>
    table_state holds avoid T' m' xs' \<and> my_table T'"
  using assms
proof (induction ops arbitrary: T m xs)
  case (Cons op ops)
  obtain T1 m1 a xs1 where s: "table_call op T m = Some (T1, m1, a)" "dict_step cmp op xs a = Some xs1"
    "table_state holds avoid T1 m1 xs1" "my_table T1" using call_step [OF Cons.prems] by blast
  obtain T2 m2 as xs2 where "table_run ops T1 m1 = Some (T2, m2, as)" "dict_run cmp ops xs1 as = Some xs2"
    "table_state holds avoid T2 m2 xs2" "my_table T2" using Cons.IH [OF s(3,4)] by blast
  then show ?case using s(1,2) by (intro exI [of _ T2] exI [of _ m2] exI [of _ "a # as"] exI [of _ xs2]) simp
qed simp

end

lemma table_state_sorted:
  assumes "table_state holds avoid T m xs"
  shows "\<exists>ys. EnumerateAll T m = Some ys \<and> ListAll T m = Some ys \<and> mset ys = mset xs \<and>
    sorted_wrt (\<lambda>a b. CompareRoutine T a b = GenericLessThan) ys"
proof -
  obtain t ns where s: "table_inv T m t ns" "xs = contents m ns" using assms unfolding table_state_def by blast
  have "distinct (inorder t)" "set (inorder t) = set ns" "ordered_by (CompareRoutine T) (Elements m) (inorder t)"
    using s(1) by (auto simp: table_inv_def is_tree_def)
  moreover from this have "mset (inorder t) = mset ns"
    using table_inv_distinct [OF s(1)] by (simp add: set_eq_iff_mset_eq_distinct del: set_inorder)
  ultimately show ?thesis using EnumerateAll_sorted [OF s(1)] ListAll_sorted [OF s(1)] s(2)
    by (simp add: contents_def ordered_by_def sorted_wrt_map del: set_inorder)
qed

lemma table_state_init:
  assumes "RtlInitializeGenericTable h Head cmp alloc free context_ptr = (h', T)" "holds pool L"
    "\<And>p. node_entry p = Head \<Longrightarrow> p \<in> avoid"
  shows "table_state holds avoid T \<lparr>Links = links, Entries = h', Elements = el, Pool = pool\<rparr> []"
proof -
  have "table_inv T \<lparr>Links = links, Entries = h', Elements = el, Pool = pool\<rparr> Leaf []"
    using assms(1) InitializeListHead_is_list
    by (auto simp: table_inv_def RtlInitializeGenericTable_def is_tree_def ordered_by_def)
  then show ?thesis unfolding table_state_def
    using assms by (intro exI [of _ Leaf] exI [of _ "[]"] exI [of _ L]) (auto simp: contents_def RtlInitializeGenericTable_def)
qed

end
