(* ===== verification/Zone.thy ===== *)
theory Zone
  imports Allocator List_Entry "HOL-Library.Monad_Syntax"
begin

text \<open>
  The zone allocator (\<open>EX/ZONE.C\<close> and the zone macros of \<open>EX.H\<close>): fixed-size blocks carved
  out of segments, free blocks chained through their first word.  Memory is a word memory
  in which only the words the zone package uses matter.
\<close>

section \<open>The allocator\<close>

abbreviation (input) STATUS_SUCCESS :: nat where
  "STATUS_SUCCESS \<equiv> 0"

abbreviation (input) STATUS_UNSUCCESSFUL :: nat where
  "STATUS_UNSUCCESSFUL \<equiv> 0xC0000001"

abbreviation (input) STATUS_INVALID_PARAMETER :: nat where
  "STATUS_INVALID_PARAMETER \<equiv> 0xC000000D"

record ZONE_HEADER =
  FreeList :: ptr
  SegmentList :: ptr
  BlockSize :: nat
  TotalSegmentSize :: nat

datatype 'a outcome = Returns 'a | BugCheck nat nat nat

partial_function (option) CarveLoop ::
  "nat \<Rightarrow> nat \<Rightarrow> nat \<Rightarrow> ptr \<Rightarrow> single_heap \<Rightarrow> ptr \<Rightarrow> (single_heap \<times> ptr \<times> nat) option" where
  \<comment> \<open>the last argument and the second result are \<open>Zone->FreeList.Next\<close>\<close>
  "CarveLoop Size Last i p h Next =
     (if i \<le> Last then CarveLoop Size Last (u32 (i + Size)) (u32 (p + Size)) (h(p := Next)) p
      else Some (h, Next, i))"

definition ExInitializeZone ::
  "bool \<Rightarrow> ZONE_HEADER \<Rightarrow> single_heap \<Rightarrow> nat \<Rightarrow> ptr \<Rightarrow> nat \<Rightarrow> (nat \<times> ZONE_HEADER \<times> single_heap) outcome option" where
  \<comment> \<open>the first argument tells whether \<open>MmQuerySystemSize\<close> answers \<open>MmSmallSystem\<close>; a page has 4096 bytes\<close>
  "ExInitializeZone SmallSystem Zone h Size InitialSegment InitialSegmentSize =
     (if SmallSystem \<and> InitialSegmentSize > 2 * 4096 then Some (BugCheck 0x4D 0x123 InitialSegmentSize)
      else if Size mod 8 \<noteq> 0 \<or> InitialSegment mod 8 \<noteq> 0 \<or> Size > InitialSegmentSize
      then Some (Returns (STATUS_INVALID_PARAMETER, Zone, h))
      else do {
        let Zone = Zone\<lparr>BlockSize := Size, SegmentList := InitialSegment\<rparr>;
        let h = h(InitialSegment := NULL, u32 (InitialSegment + 4) := NULL);
        (h, Next, i) \<leftarrow> CarveLoop Size (u32_sub InitialSegmentSize Size) 8 (u32 (InitialSegment + 8)) h NULL;
        Some (Returns (STATUS_SUCCESS, Zone\<lparr>FreeList := Next, TotalSegmentSize := i\<rparr>, h))
      })"

definition ExExtendZone ::
  "ZONE_HEADER \<Rightarrow> single_heap \<Rightarrow> ptr \<Rightarrow> nat \<Rightarrow> (nat \<times> ZONE_HEADER \<times> single_heap) option" where
  "ExExtendZone Zone h Segment SegmentSize =
     (if Segment mod 8 \<noteq> 0 \<or> SegmentSize mod 8 \<noteq> 0 \<or> BlockSize Zone > SegmentSize
      then Some (STATUS_UNSUCCESSFUL, Zone, h)
      else do {
        let h = h(Segment := SegmentList Zone);
        let Zone = Zone\<lparr>SegmentList := Segment\<rparr>;
        (h, Next, i) \<leftarrow> CarveLoop (BlockSize Zone) (u32_sub SegmentSize (BlockSize Zone)) 8 (u32 (Segment + 8)) h (FreeList Zone);
        Some (STATUS_SUCCESS, Zone\<lparr>FreeList := Next, TotalSegmentSize := u32 (TotalSegmentSize Zone + i)\<rparr>, h)
      })"

definition ExInterlockedExtendZone ::
  "ZONE_HEADER \<Rightarrow> single_heap \<Rightarrow> ptr \<Rightarrow> nat \<Rightarrow> (nat \<times> ZONE_HEADER \<times> single_heap) option" where
  \<comment> \<open>the spin lock makes the extension one step for every other processor\<close>
  "ExInterlockedExtendZone Zone h Segment SegmentSize = ExExtendZone Zone h Segment SegmentSize"

definition ExAllocateFromZone :: "ZONE_HEADER \<Rightarrow> single_heap \<Rightarrow> ZONE_HEADER \<times> ptr" where
  "ExAllocateFromZone Zone h =
     (if FreeList Zone \<noteq> NULL then Zone\<lparr>FreeList := h (FreeList Zone)\<rparr> else Zone, FreeList Zone)"

definition ExFreeToZone :: "ZONE_HEADER \<Rightarrow> single_heap \<Rightarrow> ptr \<Rightarrow> ZONE_HEADER \<times> single_heap \<times> ptr" where
  "ExFreeToZone Zone h Block =
     (let h = h(Block := FreeList Zone);
          Zone = Zone\<lparr>FreeList := Block\<rparr>
      in (Zone, h, h Block))"

definition ExIsFullZone :: "ZONE_HEADER \<Rightarrow> bool" where
  "ExIsFullZone Zone \<longleftrightarrow> FreeList Zone = NULL"

definition ExIsObjectInFirstZoneSegment :: "ZONE_HEADER \<Rightarrow> ptr \<Rightarrow> bool" where
  "ExIsObjectInFirstZoneSegment Zone Object \<longleftrightarrow>
     SegmentList Zone \<le> Object \<and> Object < u32 (SegmentList Zone + TotalSegmentSize Zone)"

section \<open>The free list\<close>

fun free_chain :: "single_heap \<Rightarrow> ptr \<Rightarrow> ptr list \<Rightarrow> bool" where
  "free_chain h p [] \<longleftrightarrow> p = NULL"
| "free_chain h p (x # xs) \<longleftrightarrow> p = x \<and> x \<noteq> NULL \<and> free_chain h (h x) xs"

lemma free_chain_frame: "free_chain h p xs \<Longrightarrow> (\<And>x. x \<in> set xs \<Longrightarrow> h' x = h x) \<Longrightarrow> free_chain h' p xs"
  by (induction xs arbitrary: p) auto

lemma free_chain_null: "free_chain h p xs \<Longrightarrow> p = NULL \<longleftrightarrow> xs = []"
  by (cases xs) auto

lemma free_chain_push:
  "free_chain h p xs \<Longrightarrow> x \<noteq> NULL \<Longrightarrow> x \<notin> set xs \<Longrightarrow> free_chain (h(x := p)) x (x # xs)"
  by (auto intro: free_chain_frame)

fun blocks :: "ptr \<Rightarrow> nat \<Rightarrow> nat \<Rightarrow> ptr list" where
  \<comment> \<open>\<open>k\<close> blocks of \<open>Size\<close> bytes from \<open>p\<close> on\<close>
  "blocks p Size 0 = []"
| "blocks p Size (Suc k) = p # blocks (p + Size) Size k"

lemma set_blocks: "set (blocks p Size k) = (\<lambda>j. p + j * Size) ` {..<k}"
proof (induction k arbitrary: p)
  case (Suc k)
  have "{..<Suc k} = insert 0 (Suc ` {..<k})" by (auto simp: lessThan_Suc_eq_insert_0)
  then show ?case using Suc by (simp add: image_image add.assoc [symmetric] add.commute)
qed simp

definition push_all :: "ptr list \<Rightarrow> single_heap \<Rightarrow> ptr \<Rightarrow> single_heap \<times> ptr" where
  \<comment> \<open>the blocks are pushed on the free list one after the other\<close>
  "push_all xs h Next = fold (\<lambda>x (h, n). (h(x := n), x)) xs (h, Next)"

lemma push_all_Cons: "push_all (x # xs) h Next = push_all xs (h(x := Next)) x"
  by (simp add: push_all_def)

lemma push_all_chain:
  assumes "free_chain h Next xs" "distinct (bs @ xs)" "NULL \<notin> set bs" "push_all bs h Next = (h', n)"
  shows "free_chain h' n (rev bs @ xs) \<and> (\<forall>y. y \<notin> set bs \<longrightarrow> h' y = h y)"
  using assms
proof (induction bs arbitrary: h Next xs)
  case (Cons b bs)
  have c: "free_chain (h(b := Next)) b (b # xs)" by (rule free_chain_push) (use Cons.prems in auto)
  have p: "push_all bs (h(b := Next)) b = (h', n)" using Cons.prems(4) unfolding push_all_Cons .
  have "free_chain h' n (rev bs @ b # xs) \<and> (\<forall>y. y \<notin> set bs \<longrightarrow> h' y = (h(b := Next)) y)"
    by (rule Cons.IH [OF c _ _ p]) (use Cons.prems(2,3) in auto)
  then show ?case by auto
qed (auto simp: push_all_def)

lemma CarveLoop_blocks:
  assumes "i + k * Size \<le> SegmentSize" "SegmentSize < i + Suc k * Size" "p + k * Size < 4294967296"
    "SegmentSize < 4294967296" "Size \<le> SegmentSize" "push_all (blocks p Size k) h Next = (h', n)"
  shows "CarveLoop Size (SegmentSize - Size) i p h Next = Some (h', n, i + k * Size)"
  using assms(1-3,6)
proof (induction k arbitrary: i p h Next)
  case 0
  then show ?case using assms(5) by (subst CarveLoop.simps) (auto simp: push_all_def)
next
  case (Suc k)
  then have "u32 (i + Size) = i + Size" "u32 (p + Size) = p + Size" "i \<le> SegmentSize - Size"
    using assms(4) by (auto intro!: u32_id)
  moreover have "push_all (blocks (p + Size) Size k) (h(p := Next)) p = (h', n)"
    using Suc.prems(4) unfolding blocks.simps push_all_Cons .
  then have "CarveLoop Size (SegmentSize - Size) (i + Size) (p + Size) (h(p := Next)) p = Some (h', n, i + Size + k * Size)"
    by (rule Suc.IH [rotated 3]) (use Suc.prems in simp_all)
  ultimately show ?case by (subst CarveLoop.simps) (simp add: ac_simps)
qed

section \<open>Carving segments\<close>

definition segment_blocks :: "ptr \<Rightarrow> nat \<Rightarrow> nat \<Rightarrow> ptr list" where
  \<comment> \<open>the blocks behind the header of a segment\<close>
  "segment_blocks Segment SegmentSize Size = blocks (Segment + 8) Size ((SegmentSize - 8) div Size)"

definition apart :: "nat \<Rightarrow> ptr list \<Rightarrow> bool" where
  \<comment> \<open>blocks of the size do not overlap\<close>
  "apart Size bs \<longleftrightarrow> sorted_wrt (\<lambda>a b. a + Size \<le> b) bs"

lemma blocks_apart: "apart Size (blocks p Size k)"
proof (induction k arbitrary: p)
  case (Suc k)
  then show ?case by (auto simp: apart_def set_blocks)
qed (simp add: apart_def)

lemma segment_blocks_in:
  assumes "x \<in> set (segment_blocks Segment SegmentSize Size)" "8 \<le> SegmentSize"
  shows "Segment + 8 \<le> x" "x + Size \<le> Segment + SegmentSize"
proof -
  obtain j where j: "x = Segment + 8 + j * Size" "j < (SegmentSize - 8) div Size"
    using assms(1) by (auto simp: segment_blocks_def set_blocks)
  have "Suc j * Size \<le> (SegmentSize - 8) div Size * Size" using j(2) by (intro mult_le_mono1) simp
  also have "\<dots> \<le> SegmentSize - 8" by simp
  finally show "Segment + 8 \<le> x" "x + Size \<le> Segment + SegmentSize" using j(1) assms(2) by auto
qed

lemma apart_distinct: "0 < Size \<Longrightarrow> apart Size bs \<Longrightarrow> distinct bs"
  unfolding apart_def by (induction bs) force+

lemma carve_segment:
  assumes "0 < Size" "Size \<le> SegmentSize" "8 \<le> SegmentSize" "Segment + SegmentSize < 4294967296"
    and "free_chain h Next xs" "set xs \<inter> {Segment..<Segment + SegmentSize} = {}" "distinct xs"
  defines "bs \<equiv> segment_blocks Segment SegmentSize Size"
  shows "\<exists>h' n. CarveLoop Size (u32_sub SegmentSize Size) 8 (u32 (Segment + 8)) h Next =
      Some (h', n, 8 + (SegmentSize - 8) div Size * Size) \<and>
    free_chain h' n (rev bs @ xs) \<and> (\<forall>y. y \<notin> set bs \<longrightarrow> h' y = h y)"
proof -
  let ?k = "(SegmentSize - 8) div Size"
  obtain h' n where p: "push_all bs h Next = (h', n)" by fastforce
  have k: "?k * Size \<le> SegmentSize - 8" "SegmentSize - 8 < Suc ?k * Size"
    using dividend_less_div_times [OF assms(1), of "SegmentSize - 8"] by auto
  then have k': "8 + ?k * Size \<le> SegmentSize" "SegmentSize < 8 + Suc ?k * Size" "Segment + 8 + ?k * Size < 4294967296"
    using assms(3,4) by linarith+
  have w: "u32_sub SegmentSize Size = SegmentSize - Size" "u32 (Segment + 8) = Segment + 8"
    using assms by (auto intro!: u32_sub_id u32_id)
  have "CarveLoop Size (SegmentSize - Size) 8 (Segment + 8) h Next = Some (h', n, 8 + ?k * Size)"
    by (rule CarveLoop_blocks [OF k' _ assms(2)]) (use assms(4) p in \<open>simp_all add: bs_def segment_blocks_def\<close>)
  moreover have "free_chain h' n (rev bs @ xs) \<and> (\<forall>y. y \<notin> set bs \<longrightarrow> h' y = h y)"
  proof (rule push_all_chain [OF assms(5) _ _ p])
    have in_seg: "x \<in> {Segment..<Segment + SegmentSize} \<and> 0 < x" if "x \<in> set bs" for x
      using segment_blocks_in [of x Segment SegmentSize Size] that assms by auto
    then show "distinct (bs @ xs)" "NULL \<notin> set bs"
      using assms(6,7) apart_distinct [OF assms(1), of bs] blocks_apart by (auto simp: bs_def segment_blocks_def)
  qed
  ultimately show ?thesis using w by auto
qed

section \<open>The zone as an allocator\<close>

definition zone_alloc :: "ZONE_HEADER \<times> single_heap \<Rightarrow> nat \<Rightarrow> (ZONE_HEADER \<times> single_heap) \<times> ptr" where
  \<comment> \<open>a request is served by one block, whatever its size\<close>
  "zone_alloc s n = (let (Zone, p) = ExAllocateFromZone (fst s) (snd s) in ((Zone, snd s), p))"

definition zone_free :: "ZONE_HEADER \<times> single_heap \<Rightarrow> ptr \<Rightarrow> ZONE_HEADER \<times> single_heap" where
  "zone_free s p = (let (Zone, h, _) = ExFreeToZone (fst s) (snd s) p in (Zone, h))"

definition block_area :: "ptr set" where
  "block_area = (\<lambda>k. 8 * k) ` {1..<536870912}"

definition zone_holds :: "ptr set \<Rightarrow> ZONE_HEADER \<times> single_heap \<Rightarrow> ptr set \<Rightarrow> bool" where
  "zone_holds avoid s L \<longleftrightarrow> L \<subseteq> block_area \<and> L \<inter> avoid = {} \<and>
     (\<exists>xs. free_chain (snd s) (FreeList (fst s)) xs \<and> distinct xs \<and> set xs \<subseteq> block_area \<and> set xs \<inter> avoid = {} \<and> set xs \<inter> L = {})"

lemma block_area_bounds: "finite block_area" "card block_area < 536870912" "NULL \<notin> block_area"
proof -
  show "finite block_area" "NULL \<notin> block_area" by (auto simp: block_area_def)
  show "card block_area < 536870912"
    using card_image_le [of "{1..<536870912 :: nat}" "\<lambda>k. 8 * k"] by (simp add: block_area_def)
qed

interpretation zone_blocks: block_allocator zone_alloc zone_free "zone_holds avoid" avoid for avoid
proof
  fix s :: "ZONE_HEADER \<times> single_heap" and L n s' p
  obtain Zone h where s: "s = (Zone, h)" by fastforce
  assume z: "zone_holds avoid s L"
  then obtain xs where xs: "free_chain h (FreeList Zone) xs" "distinct xs" "set xs \<subseteq> block_area"
    "set xs \<inter> avoid = {}" "set xs \<inter> L = {}" and L: "L \<subseteq> block_area" "L \<inter> avoid = {}" by (auto simp: zone_holds_def s)
  show "finite L \<and> card L + 1 < MAXULONG"
    using L(1) card_mono [OF block_area_bounds(1) L(1)] block_area_bounds by (auto intro: finite_subset)
  show "zone_holds avoid s' L" if "zone_alloc s n = (s', NULL)"
    using that z by (auto simp: zone_alloc_def ExAllocateFromZone_def s)
  show "p \<notin> L \<and> p \<notin> avoid \<and> zone_holds avoid s' (insert p L)" if a: "zone_alloc s n = (s', p)" "p \<noteq> NULL"
  proof -
    have "p = FreeList Zone" using a(1) by (simp add: zone_alloc_def ExAllocateFromZone_def s)
    then obtain x ys where x: "xs = x # ys" using a(2) xs(1) by (cases xs) simp_all
    then have p: "p = x" "s' = (Zone\<lparr>FreeList := h x\<rparr>, h)"
      using a xs(1) by (auto simp: zone_alloc_def ExAllocateFromZone_def s)
    show ?thesis using x xs L unfolding p zone_holds_def by (auto intro!: exI [of _ ys])
  qed
  show "zone_holds avoid (zone_free s p) (L - {p})" if "p \<in> L"
  proof -
    have "zone_free s p = (Zone\<lparr>FreeList := p\<rparr>, h(p := FreeList Zone))" by (simp add: zone_free_def ExFreeToZone_def s)
    moreover have "free_chain (h(p := FreeList Zone)) p (p # xs)"
      by (rule free_chain_push [OF xs(1)]) (use that xs L block_area_bounds(3) in auto)
    ultimately show ?thesis using xs L that unfolding zone_holds_def by (auto intro!: exI [of _ "p # xs"] simp del: free_chain.simps)
  qed
qed

section \<open>Properties\<close>

definition carved :: "ptr \<Rightarrow> nat \<Rightarrow> nat \<Rightarrow> ptr list \<Rightarrow> bool" where
  \<comment> \<open>as many blocks as fit behind the segment header, inside the segment and disjoint\<close>
  "carved Segment SegmentSize Size bs \<longleftrightarrow> length bs = (SegmentSize - 8) div Size \<and> apart Size bs \<and>
     (\<forall>b \<in> set bs. Segment + 8 \<le> b \<and> b + Size \<le> Segment + SegmentSize)"

lemma length_blocks [simp]: "length (blocks p Size k) = k"
  by (induction k arbitrary: p) auto

lemma segment_blocks_carved: "8 \<le> SegmentSize \<Longrightarrow> carved Segment SegmentSize Size (segment_blocks Segment SegmentSize Size)"
  using segment_blocks_in [of _ Segment SegmentSize Size]
  by (auto simp: carved_def segment_blocks_def blocks_apart)

lemma init_blocks:
  assumes "0 < Size" "Size mod 8 = 0" "Segment mod 8 = 0" "Size \<le> SegmentSize" "Segment + SegmentSize < 4294967296"
    and "\<not> (SmallSystem \<and> SegmentSize > 2 * 4096)"
  shows "\<exists>Zone' h' bs. ExInitializeZone SmallSystem Zone h Size Segment SegmentSize = Some (Returns (STATUS_SUCCESS, Zone', h')) \<and>
    free_chain h' (FreeList Zone') (rev bs) \<and> carved Segment SegmentSize Size bs \<and> BlockSize Zone' = Size \<and>
    (\<forall>y. y \<notin> set bs \<union> {Segment, Segment + 4} \<longrightarrow> h' y = h y)"
proof -
  have "8 \<le> Size" using assms(1,2) by (cases "Size < 8") auto
  then have s: "8 \<le> SegmentSize" "u32 (Segment + 4) = Segment + 4" using assms by (auto intro!: u32_id)
  let ?h = "h(Segment := NULL, Segment + 4 := NULL)"
  from carve_segment [OF assms(1,4) s(1) assms(5), of ?h NULL "[]"] obtain h' n where
    c: "CarveLoop Size (u32_sub SegmentSize Size) 8 (u32 (Segment + 8)) ?h NULL = Some (h', n, 8 + (SegmentSize - 8) div Size * Size)"
      "free_chain h' n (rev (segment_blocks Segment SegmentSize Size))"
      "\<forall>y. y \<notin> set (segment_blocks Segment SegmentSize Size) \<longrightarrow> h' y = ?h y" by auto
  let ?Zone = "Zone\<lparr>BlockSize := Size, SegmentList := Segment, FreeList := n, TotalSegmentSize := 8 + (SegmentSize - 8) div Size * Size\<rparr>"
  have "ExInitializeZone SmallSystem Zone h Size Segment SegmentSize = Some (Returns (STATUS_SUCCESS, ?Zone, h'))"
    using assms c(1) s(2) unfolding ExInitializeZone_def Let_def by simp
  then show ?thesis using c(2,3) segment_blocks_carved [OF s(1)]
    by (intro exI [of _ ?Zone] exI [of _ h'] exI [of _ "segment_blocks Segment SegmentSize Size"]) simp
qed

text \<open>
  C36: on a segment of whole addresses \<open>ExInitializeZone\<close> returns, and the zone's free
  list then holds as many blocks as fit behind the segment header; they lie inside the
  segment, do not overlap, and nothing but them and the header was written.
\<close>

theorem ExInitializeZone_blocks:
  assumes "0 < Size" "Size mod 8 = 0" "Segment mod 8 = 0" "Size \<le> SegmentSize" "Segment + SegmentSize < 4294967296"
    and "\<not> (SmallSystem \<and> SegmentSize > 2 * 4096)"
  shows "\<exists>Zone' h' bs. ExInitializeZone SmallSystem Zone h Size Segment SegmentSize = Some (Returns (STATUS_SUCCESS, Zone', h')) \<and>
    free_chain h' (FreeList Zone') (rev bs) \<and> carved Segment SegmentSize Size bs \<and> BlockSize Zone' = Size \<and>
    (\<forall>y. y \<notin> set bs \<union> {Segment, Segment + 4} \<longrightarrow> h' y = h y)"
  using init_blocks [OF assms] .

theorem ExInitializeZone_blocks_witness:
  "\<exists>Zone' h' bs. ExInitializeZone False \<lparr>FreeList = 1, SegmentList = 2, BlockSize = 3, TotalSegmentSize = 4\<rparr> (\<lambda>_. 9) 16 64 56 =
       Some (Returns (STATUS_SUCCESS, Zone', h')) \<and>
     free_chain h' (FreeList Zone') (rev bs) \<and> carved 64 56 16 bs \<and> BlockSize Zone' = 16 \<and>
     (\<forall>y. y \<notin> set bs \<union> {64, 64 + 4} \<longrightarrow> h' y = 9)"
  using ExInitializeZone_blocks [of 16 64 56 False] by simp

lemma extend_blocks:
  assumes "free_chain h (FreeList Zone) xs" "distinct xs" "set xs \<inter> {Segment..<Segment + SegmentSize} = {}"
    and "0 < BlockSize Zone" "8 \<le> SegmentSize" "Segment + SegmentSize < 4294967296"
  shows "if Segment mod 8 = 0 \<and> SegmentSize mod 8 = 0 \<and> BlockSize Zone \<le> SegmentSize
    then \<exists>Zone' h' bs. ExExtendZone Zone h Segment SegmentSize = Some (STATUS_SUCCESS, Zone', h') \<and>
      free_chain h' (FreeList Zone') (rev bs @ xs) \<and> carved Segment SegmentSize (BlockSize Zone) bs
    else ExExtendZone Zone h Segment SegmentSize = Some (STATUS_UNSUCCESSFUL, Zone, h)"
proof (cases "Segment mod 8 = 0 \<and> SegmentSize mod 8 = 0 \<and> BlockSize Zone \<le> SegmentSize")
  case True
  let ?h = "h(Segment := SegmentList Zone)"
  have "free_chain ?h (FreeList Zone) xs"
    by (rule free_chain_frame [OF assms(1)]) (use assms(3,5) in auto)
  from carve_segment [OF assms(4) _ assms(5,6) this assms(3,2)] True obtain h' n where
    c: "CarveLoop (BlockSize Zone) (u32_sub SegmentSize (BlockSize Zone)) 8 (u32 (Segment + 8)) ?h (FreeList Zone) =
        Some (h', n, 8 + (SegmentSize - 8) div BlockSize Zone * BlockSize Zone)"
      "free_chain h' n (rev (segment_blocks Segment SegmentSize (BlockSize Zone)) @ xs)" by blast
  let ?Zone = "Zone\<lparr>SegmentList := Segment, FreeList := n,
    TotalSegmentSize := u32 (TotalSegmentSize Zone + (8 + (SegmentSize - 8) div BlockSize Zone * BlockSize Zone))\<rparr>"
  have "ExExtendZone Zone h Segment SegmentSize = Some (STATUS_SUCCESS, ?Zone, h')"
    using True c(1) unfolding ExExtendZone_def Let_def by simp
  then show ?thesis using True c(2) segment_blocks_carved [OF assms(5)] by auto
qed (auto simp: ExExtendZone_def)

text \<open>
  C37: \<open>ExExtendZone\<close> with a segment that meets the checks adds the blocks of the segment
  in front of the free blocks the zone had; a segment that fails a check changes nothing.
\<close>

theorem ExExtendZone_blocks:
  assumes "free_chain h (FreeList Zone) xs" "distinct xs" "set xs \<inter> {Segment..<Segment + SegmentSize} = {}"
    and "0 < BlockSize Zone" "8 \<le> SegmentSize" "Segment + SegmentSize < 4294967296"
  shows "if Segment mod 8 = 0 \<and> SegmentSize mod 8 = 0 \<and> BlockSize Zone \<le> SegmentSize
    then \<exists>Zone' h' bs. ExExtendZone Zone h Segment SegmentSize = Some (STATUS_SUCCESS, Zone', h') \<and>
      free_chain h' (FreeList Zone') (rev bs @ xs) \<and> carved Segment SegmentSize (BlockSize Zone) bs
    else ExExtendZone Zone h Segment SegmentSize = Some (STATUS_UNSUCCESSFUL, Zone, h)"
  using extend_blocks [OF assms] .

theorem ExExtendZone_blocks_witness:
  "\<exists>Zone' h' bs. ExExtendZone \<lparr>FreeList = 8, SegmentList = 2, BlockSize = 16, TotalSegmentSize = 4\<rparr> (\<lambda>_. 0) 64 56 =
       Some (STATUS_SUCCESS, Zone', h') \<and>
     free_chain h' (FreeList Zone') (rev bs @ [8]) \<and> carved 64 56 16 bs"
  using ExExtendZone_blocks [of "\<lambda>_. 0" "\<lparr>FreeList = 8, SegmentList = 2, BlockSize = 16, TotalSegmentSize = 4\<rparr>" "[8]" 64 56] by simp

lemma CarveLoop_zero:
  assumes "CarveLoop Size Last i p h Next = Some r"
  shows "Size = 0 \<longrightarrow> i < 4294967296 \<longrightarrow> Last < i"
  using assms
proof (rule CarveLoop.raw_induct [where P = "\<lambda>Size Last i p h Next r. Size = 0 \<longrightarrow> i < 4294967296 \<longrightarrow> Last < i", rotated])
  fix f Size Last i p h Next r
  assume IH: "\<And>Size Last i p h Next r. f Size Last i p h Next = Some r \<Longrightarrow> Size = 0 \<longrightarrow> i < 4294967296 \<longrightarrow> Last < i"
    and step: "(if i \<le> Last then f Size Last (u32 (i + Size)) (u32 (p + Size)) (h(p := Next)) p else Some (h, Next, i)) = Some r"
  show "Size = 0 \<longrightarrow> i < 4294967296 \<longrightarrow> Last < i"
    using IH [of Size Last "u32 (i + Size)" "u32 (p + Size)" "h(p := Next)" p r] step by (auto split: if_splits)
qed

text \<open>
  C38: a block size of zero passes the checks of \<open>ExInitializeZone\<close>, which then never
  returns.
\<close>

theorem ExInitializeZone_zero:
  assumes "Segment mod 8 = 0" "8 \<le> SegmentSize" "SegmentSize < 4294967296"
  shows "ExInitializeZone False Zone h 0 Segment SegmentSize = None"
proof -
  have "CarveLoop 0 (u32_sub SegmentSize 0) 8 p h' n = None" for p h' n
    using CarveLoop_zero [of 0 "u32_sub SegmentSize 0" 8 p h' n] assms(2,3)
    by (cases "CarveLoop 0 (u32_sub SegmentSize 0) 8 p h' n") fastforce+
  then show ?thesis using assms(1) by (simp add: ExInitializeZone_def Let_def)
qed

theorem ExInitializeZone_zero_witness:
  "ExInitializeZone False \<lparr>FreeList = 1, SegmentList = 2, BlockSize = 3, TotalSegmentSize = 4\<rparr> (\<lambda>_. 9) 0 64 64 = None"
  by (rule ExInitializeZone_zero) simp_all

text \<open>
  C39: \<open>ExIsObjectInFirstZoneSegment\<close> recognises every block of the first segment right
  after initialisation, and none of them any more once the zone was extended by a segment
  at a higher address.
\<close>

theorem ExIsObjectInFirstZoneSegment_extended:
  assumes "0 < Size" "Segment + SegmentSize < 4294967296" "8 \<le> SegmentSize" "Size \<le> SegmentSize" "Segment + SegmentSize \<le> Segment2"
    and init: "ExInitializeZone False Zone h Size Segment SegmentSize = Some (Returns (STATUS_SUCCESS, Zone1, h1))"
    and ext: "ExExtendZone Zone1 h1 Segment2 SegmentSize2 = Some (STATUS_SUCCESS, Zone2, h2)"
    and b: "b \<in> set (segment_blocks Segment SegmentSize Size)"
  shows "ExIsObjectInFirstZoneSegment Zone1 b \<and> \<not> ExIsObjectInFirstZoneSegment Zone2 b"
proof
  let ?h = "h(Segment := NULL, u32 (Segment + 4) := NULL)"
  from carve_segment [OF assms(1,4,3,2), of ?h NULL "[]"] obtain h' n where
    "CarveLoop Size (u32_sub SegmentSize Size) 8 (u32 (Segment + 8)) ?h NULL = Some (h', n, 8 + (SegmentSize - 8) div Size * Size)" by auto
  then have z: "SegmentList Zone1 = Segment" "TotalSegmentSize Zone1 = 8 + (SegmentSize - 8) div Size * Size"
    using init by (auto simp: ExInitializeZone_def Let_def split: if_splits)
  obtain j where j: "b = Segment + 8 + j * Size" "j < (SegmentSize - 8) div Size"
    using b by (auto simp: segment_blocks_def set_blocks)
  then have "j * Size < (SegmentSize - 8) div Size * Size" using assms(1) by simp
  moreover have "(SegmentSize - 8) div Size * Size \<le> SegmentSize - 8" by simp
  ultimately show "ExIsObjectInFirstZoneSegment Zone1 b"
    unfolding ExIsObjectInFirstZoneSegment_def z j(1) using assms(2,3) by (subst u32_id) linarith+
  have "SegmentList Zone2 = Segment2"
    using ext by (auto simp: ExExtendZone_def Let_def split: if_splits bind_splits)
  moreover have "b < Segment2" using segment_blocks_in [OF b assms(3)] assms(1,5) by linarith
  ultimately show "\<not> ExIsObjectInFirstZoneSegment Zone2 b" by (simp add: ExIsObjectInFirstZoneSegment_def)
qed

lemma two_segments:
  "\<exists>Zone1 h1 Zone2 h2. ExInitializeZone False \<lparr>FreeList = 1, SegmentList = 2, BlockSize = 3, TotalSegmentSize = 4\<rparr> (\<lambda>_. 9) 16 64 56 =
       Some (Returns (STATUS_SUCCESS, Zone1, h1)) \<and>
     ExExtendZone Zone1 h1 1024 56 = Some (STATUS_SUCCESS, Zone2, h2)"
proof -
  from init_blocks [of 16 64 56 False "\<lparr>FreeList = 1, SegmentList = 2, BlockSize = 3, TotalSegmentSize = 4\<rparr>" "\<lambda>_. 9"]
  obtain Zone1 h1 bs where z: "ExInitializeZone False \<lparr>FreeList = 1, SegmentList = 2, BlockSize = 3, TotalSegmentSize = 4\<rparr> (\<lambda>_. 9) 16 64 56 =
      Some (Returns (STATUS_SUCCESS, Zone1, h1))" "free_chain h1 (FreeList Zone1) (rev bs)" "carved 64 56 16 bs" "BlockSize Zone1 = 16"
    by auto
  have "distinct (rev bs)" "set (rev bs) \<inter> {1024..<1024 + 56} = {}"
    using z(3) apart_distinct [of 16 bs] by (auto simp: carved_def)
  from extend_blocks [OF z(2) this] show ?thesis using z by auto
qed

theorem ExIsObjectInFirstZoneSegment_extended_witness:
  "\<exists>Zone1 h1 Zone2 h2. ExInitializeZone False \<lparr>FreeList = 1, SegmentList = 2, BlockSize = 3, TotalSegmentSize = 4\<rparr> (\<lambda>_. 9) 16 64 56 =
       Some (Returns (STATUS_SUCCESS, Zone1, h1)) \<and>
     ExExtendZone Zone1 h1 1024 56 = Some (STATUS_SUCCESS, Zone2, h2) \<and>
     ExIsObjectInFirstZoneSegment Zone1 72 \<and> \<not> ExIsObjectInFirstZoneSegment Zone2 72"
proof -
  have "72 \<in> set (segment_blocks 64 56 16)" by (simp add: segment_blocks_def set_blocks image_def) 
  then show ?thesis
    using two_segments ExIsObjectInFirstZoneSegment_extended [of 16 64 56 1024 _ _ _ _ 56 _ _ 72] by fastforce
qed

end
