(* ===== verification/Fcb_Table.thy ===== *)
theory Fcb_Table
  imports Table_Run Zone
begin

text \<open>
  The file control block table of NTFS (\<open>NTFS/STRUCSUP.C\<close>), a generic table whose nodes
  come from a small array of free nodes backed by the pool.  The pool routines are
  parameters: \<open>FsRtlAllocatePool\<close> raises an exception where the model returns null, which
  leaves the table as it is in both cases.
\<close>

section \<open>Model\<close>

record FCB_TABLE_ELEMENT =
  FileReference :: "64 word" \<comment> \<open>the eight bytes of the file reference as a \<open>LONGLONG\<close>\<close>
  Fcb :: ptr

definition NtfsFcbTableCompare :: "FCB_TABLE_ELEMENT \<Rightarrow> FCB_TABLE_ELEMENT \<Rightarrow> RTL_GENERIC_COMPARE_RESULTS" where
  "NtfsFcbTableCompare FirstStruct SecondStruct =
     (let Key1 = sint (FileReference FirstStruct);
          Key2 = sint (FileReference SecondStruct)
      in if Key1 < Key2 then GenericLessThan
         else if Key1 > Key2 then GenericGreaterThan
         else GenericEqual)"

record 'p NTFS_DATA =
  FreeFcbTableArray :: "nat \<Rightarrow> ptr"
  FreeFcbTableSize :: nat
  NtfsPool :: 'p

definition NtfsAllocateFcbTable :: "('p \<Rightarrow> nat \<Rightarrow> 'p \<times> ptr) \<Rightarrow> 'p NTFS_DATA \<Rightarrow> nat \<Rightarrow> 'p NTFS_DATA \<times> ptr" where
  "NtfsAllocateFcbTable AllocatePool d S =
     (if FreeFcbTableSize d > 0
      then let n = FreeFcbTableSize d - 1 in (d\<lparr>FreeFcbTableSize := n\<rparr>, FreeFcbTableArray d n)
      else let (pool, p) = AllocatePool (NtfsPool d) S in (d\<lparr>NtfsPool := pool\<rparr>, p))"

definition NtfsFreeFcbTable :: "('p \<Rightarrow> ptr \<Rightarrow> 'p) \<Rightarrow> 'p NTFS_DATA \<Rightarrow> ptr \<Rightarrow> 'p NTFS_DATA" where
  "NtfsFreeFcbTable FreePool d C =
     (if FreeFcbTableSize d < 8
      then d\<lparr>FreeFcbTableArray := (FreeFcbTableArray d)(FreeFcbTableSize d := C), FreeFcbTableSize := FreeFcbTableSize d + 1\<rparr>
      else d\<lparr>NtfsPool := FreePool (NtfsPool d) C\<rparr>)"

definition NtfsAllocateFcbTableEntry :: "('p \<Rightarrow> nat \<Rightarrow> 'p \<times> ptr) \<Rightarrow> 'p NTFS_DATA \<Rightarrow> nat \<Rightarrow> 'p NTFS_DATA \<times> ptr" where
  "NtfsAllocateFcbTableEntry AllocatePool d ByteSize = NtfsAllocateFcbTable AllocatePool d ByteSize"

definition NtfsDeallocateFcbTableEntry :: "('p \<Rightarrow> ptr \<Rightarrow> 'p) \<Rightarrow> 'p NTFS_DATA \<Rightarrow> ptr \<Rightarrow> 'p NTFS_DATA" where
  "NtfsDeallocateFcbTableEntry FreePool d Buffer = NtfsFreeFcbTable FreePool d Buffer"

definition InitializeFcbTable ::
  "('p \<Rightarrow> nat \<Rightarrow> 'p \<times> ptr) \<Rightarrow> ('p \<Rightarrow> ptr \<Rightarrow> 'p) \<Rightarrow> list_heap \<Rightarrow> ptr \<Rightarrow>
     list_heap \<times> (FCB_TABLE_ELEMENT, 'p NTFS_DATA) RTL_GENERIC_TABLE" where
  "InitializeFcbTable AllocatePool FreePool h Head =
     RtlInitializeGenericTable h Head NtfsFcbTableCompare (NtfsAllocateFcbTableEntry AllocatePool)
       (NtfsDeallocateFcbTableEntry FreePool) NULL"

definition NtfsInsertFcbTableEntry where
  "NtfsInsertFcbTableEntry FcbTable m F FR =
     RtlInsertElementGenericTable FcbTable m \<lparr>FileReference = FR, Fcb = F\<rparr> 12"

definition NtfsDeleteFcbTableEntry where
  \<comment> \<open>the field \<open>Fcb\<close> of the key is left unset; \<open>junk\<close> is what lies there\<close>
  "NtfsDeleteFcbTableEntry junk FcbTable m FR =
     RtlDeleteElementGenericTable FcbTable m \<lparr>FileReference = FR, Fcb = junk\<rparr>"

definition NtfsGetNextFcbTableEntry where
  "NtfsGetNextFcbTableEntry FcbTable m PreviousFcb = do {
     (FcbTable, m, e) \<leftarrow> RtlEnumerateGenericTable FcbTable m (PreviousFcb = NULL);
     Some (FcbTable, m, if e \<noteq> NULL then Fcb (Elements m e) else NULL)
   }"

section \<open>The compare routine is an order\<close>

interpretation fcb_compare: generic_compare NtfsFcbTableCompare
  by unfold_locales (auto simp: NtfsFcbTableCompare_def Let_def split: if_splits)

section \<open>The free array on top of an allocator\<close>

definition cached_nodes :: "'p NTFS_DATA \<Rightarrow> ptr list" where
  "cached_nodes d = map (FreeFcbTableArray d) [0..<FreeFcbTableSize d]"

definition fcb_holds :: "('p \<Rightarrow> ptr set \<Rightarrow> bool) \<Rightarrow> ptr set \<Rightarrow> 'p NTFS_DATA \<Rightarrow> ptr set \<Rightarrow> bool" where
  "fcb_holds holds avoid d L \<longleftrightarrow> distinct (cached_nodes d) \<and> set (cached_nodes d) \<inter> L = {} \<and>
     (L \<union> set (cached_nodes d)) \<inter> insert NULL avoid = {} \<and> FreeFcbTableSize d \<le> 8 \<and>
     holds (NtfsPool d) (L \<union> set (cached_nodes d))"

lemma cached_pop: "FreeFcbTableSize d = Suc n \<Longrightarrow> cached_nodes d = cached_nodes (d\<lparr>FreeFcbTableSize := n\<rparr>) @ [FreeFcbTableArray d n]"
  by (simp add: cached_nodes_def)

lemma cached_push:
  "cached_nodes (d\<lparr>FreeFcbTableArray := (FreeFcbTableArray d)(FreeFcbTableSize d := C), FreeFcbTableSize := FreeFcbTableSize d + 1\<rparr>) =
     cached_nodes d @ [C]"
  by (simp add: cached_nodes_def)

context block_allocator
begin

lemma fcb_alloc_new:
  assumes "fcb_holds holds avoid d L" "NtfsAllocateFcbTableEntry alloc d n = (d', p)" "p \<noteq> NULL"
  shows "p \<notin> L \<and> p \<notin> avoid \<and> fcb_holds holds avoid d' (insert p L)"
proof (cases "FreeFcbTableSize d")
  case 0
  obtain pool where a: "alloc (NtfsPool d) n = (pool, p)" "d' = d\<lparr>NtfsPool := pool\<rparr>"
    using assms(2) 0 by (auto simp: NtfsAllocateFcbTableEntry_def NtfsAllocateFcbTable_def split: prod.splits)
  have "cached_nodes d = []" "cached_nodes d' = []" using 0 a(2) by (simp_all add: cached_nodes_def)
  then show ?thesis using alloc_new [OF _ a(1) assms(3), of L] assms(1,3) a(2) by (simp add: fcb_holds_def)
next
  case (Suc k)
  have d': "d' = d\<lparr>FreeFcbTableSize := k\<rparr>" "p = FreeFcbTableArray d k"
    using assms(2) Suc by (auto simp: NtfsAllocateFcbTableEntry_def NtfsAllocateFcbTable_def)
  have c: "cached_nodes d = cached_nodes d' @ [p]" using cached_pop [OF Suc] d' by simp
  have "NtfsPool d' = NtfsPool d" "FreeFcbTableSize d' \<le> 8" using d'(1) assms(1) Suc by (simp_all add: fcb_holds_def)
  moreover have "insert p L \<union> set (cached_nodes d') = L \<union> set (cached_nodes d)" using c by auto
  moreover have "p \<notin> L" "p \<notin> avoid" "distinct (cached_nodes d')" "set (cached_nodes d') \<inter> insert p L = {}"
    using assms(1) c by (auto simp: fcb_holds_def)
  ultimately show ?thesis using assms(1) unfolding fcb_holds_def by simp
qed

lemma fcb_alloc_null:
  assumes "fcb_holds holds avoid d L" "NtfsAllocateFcbTableEntry alloc d n = (d', NULL)"
  shows "fcb_holds holds avoid d' L"
proof (cases "FreeFcbTableSize d")
  case 0
  obtain pool where a: "alloc (NtfsPool d) n = (pool, NULL)" "d' = d\<lparr>NtfsPool := pool\<rparr>"
    using assms(2) 0 by (auto simp: NtfsAllocateFcbTableEntry_def NtfsAllocateFcbTable_def split: prod.splits)
  have "cached_nodes d = []" "cached_nodes d' = []" using 0 a(2) by (simp_all add: cached_nodes_def)
  then show ?thesis using alloc_null [OF _ a(1), of L] assms(1) a(2) by (simp add: fcb_holds_def)
next
  case (Suc k)
  then have "FreeFcbTableArray d k = NULL"
    using assms(2) by (auto simp: NtfsAllocateFcbTableEntry_def NtfsAllocateFcbTable_def)
  then show ?thesis using assms(1) cached_pop [OF Suc] by (simp add: fcb_holds_def)
qed

lemma fcb_free_block:
  assumes "fcb_holds holds avoid d L" "p \<in> L"
  shows "fcb_holds holds avoid (NtfsDeallocateFcbTableEntry free d p) (L - {p})"
proof (cases "FreeFcbTableSize d < 8")
  case True
  let ?d = "d\<lparr>FreeFcbTableArray := (FreeFcbTableArray d)(FreeFcbTableSize d := p), FreeFcbTableSize := FreeFcbTableSize d + 1\<rparr>"
  have "(L - {p}) \<union> set (cached_nodes ?d) = L \<union> set (cached_nodes d)" using cached_push [of d p] assms(2) by auto
  then have "fcb_holds holds avoid ?d (L - {p})"
    using assms True cached_push [of d p] by (auto simp: fcb_holds_def)
  then show ?thesis using True by (simp add: NtfsDeallocateFcbTableEntry_def NtfsFreeFcbTable_def)
next
  case False
  let ?d = "d\<lparr>NtfsPool := free (NtfsPool d) p\<rparr>"
  have c: "cached_nodes ?d = cached_nodes d" by (simp add: cached_nodes_def)
  have "L \<union> set (cached_nodes d) - {p} = (L - {p}) \<union> set (cached_nodes d)" using assms by (auto simp: fcb_holds_def)
  then have "holds (free (NtfsPool d) p) ((L - {p}) \<union> set (cached_nodes d))"
    using free_block [of "NtfsPool d" "L \<union> set (cached_nodes d)" p] assms by (simp add: fcb_holds_def)
  then have "fcb_holds holds avoid ?d (L - {p})" using assms c by (auto simp: fcb_holds_def)
  then show ?thesis using False by (simp add: NtfsDeallocateFcbTableEntry_def NtfsFreeFcbTable_def)
qed

lemma fcb_allocator:
  "block_allocator (NtfsAllocateFcbTableEntry alloc) (NtfsDeallocateFcbTableEntry free) (fcb_holds holds avoid) avoid"
proof (rule block_allocator.intro)
  fix d L
  assume h: "fcb_holds holds avoid d L"
  then have "finite (L \<union> set (cached_nodes d)) \<and> card (L \<union> set (cached_nodes d)) + 1 < MAXULONG"
    using bounded [of "NtfsPool d" "L \<union> set (cached_nodes d)"] by (simp add: fcb_holds_def)
  then show "finite L \<and> card L + 1 < MAXULONG"
    using card_mono [of "L \<union> set (cached_nodes d)" L] by auto
qed (rule fcb_alloc_null fcb_alloc_new fcb_free_block; assumption)+

end

interpretation fcb_zone: table_user NtfsFcbTableCompare "NtfsAllocateFcbTableEntry zone_alloc"
  "NtfsDeallocateFcbTableEntry zone_free" "fcb_holds (zone_holds avoid) avoid" avoid for avoid
  by (intro table_user.intro fcb_compare.generic_compare_axioms zone_blocks.fcb_allocator)

section \<open>Properties\<close>

text \<open>
  C2: every sequence of insertions, deletions and lookups on an NTFS file control block
  table, over any pool that keeps the allocator contract, runs to completion and answers
  as a dictionary that keeps the elements in a list; an enumeration afterwards yields
  exactly the elements of the dictionary, in ascending order of their file references.
\<close>

theorem FcbTable_refines:
  assumes pool: "block_allocator AllocatePool FreePool holds avoid" and data: "fcb_holds holds avoid d L"
    and head: "\<forall>p. node_entry p = Head \<longrightarrow> p \<in> avoid"
    and init: "InitializeFcbTable AllocatePool FreePool h Head = (h', T)"
  shows "\<exists>T' m' as xs ys. table_run ops T \<lparr>Links = links, Entries = h', Elements = el, Pool = d\<rparr> = Some (T', m', as) \<and>
    dict_run NtfsFcbTableCompare ops [] as = Some xs \<and>
    EnumerateAll T' m' = Some ys \<and> mset ys = mset xs \<and>
    sorted_wrt (\<lambda>a b. sint (FileReference a) < sint (FileReference b)) ys"
proof -
  have user: "table_user NtfsFcbTableCompare (NtfsAllocateFcbTableEntry AllocatePool)
      (NtfsDeallocateFcbTableEntry FreePool) (fcb_holds holds avoid) avoid"
    by (intro table_user.intro fcb_compare.generic_compare_axioms block_allocator.fcb_allocator [OF pool])
  have T: "RtlInitializeGenericTable h Head NtfsFcbTableCompare (NtfsAllocateFcbTableEntry AllocatePool)
      (NtfsDeallocateFcbTableEntry FreePool) NULL = (h', T)" using init by (simp add: InitializeFcbTable_def)
  have st: "table_state (fcb_holds holds avoid) avoid T \<lparr>Links = links, Entries = h', Elements = el, Pool = d\<rparr> []"
    by (rule table_state_init [where holds = "fcb_holds holds avoid", OF T data]) (use head in blast)
  have my: "table_user.my_table NtfsFcbTableCompare (NtfsAllocateFcbTableEntry AllocatePool) (NtfsDeallocateFcbTableEntry FreePool) T"
    using T by (auto simp: table_user.my_table_def [OF user] RtlInitializeGenericTable_def)
  from table_user.run_refines [OF user st my] obtain T' m' as xs where
    r: "table_run ops T \<lparr>Links = links, Entries = h', Elements = el, Pool = d\<rparr> = Some (T', m', as)"
      "dict_run NtfsFcbTableCompare ops [] as = Some xs" "table_state (fcb_holds holds avoid) avoid T' m' xs"
      "table_user.my_table NtfsFcbTableCompare (NtfsAllocateFcbTableEntry AllocatePool) (NtfsDeallocateFcbTableEntry FreePool) T'"
    by blast
  have "CompareRoutine T' = NtfsFcbTableCompare" using r(4) by (simp add: table_user.my_table_def [OF user])
  moreover have "NtfsFcbTableCompare a b = GenericLessThan \<longleftrightarrow> sint (FileReference a) < sint (FileReference b)" for a b
    by (simp add: NtfsFcbTableCompare_def Let_def)
  ultimately show ?thesis using r(1,2) table_state_sorted [OF r(3)] by auto
qed

definition example_zone :: "ZONE_HEADER \<times> single_heap" where
  \<comment> \<open>a zone with the free blocks 64, 104 and 144\<close>
  "example_zone = (\<lparr>FreeList = 64, SegmentList = 56, BlockSize = 40, TotalSegmentSize = 128\<rparr>,
     (\<lambda>_. 0)(64 := 104, 104 := 144))"

lemma example_zone_holds: "zone_holds {1012} example_zone {}"
proof -
  have "free_chain (snd example_zone) (FreeList (fst example_zone)) [64, 104, 144]" by (simp add: example_zone_def)
  moreover have "{64, 104, 144} \<subseteq> block_area"
    unfolding block_area_def by (auto intro: image_eqI [of 64 _ 8] image_eqI [of 104 _ 13] image_eqI [of 144 _ 18])
  ultimately show ?thesis unfolding zone_holds_def by (auto intro!: exI [of _ "[64, 104, 144]"] simp del: free_chain.simps)
qed

lemma example_fcb_holds:
  "fcb_holds (zone_holds {1012}) {1012} \<lparr>FreeFcbTableArray = \<lambda>_. 0, FreeFcbTableSize = 0, NtfsPool = example_zone\<rparr> {}"
  using example_zone_holds by (simp add: fcb_holds_def cached_nodes_def)

theorem FcbTable_refines_witness:
  "\<exists>T' m' as xs ys.
     table_run [TableInsert \<lparr>FileReference = 7, Fcb = 1\<rparr> 12, TableInsert \<lparr>FileReference = 3, Fcb = 2\<rparr> 12, TableLookup \<lparr>FileReference = 7, Fcb = 0\<rparr>]
       (snd (InitializeFcbTable zone_alloc zone_free (\<lambda>_. \<lparr>Flink = 0, Blink = 0\<rparr>) 1024))
       \<lparr>Links = (\<lambda>_. \<lparr>Parent = 0, LeftChild = 0, RightChild = 0\<rparr>),
        Entries = fst (InitializeFcbTable zone_alloc zone_free (\<lambda>_. \<lparr>Flink = 0, Blink = 0\<rparr>) 1024),
        Elements = (\<lambda>_. \<lparr>FileReference = 0, Fcb = 0\<rparr>),
        Pool = \<lparr>FreeFcbTableArray = \<lambda>_. 0, FreeFcbTableSize = 0, NtfsPool = example_zone\<rparr>\<rparr> = Some (T', m', as) \<and>
     dict_run NtfsFcbTableCompare [TableInsert \<lparr>FileReference = 7, Fcb = 1\<rparr> 12, TableInsert \<lparr>FileReference = 3, Fcb = 2\<rparr> 12,
       TableLookup \<lparr>FileReference = 7, Fcb = 0\<rparr>] [] as = Some xs \<and>
     EnumerateAll T' m' = Some ys \<and> mset ys = mset xs \<and> sorted_wrt (\<lambda>a b. sint (FileReference a) < sint (FileReference b)) ys"
  by (rule FcbTable_refines [OF zone_blocks.block_allocator_axioms [of "{1012}"] example_fcb_holds])
    (simp_all add: node_entry_def)

text \<open>
  C12: \<open>RtlInsertElementGenericTable\<close> keeps the invariant of the table.  If an element with
  the key is present it is returned and nothing is stored; if the allocator fails the table
  is unchanged and null is returned; otherwise the new block holds a copy of the buffer, is
  the last node in the order of insertion, and no other element changes.
\<close>

theorem RtlInsertElementGenericTable_correct:
  assumes "generic_compare (CompareRoutine T)" "table_inv T m t ns"
    and "AllocateRoutine T (Pool m) (u32 (BufferSize + 20)) = (pool, p)"
    and "p \<noteq> NULL \<Longrightarrow> p \<notin> set ns \<and> node_entry p \<noteq> InsertOrderList T" "length ns + 1 < MAXULONG"
  shows "\<exists>T' m' e new t' ns'. RtlInsertElementGenericTable T m buf BufferSize = Some (T', m', e, new) \<and> table_inv T' m' t' ns' \<and>
    same_routines T T' \<and>
    (if present T m ns buf then ns' = ns \<and> Elements m' = Elements m \<and> Pool m' = Pool m \<and> \<not> new \<and>
       (\<exists>n \<in> set ns. e = node_data n \<and> CompareRoutine T buf (Elements m e) = GenericEqual)
     else if p = NULL then T' = T \<and> m' = m\<lparr>Pool := pool\<rparr> \<and> ns' = ns \<and> e = NULL \<and> \<not> new
     else ns' = ns @ [p] \<and> e = node_data p \<and> new \<and> Elements m' = (Elements m)(e := buf) \<and> Pool m' = pool)"
  by (rule generic_compare.insert_inv [OF assms(1,2) refl assms(3-5)])

definition empty_table :: "(FCB_TABLE_ELEMENT, ptr) RTL_GENERIC_TABLE" where
  \<comment> \<open>an allocator that hands out ascending addresses\<close>
  "empty_table = snd (RtlInitializeGenericTable (\<lambda>_. \<lparr>Flink = 0, Blink = 0\<rparr>) 1024 NtfsFcbTableCompare
     (\<lambda>s n. (s + n, s)) (\<lambda>s p. s) NULL)"

definition empty_mem :: "(FCB_TABLE_ELEMENT, ptr) table_mem" where
  "empty_mem = \<lparr>Links = \<lambda>_. \<lparr>Parent = 0, LeftChild = 0, RightChild = 0\<rparr>,
     Entries = InitializeListHead (\<lambda>_. \<lparr>Flink = 0, Blink = 0\<rparr>) 1024,
     Elements = \<lambda>_. \<lparr>FileReference = 0, Fcb = 0\<rparr>, Pool = 64\<rparr>"

lemma empty_table_inv: "table_inv empty_table empty_mem Leaf []"
  using InitializeListHead_is_list
  by (simp add: empty_table_def empty_mem_def table_inv_def RtlInitializeGenericTable_def is_tree_def ordered_by_def)

lemma empty_table_fields:
  "CompareRoutine empty_table = NtfsFcbTableCompare" "AllocateRoutine empty_table s n = (s + n, s)"
  "InsertOrderList empty_table = 1024" "Pool empty_mem = 64"
  by (simp_all add: empty_table_def empty_mem_def RtlInitializeGenericTable_def)

theorem RtlInsertElementGenericTable_correct_witness:
  "\<exists>T' m' t'. RtlInsertElementGenericTable empty_table empty_mem \<lparr>FileReference = 7, Fcb = 1\<rparr> 12 = Some (T', m', 84, True) \<and>
     table_inv T' m' t' [64] \<and> Elements m' 84 = \<lparr>FileReference = 7, Fcb = 1\<rparr>"
proof -
  have c: "generic_compare (CompareRoutine empty_table)"
    using fcb_compare.generic_compare_axioms by (simp add: empty_table_fields)
  have a: "AllocateRoutine empty_table (Pool empty_mem) (u32 (12 + 20)) = (96, 64)" by (simp add: empty_table_fields)
  have "\<not> present empty_table empty_mem [] \<lparr>FileReference = 7, Fcb = 1\<rparr>" by (simp add: present_def)
  moreover have "node_data 64 = 84" by (simp add: node_entry_def entry_data_def)
  ultimately show ?thesis
    using RtlInsertElementGenericTable_correct [OF c empty_table_inv a, of "\<lparr>FileReference = 7, Fcb = 1\<rparr>"]
    by (auto simp: empty_table_fields node_entry_def)
qed

lemma one_element_table:
  "\<exists>(T :: (FCB_TABLE_ELEMENT, ptr) RTL_GENERIC_TABLE) m t. table_inv T m t [64] \<and> Elements m (node_data 64) = \<lparr>FileReference = 7, Fcb = 1\<rparr>"
proof -
  have a: "AllocateRoutine empty_table (Pool empty_mem) (u32 (12 + 20)) = (96, 64)" by (simp add: empty_table_fields)
  have "\<not> present empty_table empty_mem [] \<lparr>FileReference = 7, Fcb = 1\<rparr>" by (simp add: present_def)
  then obtain T' :: "(FCB_TABLE_ELEMENT, ptr) RTL_GENERIC_TABLE" and m' t' where
    "table_inv T' m' t' [64]" "Elements m' = (Elements empty_mem)(node_data 64 := \<lparr>FileReference = 7, Fcb = 1\<rparr>)"
    using fcb_compare.insert_inv [OF empty_table_inv empty_table_fields(1) a, of "\<lparr>FileReference = 7, Fcb = 1\<rparr>"]
    by (auto simp: empty_table_fields node_entry_def)
  then show ?thesis by (intro exI [of _ T'] exI [of _ m'] exI [of _ t']) simp
qed

text \<open>
  C14: \<open>RtlGetElementGenericTable\<close> returns the element that was inserted at position \<open>I\<close>,
  or null past the end, whichever of its four ways through the list it takes, and its
  cached position stays right.
\<close>

theorem RtlGetElementGenericTable_correct:
  assumes "table_inv T m t ns" "I \<le> MAXULONG"
  shows "\<exists>T'. RtlGetElementGenericTable T (Entries m) I = (T', if I < length ns then node_data (ns ! I) else NULL) \<and>
    table_inv T' m t ns"
  using get_inv [OF assms] by (cases "RtlGetElementGenericTable T (Entries m) I") auto

theorem RtlGetElementGenericTable_correct_witness:
  "\<exists>(T :: (FCB_TABLE_ELEMENT, ptr) RTL_GENERIC_TABLE) m t T' T''. table_inv T m t [64] \<and> RtlGetElementGenericTable T (Entries m) 0 = (T', node_data 64) \<and>
     RtlGetElementGenericTable T (Entries m) MAXULONG = (T'', NULL)"
proof -
  obtain T :: "(FCB_TABLE_ELEMENT, ptr) RTL_GENERIC_TABLE" and m t where "table_inv T m t [64]" using one_element_table by blast
  then show ?thesis using RtlGetElementGenericTable_correct [of T m t "[64]" 0] RtlGetElementGenericTable_correct [of T m t "[64]" MAXULONG]
    by fastforce
qed

text \<open>
  C15: both enumeration loops of the package's documentation end, and they yield every
  element of the table once, in the order of the tree.
\<close>

theorem RtlEnumerateGenericTable_terminates:
  assumes "table_inv T m t ns"
  shows "EnumerateAll T m = Some (map (\<lambda>n. Elements m (node_data n)) (inorder t)) \<and>
    ListAll T m = Some (map (\<lambda>n. Elements m (node_data n)) (inorder t)) \<and>
    mset (inorder t) = mset ns \<and> ordered_by (CompareRoutine T) (Elements m) (inorder t)"
proof -
  have "distinct (inorder t)" "set (inorder t) = set ns" "ordered_by (CompareRoutine T) (Elements m) (inorder t)"
    using assms by (auto simp: table_inv_def is_tree_def)
  then show ?thesis using EnumerateAll_sorted [OF assms] ListAll_sorted [OF assms] table_inv_distinct [OF assms]
    by (simp add: set_eq_iff_mset_eq_distinct del: set_inorder)
qed

theorem RtlEnumerateGenericTable_terminates_witness:
  "\<exists>(T :: (FCB_TABLE_ELEMENT, ptr) RTL_GENERIC_TABLE) m t. table_inv T m t [64] \<and> EnumerateAll T m = Some [\<lparr>FileReference = 7, Fcb = 1\<rparr>]"
proof -
  obtain T :: "(FCB_TABLE_ELEMENT, ptr) RTL_GENERIC_TABLE" and m t where
    T: "table_inv T m t [64]" "Elements m (node_data 64) = \<lparr>FileReference = 7, Fcb = 1\<rparr>" using one_element_table by blast
  then have e: "EnumerateAll T m = Some (map (\<lambda>n. Elements m (node_data n)) (inorder t))" "mset (inorder t) = mset [64]"
    using RtlEnumerateGenericTable_terminates [OF T(1)] by auto
  then have "inorder t = [64]" by (metis mset_single_iff mset.simps)
  then show ?thesis using e T by auto
qed

end
