(* ===== verification/Sched_Model.thy ===== *)
theory Sched_Model
  imports Nt_Prelude
begin

text \<open>
  The thread scheduler of the kernel in the uniprocessor build (\<open>NT_UP\<close>, the default of the
  build system): the ready queues (\<open>KE/THREDSUP.C\<close>), the end of a quantum (\<open>KE/DPCSUP.C\<close>), the
  context switch (\<open>KE/I386/CTXSWAP.ASM\<close>, \<open>KE/I386/NEWSYSBG.ASM\<close>) and the parts of the balance
  set manager that ready threads (\<open>KE/BALMGR.C\<close>).  A dispatcher list is the sequence of its
  entries; the list macros are shown to implement these sequences in \<open>List_Entry\<close>.  A
  definition is what runs while the dispatcher lock is held.
\<close>

section \<open>State\<close>

datatype KTHREAD_STATE = Initialized | Ready | Running | Standby | Terminated | Waiting | Transition

datatype KPROCESS_STATE = ProcessInMemory | ProcessOutOfMemory | ProcessInTransition

datatype MODE = KernelMode | UserMode

datatype WAIT_TYPE = WaitAll | WaitAny

datatype KOBJECTS = NotificationEvent | EventObject | MutantObject | ProcessObject | QueueObject | SemaphoreObject | ThreadObject | TimerObject

record KWAIT_BLOCK =
  \<comment> \<open>\<open>NextWaitBlock\<close> is the order of the blocks in \<open>WaitBlockList\<close>\<close>
  WbThread :: ptr
  WbObject :: ptr
  WbWaitKey :: "32 word"
  WbWaitType :: WAIT_TYPE

record KOBJECT =
  \<comment> \<open>the dispatcher header, and the fields of semaphores, mutants, queues and timers\<close>
  HeaderType :: KOBJECTS
  SignalState :: int
  WaitListHead :: "KWAIT_BLOCK list"
  Limit :: int
  OwnerThread :: ptr
  Abandoned :: bool
  ApcDisable :: "8 word"
  EntryListHead :: "ptr list"
  ThreadListHead :: "ptr list"
  CurrentCount :: nat
  MaximumCount :: nat
  DueTime :: nat
  TimerDpc :: ptr
  Inserted :: bool

record KTHREAD =
  State :: KTHREAD_STATE
  Priority :: nat
  BasePriority :: nat
  PriorityDecrement :: int
  DecrementCount :: int
  Quantum :: int
  Preempted :: bool
  ProcessReadyQueue :: bool
  KernelStackResident :: bool
  WaitTime :: nat
  WaitIrql :: nat
  WaitNext :: bool
  WaitMode :: MODE
  WaitReason :: nat
  WaitStatus :: "32 word"
  WaitBlockList :: "KWAIT_BLOCK list"
  Alertable :: bool
  Alerted :: "MODE \<Rightarrow> bool"
  KernelApcPending :: bool
  UserApcPending :: bool
  ApcListHead :: "MODE \<Rightarrow> ptr list"
  KernelApcDisable :: "8 word"
  MutantListHead :: "ptr list"
  WaitQueue :: ptr \<comment> \<open>\<open>SuspendApc.NormalContext\<close>\<close>
  Timer :: ptr \<comment> \<open>the address of the timer in the thread object\<close>
  Process :: ptr \<comment> \<open>\<open>ApcState.Process\<close>\<close>
  SuspendCount :: nat
  FreezeCount :: nat
  SuspendSemaphore :: ptr \<comment> \<open>the address of the semaphore in the thread object\<close>
  SuspendApc :: ptr
  ApcQueueable :: bool
  KernelApcInProgress :: bool
  ApcStateIndex :: nat
  SavedApcListHead :: "MODE \<Rightarrow> ptr list" \<comment> \<open>\<open>SavedApcState\<close>, while the thread is attached to a process\<close>
  SavedApcPending :: "MODE \<Rightarrow> bool"

record KPROCESS =
  ProcessState :: KPROCESS_STATE
  StackCount :: nat
  ThreadQuantum :: int
  ReadyListHead :: "ptr list"
  ProcessThreads :: "ptr list" \<comment> \<open>\<open>ThreadListHead\<close>\<close>

record KAPC =
  ApcThread :: ptr
  ApcModeOf :: MODE
  KernelRoutine :: ptr
  NormalRoutine :: ptr
  ApcInserted :: bool
  ApcIndex :: nat \<comment> \<open>\<open>ApcStateIndex\<close>\<close>

record sched =
  Threads :: "ptr \<Rightarrow> KTHREAD"
  Processes :: "ptr \<Rightarrow> KPROCESS"
  Objects :: "ptr \<Rightarrow> KOBJECT"
  KiDispatcherReadyListHead :: "nat \<Rightarrow> ptr list"
  KiReadySummary :: "32 word"
  KiIdleSummary :: "32 word"
  NextThread :: ptr \<comment> \<open>of the processor control block\<close>
  CurrentThread :: ptr
  IdleThread :: ptr
  KiWaitInListHead :: "ptr list"
  KiWaitOutListHead :: "ptr list"
  KiProcessInSwapListHead :: "ptr list"
  KiProcessOutSwapListHead :: "ptr list"
  KiStackInSwapListHead :: "ptr list"
  KiSwapEvent :: ptr \<comment> \<open>the address of the event\<close>
  KeWaitReason :: "nat \<Rightarrow> int"
  KiTimerTableListHead :: "nat \<Rightarrow> ptr list"
  InterruptTime :: nat
  SystemTime :: int
  TickCountLow :: nat
  QuantumEnd :: bool
  IsExecutingDpc :: bool
  DispatchInterrupt :: bool \<comment> \<open>a software interrupt at \<open>DISPATCH_LEVEL\<close> is requested\<close>
  ApcInterrupt :: bool
  KiDecrementCount :: int
  KiWaitQuantumDecrement :: int
  KiReadyQueueIndex :: nat
  DpcListHead :: "ptr list"
  DpcQueued :: "ptr \<Rightarrow> bool" \<comment> \<open>the \<open>Lock\<close> of the DPC object is set\<close>
  KiTimeIncrementReciprocal :: nat
  KiTimeIncrementShiftCount :: nat
  Apcs :: "ptr \<Rightarrow> KAPC"
  PsReaperListHead :: "ptr list"
  PsReaperActive :: bool

definition schar :: "int \<Rightarrow> int" where
  \<comment> \<open>the value of a signed character\<close>
  "schar x = (x + 128) mod 256 - 128"

definition upd_thread :: "sched \<Rightarrow> ptr \<Rightarrow> (KTHREAD \<Rightarrow> KTHREAD) \<Rightarrow> sched" where
  "upd_thread s t f = s\<lparr>Threads := (Threads s)(t := f (Threads s t))\<rparr>"

definition upd_process :: "sched \<Rightarrow> ptr \<Rightarrow> (KPROCESS \<Rightarrow> KPROCESS) \<Rightarrow> sched" where
  "upd_process s p f = s\<lparr>Processes := (Processes s)(p := f (Processes s p))\<rparr>"

definition upd_object :: "sched \<Rightarrow> ptr \<Rightarrow> (KOBJECT \<Rightarrow> KOBJECT) \<Rightarrow> sched" where
  "upd_object s p f = s\<lparr>Objects := (Objects s)(p := f (Objects s p))\<rparr>"

definition SetMember :: "nat \<Rightarrow> 32 word \<Rightarrow> 32 word" where
  "SetMember Member Set = Set OR push_bit Member 1"

definition ClearMember :: "nat \<Rightarrow> 32 word \<Rightarrow> 32 word" where
  "ClearMember Member Set = Set AND NOT (push_bit Member 1)"

section \<open>The ready queues\<close>

definition QueueTail :: "sched \<Rightarrow> nat \<Rightarrow> ptr \<Rightarrow> sched" where
  \<comment> \<open>\<open>InsertTailList\<close> on a dispatcher ready list, and the summary bit\<close>
  "QueueTail s p t = s\<lparr>KiDispatcherReadyListHead := (KiDispatcherReadyListHead s)(p := KiDispatcherReadyListHead s p @ [t]),
     KiReadySummary := SetMember p (KiReadySummary s)\<rparr>"

definition QueueHead :: "sched \<Rightarrow> nat \<Rightarrow> ptr \<Rightarrow> sched" where
  "QueueHead s p t = s\<lparr>KiDispatcherReadyListHead := (KiDispatcherReadyListHead s)(p := t # KiDispatcherReadyListHead s p),
     KiReadySummary := SetMember p (KiReadySummary s)\<rparr>"

definition Dequeue :: "sched \<Rightarrow> nat \<Rightarrow> ptr \<Rightarrow> sched" where
  \<comment> \<open>\<open>RemoveEntryList\<close> from a dispatcher ready list, and the summary bit if the list is empty now\<close>
  "Dequeue s p t =
     (let q = remove1 t (KiDispatcherReadyListHead s p);
          s = s\<lparr>KiDispatcherReadyListHead := (KiDispatcherReadyListHead s)(p := q)\<rparr>
      in if q = [] then s\<lparr>KiReadySummary := ClearMember p (KiReadySummary s)\<rparr> else s)"

fun FindReadyLoop :: "sched \<Rightarrow> 32 word \<Rightarrow> nat \<Rightarrow> sched \<times> ptr" where
  \<comment> \<open>below priority 0 no bit of the set can be left, so the loop has ended there\<close>
  "FindReadyLoop s PrioritySet HighPriority =
     (let taken = drop_bit HighPriority PrioritySet \<noteq> 0;
          PrioritySet = (if taken then PrioritySet - push_bit HighPriority 1 else PrioritySet);
          q = KiDispatcherReadyListHead s HighPriority
      in if taken \<and> q \<noteq> [] then (Dequeue s HighPriority (hd q), hd q)
         else if PrioritySet = 0 \<or> HighPriority = 0 then (s, NULL)
         else FindReadyLoop s PrioritySet (HighPriority - 1))"

declare FindReadyLoop.simps [simp del]

definition KiFindReadyThread :: "sched \<Rightarrow> nat \<Rightarrow> nat \<Rightarrow> sched \<times> ptr" where
  "KiFindReadyThread s HighPriority LowPriority =
     FindReadyLoop s (((push_bit HighPriority 1 - 1) OR push_bit HighPriority 1) AND
       NOT (push_bit LowPriority 1 - 1) AND KiReadySummary s) HighPriority"

definition SignalSwapEvent :: "(sched \<Rightarrow> sched) \<Rightarrow> sched \<Rightarrow> sched" where
  \<comment> \<open>\<open>wake\<close> is the wait test on \<open>KiSwapEvent\<close>\<close>
  "SignalSwapEvent wake s =
     (let s = upd_object s (KiSwapEvent s) (\<lambda>e. e\<lparr>SignalState := 1\<rparr>)
      in if WaitListHead (Objects s (KiSwapEvent s)) \<noteq> [] then wake s else s)"

function KiReadyThread :: "(sched \<Rightarrow> sched) \<Rightarrow> sched \<Rightarrow> ptr \<Rightarrow> sched" where
  "KiReadyThread wake s Thread =
     (let PreemptedOld = Preempted (Threads s Thread);
          ThreadPriority = Priority (Threads s Thread);
          s = upd_thread s Thread (\<lambda>t. t\<lparr>Preempted := False, WaitTime := TickCountLow s\<rparr>);
          Proc = Process (Threads s Thread)
      in if ProcessState (Processes s Proc) \<noteq> ProcessInMemory then
           let s = upd_thread s Thread (\<lambda>t. t\<lparr>State := Ready, ProcessReadyQueue := True\<rparr>);
               s = upd_process s Proc (\<lambda>p. p\<lparr>ReadyListHead := ReadyListHead p @ [Thread]\<rparr>)
           in if ProcessState (Processes s Proc) = ProcessOutOfMemory then
                let s = upd_process s Proc (\<lambda>p. p\<lparr>ProcessState := ProcessInTransition\<rparr>);
                    s = s\<lparr>KiProcessInSwapListHead := KiProcessInSwapListHead s @ [Proc]\<rparr>
                in SignalSwapEvent wake s
              else s
         else if \<not> KernelStackResident (Threads s Thread) then
           let s = upd_process s Proc (\<lambda>p. p\<lparr>StackCount := (StackCount p + 1) mod 65536\<rparr>);
               s = upd_thread s Thread (\<lambda>t. t\<lparr>State := Transition\<rparr>);
               s = s\<lparr>KiStackInSwapListHead := KiStackInSwapListHead s @ [Thread]\<rparr>
           in SignalSwapEvent wake s
         else if KiIdleSummary s \<noteq> 0 then
           upd_thread (s\<lparr>KiIdleSummary := 0, NextThread := Thread\<rparr>) Thread (\<lambda>t. t\<lparr>State := Standby\<rparr>)
         else if NextThread s \<noteq> NULL \<and> ThreadPriority > Priority (Threads s (NextThread s)) then
           let Thread1 = NextThread s;
               s = upd_thread s Thread1 (\<lambda>t. t\<lparr>Preempted := True\<rparr>);
               s = upd_thread (s\<lparr>NextThread := Thread\<rparr>) Thread (\<lambda>t. t\<lparr>State := Standby\<rparr>)
           in KiReadyThread wake s Thread1
         else if NextThread s = NULL \<and> ThreadPriority > Priority (Threads s (CurrentThread s)) then
           let s = upd_thread s (CurrentThread s) (\<lambda>t. t\<lparr>Preempted := True\<rparr>)
           in upd_thread (s\<lparr>NextThread := Thread\<rparr>) Thread (\<lambda>t. t\<lparr>State := Standby\<rparr>)
         else
           let s = upd_thread s Thread (\<lambda>t. t\<lparr>State := Ready\<rparr>)
           in if PreemptedOld \<and> ThreadPriority \<ge> 16 then QueueHead s ThreadPriority Thread
              else QueueTail s ThreadPriority Thread)"
  by auto

termination
proof (relation "measure (\<lambda>(_, s, t). if Priority (Threads s t) > Priority (Threads s (NextThread s)) then 1 else 0)", goal_cases)
  case (2 wake s Thread)
  then show ?case by (auto simp: upd_thread_def split: if_splits)
qed simp

declare KiReadyThread.simps [simp del]

definition KiSelectNextThread :: "sched \<Rightarrow> ptr \<Rightarrow> sched \<times> ptr" where
  "KiSelectNextThread s Thread =
     (if NextThread s \<noteq> NULL then (s\<lparr>NextThread := NULL\<rparr>, NextThread s)
      else let (s, Thread1) = KiFindReadyThread s (Priority (Threads s Thread)) 0
           in if Thread1 \<noteq> NULL then (s, Thread1)
              else (s\<lparr>KiIdleSummary := 1\<rparr>, IdleThread s))"

definition KiSetPriorityThread :: "(sched \<Rightarrow> sched) \<Rightarrow> sched \<Rightarrow> ptr \<Rightarrow> nat \<Rightarrow> sched" where
  "KiSetPriorityThread wake s Thread NewPriority =
     (let ThreadPriority = Priority (Threads s Thread)
      in if NewPriority = ThreadPriority then s
         else
           let s = upd_thread s Thread (\<lambda>t. t\<lparr>Priority := NewPriority\<rparr>)
           in case State (Threads s Thread) of
                Ready \<Rightarrow>
                  if ProcessReadyQueue (Threads s Thread) then s
                  else let s = Dequeue s ThreadPriority Thread
                       in if NewPriority < ThreadPriority then QueueTail s NewPriority Thread
                          else KiReadyThread wake s Thread
              | Standby \<Rightarrow>
                  if NewPriority < ThreadPriority then
                    let (s, Thread1) = KiFindReadyThread s ThreadPriority (NewPriority + 1)
                    in if Thread1 \<noteq> NULL then
                         KiReadyThread wake ((upd_thread s Thread1 (\<lambda>t. t\<lparr>State := Standby\<rparr>))\<lparr>NextThread := Thread1\<rparr>) Thread
                       else s
                  else s
              | Running \<Rightarrow>
                  if NextThread s = NULL \<and> NewPriority < ThreadPriority then
                    let (s, Thread1) = KiFindReadyThread s ThreadPriority (NewPriority + 1)
                    in if Thread1 \<noteq> NULL then (upd_thread s Thread1 (\<lambda>t. t\<lparr>State := Standby\<rparr>))\<lparr>NextThread := Thread1\<rparr>
                       else s
                  else s
              | _ \<Rightarrow> s)"

section \<open>The end of a quantum\<close>

definition KiQuantumEnd :: "(sched \<Rightarrow> sched) \<Rightarrow> sched \<Rightarrow> sched" where
  \<comment> \<open>the routine returns the next thread of the processor control block\<close>
  "KiQuantumEnd wake s =
     (let Thread = CurrentThread s
      in if Quantum (Threads s Thread) \<le> 0 then
           let s = upd_thread s Thread (\<lambda>t. t\<lparr>Quantum := ThreadQuantum (Processes s (Process t))\<rparr>);
               P = Priority (Threads s Thread);
               New = (if P < 16 then max (int P - PriorityDecrement (Threads s Thread) - 1) (int (BasePriority (Threads s Thread))) else int P);
               s = (if P < 16 then upd_thread s Thread (\<lambda>t. t\<lparr>PriorityDecrement := 0\<rparr>) else s)
           in if int P \<noteq> New then KiSetPriorityThread wake s Thread (nat New)
              else if NextThread s = NULL then
                let (s, Next) = KiFindReadyThread s P P
                in if Next \<noteq> NULL then (upd_thread s Next (\<lambda>t. t\<lparr>State := Standby\<rparr>))\<lparr>NextThread := Next\<rparr> else s
              else upd_thread s Thread (\<lambda>t. t\<lparr>Preempted := False\<rparr>)
         else s)"

section \<open>The context switch\<close>

definition SwapContext :: "sched \<Rightarrow> ptr \<Rightarrow> sched" where
  "SwapContext s New = upd_thread (s\<lparr>CurrentThread := New\<rparr>) New (\<lambda>t. t\<lparr>State := Running\<rparr>)"

definition KiSwapContext :: "(sched \<Rightarrow> sched) \<Rightarrow> sched \<Rightarrow> ptr \<Rightarrow> bool \<Rightarrow> sched" where
  "KiSwapContext wake s Thread ReadyFlag =
     SwapContext ((if ReadyFlag then KiReadyThread wake s (CurrentThread s) else s)\<lparr>CurrentThread := Thread\<rparr>) Thread"

definition SwitchFrom :: "(sched \<Rightarrow> sched) \<Rightarrow> sched \<Rightarrow> ptr \<Rightarrow> sched" where
  \<comment> \<open>the end of a wait: the selection of a thread and the switch to it\<close>
  "SwitchFrom wake s Thread = (let (s, Next) = KiSelectNextThread s Thread in KiSwapContext wake s Next False)"

definition SwitchToNext :: "(sched \<Rightarrow> sched) \<Rightarrow> sched \<Rightarrow> sched" where
  \<comment> \<open>the common tail of \<open>KiUnlockDispatcherDatabase\<close> and \<open>KiDispatchInterrupt\<close>\<close>
  "SwitchToNext wake s =
     (let New = NextThread s; Old = CurrentThread s;
          s = KiReadyThread wake (s\<lparr>NextThread := NULL, CurrentThread := New\<rparr>) Old
      in SwapContext s New)"

definition KiUnlockDispatcherDatabase :: "(sched \<Rightarrow> sched) \<Rightarrow> sched \<Rightarrow> nat \<Rightarrow> sched" where
  "KiUnlockDispatcherDatabase wake s OldIrql =
     (if NextThread s = NULL then s
      else if OldIrql \<ge> 2 then
        if IsExecutingDpc s then s else s\<lparr>DispatchInterrupt := True\<rparr>
      else SwitchToNext wake (upd_thread s (CurrentThread s) (\<lambda>t. t\<lparr>WaitIrql := OldIrql\<rparr>)))"

definition KiDispatchInterrupt :: "(sched \<Rightarrow> sched) \<Rightarrow> sched \<Rightarrow> sched" where
  \<comment> \<open>what follows the DPC queue\<close>
  "KiDispatchInterrupt wake s =
     (let s = (if QuantumEnd s then KiQuantumEnd wake (s\<lparr>QuantumEnd := False\<rparr>) else s)
      in if NextThread s = NULL then s else SwitchToNext wake s)"

definition KiIdleLoop :: "(sched \<Rightarrow> sched) \<Rightarrow> sched \<Rightarrow> sched" where
  \<comment> \<open>one pass of the loop; the DPC queue is empty, and the next thread is looked for after the processor was halted\<close>
  "KiIdleLoop wake s =
     (if NextThread s = NULL then s\<lparr>QuantumEnd := False\<rparr>
      else KiSwapContext wake (s\<lparr>DispatchInterrupt := False, NextThread := NULL\<rparr>) (NextThread s) False)"

section \<open>Threads that waited for memory\<close>

definition StackInSwapped :: "(sched \<Rightarrow> sched) \<Rightarrow> sched \<Rightarrow> ptr \<Rightarrow> sched" where
  \<comment> \<open>the end of a pass of \<open>KiInSwapKernelStacks\<close>, after \<open>MmInPageKernelStack\<close>\<close>
  "StackInSwapped wake s Thread = KiReadyThread wake (upd_thread s Thread (\<lambda>t. t\<lparr>KernelStackResident := True\<rparr>)) Thread"

partial_function (option) ReadyProcess :: "(sched \<Rightarrow> sched) \<Rightarrow> sched \<Rightarrow> ptr \<Rightarrow> sched option" where
  \<comment> \<open>the inner loop of \<open>KiInSwapProcesses\<close> and \<open>KiOutSwapProcesses\<close>\<close>
  "ReadyProcess wake s Proc =
     (case ReadyListHead (Processes s Proc) of
        [] \<Rightarrow> Some s
      | Thread # rest \<Rightarrow>
          let s = upd_process s Proc (\<lambda>p. p\<lparr>ReadyListHead := rest\<rparr>);
              s = upd_thread s Thread (\<lambda>t. t\<lparr>ProcessReadyQueue := False\<rparr>)
          in ReadyProcess wake (KiReadyThread wake s Thread) Proc)"

definition ProcessInSwapped :: "(sched \<Rightarrow> sched) \<Rightarrow> sched \<Rightarrow> ptr \<Rightarrow> sched option" where
  \<comment> \<open>the end of a pass of \<open>KiInSwapProcesses\<close>, after \<open>MmInSwapProcess\<close>\<close>
  "ProcessInSwapped wake s Proc = ReadyProcess wake (upd_process s Proc (\<lambda>p. p\<lparr>ProcessState := ProcessInMemory\<rparr>)) Proc"

definition ProcessOutSwap :: "(sched \<Rightarrow> sched) \<Rightarrow> sched \<Rightarrow> ptr \<Rightarrow> sched option" where
  \<comment> \<open>the start of a pass of \<open>KiOutSwapProcesses\<close>, before \<open>MmOutSwapProcess\<close>\<close>
  "ProcessOutSwap wake s Proc =
     (if ReadyListHead (Processes s Proc) \<noteq> []
      then ReadyProcess wake (upd_process s Proc (\<lambda>p. p\<lparr>ProcessState := ProcessInMemory\<rparr>)) Proc
      else Some (upd_process s Proc (\<lambda>p. p\<lparr>ProcessState := ProcessOutOfMemory\<rparr>)))"

section \<open>Threads that were ready for too long\<close>

abbreviation (input) "THREAD_BOOST_PRIORITY \<equiv> (14 :: nat)"

abbreviation (input) "READY_WITHOUT_RUNNING \<equiv> (300 :: nat)"

definition BoostThread :: "(sched \<Rightarrow> sched) \<Rightarrow> sched \<Rightarrow> nat \<Rightarrow> ptr \<Rightarrow> sched" where
  "BoostThread wake s Index Thread =
     (let s = Dequeue s Index Thread;
          s = upd_thread s Thread (\<lambda>t. t\<lparr>PriorityDecrement := int THREAD_BOOST_PRIORITY - int (Priority t),
                DecrementCount := KiDecrementCount s, Priority := THREAD_BOOST_PRIORITY,
                Quantum := schar (ThreadQuantum (Processes s (Process t)) * 2)\<rparr>)
      in KiReadyThread wake s Thread)"

fun ScanReadyList :: "(sched \<Rightarrow> sched) \<Rightarrow> nat \<Rightarrow> nat \<Rightarrow> sched \<Rightarrow> nat \<Rightarrow> nat \<Rightarrow> nat \<Rightarrow> sched \<times> nat \<times> nat" where
  \<comment> \<open>the inner loop: \<open>Entry\<close> is the position in the list; returns the counters\<close>
  "ScanReadyList wake CurrentTick Index s Entry 0 Count = (s, 0, Count)" |
  "ScanReadyList wake CurrentTick Index s Entry (Suc Number) Count =
     (let Thread = KiDispatcherReadyListHead s Index ! Entry;
          boost = u32_sub CurrentTick (WaitTime (Threads s Thread)) \<ge> READY_WITHOUT_RUNNING \<and> PriorityDecrement (Threads s Thread) = 0;
          s = (if boost then BoostThread wake s Index Thread else s);
          Count = (if boost then Count - 1 else Count);
          Entry = (if boost then Entry else Entry + 1)
      in if Entry < length (KiDispatcherReadyListHead s Index) \<and> Number \<noteq> 0 \<and> Count \<noteq> 0
         then ScanReadyList wake CurrentTick Index s Entry Number Count
         else (s, Number, Count))"

partial_function (option) ScanReadyQueues ::
  "(sched \<Rightarrow> sched) \<Rightarrow> nat \<Rightarrow> 32 word \<Rightarrow> sched \<Rightarrow> nat \<Rightarrow> nat \<Rightarrow> nat \<Rightarrow> (sched \<times> nat \<times> nat \<times> nat) option" where
  "ScanReadyQueues wake CurrentTick Summary s Index Number Count =
     (let Index = (if Index > THREAD_BOOST_PRIORITY - 1 then 1 else Index);
          found = bit Summary Index;
          Summary = (if found then Summary XOR push_bit Index 1 else Summary);
          (s, Number, Count) = (if found then ScanReadyList wake CurrentTick Index s 0 Number Count else (s, Number, Count));
          Index = Index + 1
      in if Summary \<noteq> 0 \<and> Number \<noteq> 0 \<and> Count \<noteq> 0
         then ScanReadyQueues wake CurrentTick Summary s Index Number Count
         else Some (s, Index, Number, Count))"

definition KiScanReadyQueues :: "(sched \<Rightarrow> sched) \<Rightarrow> sched \<Rightarrow> nat \<Rightarrow> nat \<times> nat \<times> nat \<Rightarrow> sched option" where
  \<comment> \<open>\<open>junk\<close> is what the automatic variables \<open>Index\<close>, \<open>Number\<close> and \<open>Count\<close> hold on entry\<close>
  "KiScanReadyQueues wake s OldIrql junk =
     (let Summary = KiReadySummary s AND (push_bit THREAD_BOOST_PRIORITY 1 - 2)
      in case (if Summary \<noteq> 0 then ScanReadyQueues wake (TickCountLow s) Summary s (KiReadyQueueIndex s) 16 10
               else Some (s, junk)) of
           None \<Rightarrow> None
         | Some (s, Index, Number, Count) \<Rightarrow>
             let s = KiUnlockDispatcherDatabase wake s OldIrql
             in Some (s\<lparr>KiReadyQueueIndex := (if Count \<noteq> 0 \<and> Number \<noteq> 0 then 1 else Index)\<rparr>))"

end
