(* ===== verification/Wait_Model.thy ===== *)
theory Wait_Model
  imports Sched_Model
begin

text \<open>
  Waits and the objects threads wait for: the wait support (\<open>KE/WAITSUP.C\<close>, \<open>KE/KI.H\<close>), events
  (\<open>KE/EVENTOBJ.C\<close>), semaphores (\<open>KE/SEMPHOBJ.C\<close>), mutants (\<open>KE/MUTNTOBJ.C\<close>), timers
  (\<open>KE/TIMERSUP.C\<close>, \<open>KE/TIMEROBJ.C\<close>, \<open>KE/I386/TIMINDEX.ASM\<close>), DPC objects (\<open>KE/DPCOBJ.C\<close>) and
  the wait services (\<open>KE/WAIT.C\<close>).  \<open>ready\<close> stands for \<open>KiReadyThread\<close>, \<open>wake\<close> for the wait test on
  the swap event that \<open>KiReadyThread\<close> may make.
\<close>

section \<open>Satisfying a wait\<close>

definition slong :: "int \<Rightarrow> int" where
  \<comment> \<open>the value of a \<open>LONG\<close>\<close>
  "slong x = (x + 2147483648) mod 4294967296 - 2147483648"

definition KiWaitSatisfyMutant :: "sched \<Rightarrow> ptr \<Rightarrow> ptr \<Rightarrow> sched" where
  "KiWaitSatisfyMutant s Object Thread =
     (let s = upd_object s Object (\<lambda>m. m\<lparr>SignalState := slong (SignalState m - 1)\<rparr>)
      in if SignalState (Objects s Object) = 0 then
           let s = upd_thread s Thread (\<lambda>t. t\<lparr>KernelApcDisable := KernelApcDisable t - ApcDisable (Objects s Object)\<rparr>);
               s = upd_object s Object (\<lambda>m. m\<lparr>OwnerThread := Thread\<rparr>);
               s = (if Abandoned (Objects s Object)
                    then upd_thread (upd_object s Object (\<lambda>m. m\<lparr>Abandoned := False\<rparr>)) Thread (\<lambda>t. t\<lparr>WaitStatus := 128\<rparr>)
                    else s)
           in upd_thread s Thread (\<lambda>t. t\<lparr>MutantListHead := MutantListHead t @ [Object]\<rparr>)
         else s)"

definition KiWaitSatisfyOther :: "sched \<Rightarrow> ptr \<Rightarrow> sched" where
  "KiWaitSatisfyOther s Object =
     (if HeaderType (Objects s Object) = EventObject then upd_object s Object (\<lambda>e. e\<lparr>SignalState := 0\<rparr>)
      else if HeaderType (Objects s Object) = SemaphoreObject then upd_object s Object (\<lambda>e. e\<lparr>SignalState := slong (SignalState e - 1)\<rparr>)
      else s)"

definition KiWaitSatisfyAny :: "sched \<Rightarrow> ptr \<Rightarrow> ptr \<Rightarrow> sched" where
  "KiWaitSatisfyAny s Object Thread =
     (if HeaderType (Objects s Object) = EventObject then upd_object s Object (\<lambda>e. e\<lparr>SignalState := 0\<rparr>)
      else if HeaderType (Objects s Object) = SemaphoreObject then upd_object s Object (\<lambda>e. e\<lparr>SignalState := slong (SignalState e - 1)\<rparr>)
      else if HeaderType (Objects s Object) = MutantObject then KiWaitSatisfyMutant s Object Thread
      else s)"

definition ring_from :: "KWAIT_BLOCK \<Rightarrow> KWAIT_BLOCK list \<Rightarrow> KWAIT_BLOCK list" where
  \<comment> \<open>the wait blocks of a thread, from one of them on along \<open>NextWaitBlock\<close>\<close>
  "ring_from b bs = dropWhile (\<lambda>x. x \<noteq> b) bs @ takeWhile (\<lambda>x. x \<noteq> b) bs"

fun SatisfyAll :: "sched \<Rightarrow> KWAIT_BLOCK list \<Rightarrow> ptr \<Rightarrow> sched" where
  "SatisfyAll s [] Thread = s" |
  "SatisfyAll s (b # bs) Thread = SatisfyAll (KiWaitSatisfyAny s (WbObject b) Thread) bs Thread"

definition KiWaitSatisfy :: "sched \<Rightarrow> KWAIT_BLOCK \<Rightarrow> KWAIT_BLOCK list \<Rightarrow> sched" where
  \<comment> \<open>\<open>bs\<close> are the wait blocks of the thread\<close>
  "KiWaitSatisfy s WaitBlock bs =
     SatisfyAll s (if WbWaitType WaitBlock \<noteq> WaitAny then ring_from WaitBlock bs else [WaitBlock]) (WbThread WaitBlock)"

section \<open>Ending a wait\<close>

definition KiRemoveTreeTimer :: "sched \<Rightarrow> ptr \<Rightarrow> sched" where
  "KiRemoveTreeTimer s T =
     (upd_object s T (\<lambda>t. t\<lparr>Inserted := False\<rparr>))\<lparr>KiTimerTableListHead := (\<lambda>i. remove1 T (KiTimerTableListHead s i))\<rparr>"

fun RemoveWaitBlocks :: "sched \<Rightarrow> KWAIT_BLOCK list \<Rightarrow> sched" where
  "RemoveWaitBlocks s [] = s" |
  "RemoveWaitBlocks s (b # bs) = RemoveWaitBlocks (upd_object s (WbObject b) (\<lambda>e. e\<lparr>WaitListHead := remove1 b (WaitListHead e)\<rparr>)) bs"

abbreviation (input) "TIME_CRITICAL_PRIORITY_BOUND \<equiv> (14 :: nat)"

definition UnwaitPriority :: "sched \<Rightarrow> int \<Rightarrow> KTHREAD \<Rightarrow> KTHREAD" where
  \<comment> \<open>the new priority and quantum of a thread whose wait ends\<close>
  "UnwaitPriority s Increment t =
     (let Q = ThreadQuantum (Processes s (Process t))
      in if Priority t < 16 then
           let New = int (BasePriority t) + Increment;
               t = (if PriorityDecrement t = 0 \<and> New > int (Priority t) then t\<lparr>Priority := (if New \<ge> 16 then 15 else nat New)\<rparr> else t)
           in if BasePriority t \<ge> TIME_CRITICAL_PRIORITY_BOUND then t\<lparr>Quantum := Q\<rparr>
              else let t = t\<lparr>Quantum := schar (Quantum t - schar (KiWaitQuantumDecrement s))\<rparr>
                   in if Quantum t \<le> 0 then
                        let P = schar (int (Priority t) - (PriorityDecrement t + 1))
                        in t\<lparr>Quantum := Q, Priority := (if P < int (BasePriority t) then BasePriority t else nat P), PriorityDecrement := 0\<rparr>
                      else t
         else t\<lparr>Quantum := Q\<rparr>)"

definition LeaveWait :: "sched \<Rightarrow> ptr \<Rightarrow> sched" where
  \<comment> \<open>the thread leaves the wait lists, the list of waiting threads and the timer table\<close>
  "LeaveWait s Thread =
     (let s = RemoveWaitBlocks s (WaitBlockList (Threads s Thread));
          s = s\<lparr>KiWaitInListHead := remove1 Thread (KiWaitInListHead s), KiWaitOutListHead := remove1 Thread (KiWaitOutListHead s)\<rparr>;
          T = Timer (Threads s Thread);
          s = (if Inserted (Objects s T) then KiRemoveTreeTimer s T else s);
          Q = WaitQueue (Threads s Thread)
      in if Q \<noteq> NULL then upd_object s Q (\<lambda>q. q\<lparr>CurrentCount := u32 (CurrentCount q + 1)\<rparr>) else s)"

definition KiUnwaitThread :: "(sched \<Rightarrow> ptr \<Rightarrow> sched) \<Rightarrow> sched \<Rightarrow> ptr \<Rightarrow> 32 word \<Rightarrow> int \<Rightarrow> sched" where
  "KiUnwaitThread ready s Thread Status Increment =
     (let s = s\<lparr>KeWaitReason := (KeWaitReason s)(WaitReason (Threads s Thread) := KeWaitReason s (WaitReason (Threads s Thread)) - 1)\<rparr>;
          s = upd_thread s Thread (\<lambda>t. t\<lparr>WaitStatus := WaitStatus t OR Status\<rparr>);
          s = LeaveWait s Thread;
          s = upd_thread s Thread (UnwaitPriority s Increment)
      in ready s Thread)"

section \<open>The wait test\<close>

fun OthersSignalled :: "sched \<Rightarrow> ptr \<Rightarrow> KWAIT_BLOCK list \<Rightarrow> bool" where
  \<comment> \<open>the test of the other wait blocks of a thread that waits for all of its objects\<close>
  "OthersSignalled s Thread [] = True" |
  "OthersSignalled s Thread (b # bs) =
     (if WbWaitKey b \<noteq> 258 then
        let m = Objects s (WbObject b)
        in if HeaderType m = MutantObject \<and> SignalState m \<le> 0 \<and> Thread \<noteq> OwnerThread m then False
           else if SignalState m \<le> 0 then False
           else OthersSignalled s Thread bs
      else OthersSignalled s Thread bs)"

partial_function (option) WaitTestLoop :: "(sched \<Rightarrow> ptr \<Rightarrow> sched) \<Rightarrow> sched \<Rightarrow> ptr \<Rightarrow> int \<Rightarrow> nat \<Rightarrow> sched option" where
  \<comment> \<open>\<open>WaitEntry\<close> is the entry at the position \<open>k\<close> of the wait list\<close>
  "WaitTestLoop ready s Object Increment k =
     (if SignalState (Objects s Object) > 0 \<and> k < length (WaitListHead (Objects s Object)) then
        let WaitBlock = WaitListHead (Objects s Object) ! k;
            Thread = WbThread WaitBlock;
            bs = WaitBlockList (Threads s Thread)
        in if WbWaitType WaitBlock \<noteq> WaitAny \<and> \<not> OthersSignalled s Thread (tl (ring_from WaitBlock bs))
           then WaitTestLoop ready s Object Increment (k + 1)
           else
             let s = (if WbWaitType WaitBlock \<noteq> WaitAny then KiWaitSatisfy s WaitBlock bs else KiWaitSatisfyAny s Object Thread)
             in WaitTestLoop ready (KiUnwaitThread ready s Thread (WbWaitKey WaitBlock) Increment) Object Increment k
      else Some s)"

definition KiWaitTest :: "(sched \<Rightarrow> ptr \<Rightarrow> sched) \<Rightarrow> sched \<Rightarrow> ptr \<Rightarrow> int \<Rightarrow> sched option" where
  "KiWaitTest ready s Object Increment = WaitTestLoop ready s Object Increment 0"

abbreviation (input) "BALANCE_INCREMENT \<equiv> (10 :: int)"

fun SwapWake :: "nat \<Rightarrow> sched \<Rightarrow> sched" where
  \<comment> \<open>the wait test on the swap event; a thread it readies may signal the event again, so it
    calls itself, with fewer threads that wait for the event each time\<close>
  "SwapWake 0 s = s" |
  "SwapWake (Suc n) s = (case KiWaitTest (KiReadyThread (SwapWake n)) s (KiSwapEvent s) BALANCE_INCREMENT of Some s' \<Rightarrow> s' | None \<Rightarrow> s)"

definition SwapEventTest :: "sched \<Rightarrow> sched" where
  "SwapEventTest s = SwapWake (length (WaitListHead (Objects s (KiSwapEvent s)))) s"

end
