(* ===== verification/Wait_Services.thy ===== *)
theory Wait_Services
  imports Wait_Model
begin

text \<open>
  The operations on events, semaphores, mutants, timers, DPC objects and kernel queues, and the
  wait services.  A definition runs from the acquisition of the dispatcher lock to its release;
  \<open>OldIrql\<close> is the IRQL at which the lock was acquired.  An operation that makes a wait test
  returns \<open>None\<close> if the wait test does not end.
\<close>

abbreviation (input) "Ready_thread \<equiv> KiReadyThread SwapEventTest"

abbreviation (input) "Unlock \<equiv> KiUnlockDispatcherDatabase SwapEventTest"

section \<open>Events\<close>

definition KeInitializeEvent :: "sched \<Rightarrow> ptr \<Rightarrow> KOBJECTS \<Rightarrow> bool \<Rightarrow> sched" where
  "KeInitializeEvent s Event EventType Initial =
     upd_object s Event (\<lambda>e. e\<lparr>HeaderType := EventType, SignalState := (if Initial then 1 else 0), WaitListHead := []\<rparr>)"

definition KeClearEvent :: "sched \<Rightarrow> ptr \<Rightarrow> sched" where
  "KeClearEvent s Event = upd_object s Event (\<lambda>e. e\<lparr>SignalState := 0\<rparr>)"

definition KeReadStateEvent :: "sched \<Rightarrow> ptr \<Rightarrow> int" where
  "KeReadStateEvent s Event = SignalState (Objects s Event)"

definition KeResetEvent :: "sched \<Rightarrow> ptr \<Rightarrow> nat \<Rightarrow> sched \<times> int" where
  "KeResetEvent s Event OldIrql =
     (Unlock (upd_object s Event (\<lambda>e. e\<lparr>SignalState := 0\<rparr>)) OldIrql, SignalState (Objects s Event))"

definition SignalEvent :: "sched \<Rightarrow> ptr \<Rightarrow> int \<Rightarrow> sched option" where
  \<comment> \<open>the part of \<open>KeSetEvent\<close> under the lock\<close>
  "SignalEvent s Event Increment =
     (if SignalState (Objects s Event) = 0 then
        let s = upd_object s Event (\<lambda>e. e\<lparr>SignalState := 1\<rparr>)
        in if WaitListHead (Objects s Event) \<noteq> [] then KiWaitTest Ready_thread s Event Increment else Some s
      else Some s)"

definition KeSetEvent :: "sched \<Rightarrow> ptr \<Rightarrow> int \<Rightarrow> bool \<Rightarrow> nat \<Rightarrow> (sched \<times> int) option" where
  "KeSetEvent s Event Increment Wait OldIrql =
     (case SignalEvent s Event Increment of
        None \<Rightarrow> None
      | Some s' \<Rightarrow>
          Some (if Wait then upd_thread s' (CurrentThread s') (\<lambda>t. t\<lparr>WaitNext := True, WaitIrql := OldIrql\<rparr>)
                else Unlock s' OldIrql, SignalState (Objects s Event)))"

definition Release :: "sched \<Rightarrow> bool \<Rightarrow> nat \<Rightarrow> sched" where
  \<comment> \<open>the end of an operation that may be followed by a wait\<close>
  "Release s Wait OldIrql = (if Wait then upd_thread s (CurrentThread s) (\<lambda>t. t\<lparr>WaitIrql := OldIrql\<rparr>) else Unlock s OldIrql)"

definition KePulseEvent :: "sched \<Rightarrow> ptr \<Rightarrow> int \<Rightarrow> bool \<Rightarrow> nat \<Rightarrow> (sched \<times> int) option" where
  "KePulseEvent s Event Increment Wait OldIrql =
     (let OldState = SignalState (Objects s Event);
          s = upd_thread s (CurrentThread s) (\<lambda>t. t\<lparr>WaitNext := Wait\<rparr>)
      in case (if OldState = 0 \<and> WaitListHead (Objects s Event) \<noteq> []
               then KiWaitTest Ready_thread (upd_object s Event (\<lambda>e. e\<lparr>SignalState := 1\<rparr>)) Event Increment else Some s) of
           None \<Rightarrow> None
         | Some s \<Rightarrow> Some (Release (upd_object s Event (\<lambda>e. e\<lparr>SignalState := 0\<rparr>)) Wait OldIrql, OldState))"

definition KeSetEventBoostPriority :: "sched \<Rightarrow> ptr \<Rightarrow> nat \<Rightarrow> sched \<times> ptr option" where
  \<comment> \<open>with the thread that is stored through the optional argument\<close>
  "KeSetEventBoostPriority s Event OldIrql =
     (let s = upd_object s Event (\<lambda>e. e\<lparr>SignalState := 1\<rparr>)
      in case WaitListHead (Objects s Event) of
           [] \<Rightarrow> (Unlock s OldIrql, None)
         | WaitBlock # _ \<Rightarrow>
             let s = upd_object s Event (\<lambda>e. e\<lparr>SignalState := 0\<rparr>)
             in (Unlock (KiUnwaitThread Ready_thread s (WbThread WaitBlock) 0 1) OldIrql, Some (WbThread WaitBlock)))"

section \<open>Semaphores\<close>

definition KeInitializeSemaphore :: "sched \<Rightarrow> ptr \<Rightarrow> int \<Rightarrow> int \<Rightarrow> sched" where
  "KeInitializeSemaphore s Semaphore Count Maximum =
     upd_object s Semaphore (\<lambda>e. e\<lparr>HeaderType := SemaphoreObject, SignalState := Count, WaitListHead := [], Limit := Maximum\<rparr>)"

definition KeReadStateSemaphore :: "sched \<Rightarrow> ptr \<Rightarrow> int" where
  "KeReadStateSemaphore s Semaphore = SignalState (Objects s Semaphore)"

definition KeReleaseSemaphore :: "sched \<Rightarrow> ptr \<Rightarrow> int \<Rightarrow> int \<Rightarrow> bool \<Rightarrow> nat \<Rightarrow> (sched \<times> (32 word + int)) option" where
  \<comment> \<open>\<open>Inl\<close> is the status that is raised\<close>
  "KeReleaseSemaphore s Semaphore Increment Adjustment Wait OldIrql =
     (let OldState = SignalState (Objects s Semaphore); NewState = slong (OldState + Adjustment)
      in if NewState > Limit (Objects s Semaphore) \<or> NewState < OldState then Some (Unlock s OldIrql, Inl 0xC0000047)
         else
           let s = upd_object s Semaphore (\<lambda>e. e\<lparr>SignalState := NewState\<rparr>);
               s = upd_thread s (CurrentThread s) (\<lambda>t. t\<lparr>WaitNext := Wait\<rparr>)
           in case (if OldState = 0 \<and> WaitListHead (Objects s Semaphore) \<noteq> []
                    then KiWaitTest Ready_thread s Semaphore Increment else Some s) of
                None \<Rightarrow> None
              | Some s \<Rightarrow> Some (Release s Wait OldIrql, Inr OldState))"

section \<open>Mutants\<close>

definition KeInitializeMutant :: "sched \<Rightarrow> ptr \<Rightarrow> bool \<Rightarrow> sched" where
  "KeInitializeMutant s Mutant InitialOwner =
     (let Thread = CurrentThread s;
          s = (if InitialOwner then
                 upd_thread (upd_object s Mutant (\<lambda>m. m\<lparr>HeaderType := MutantObject, SignalState := 0, OwnerThread := Thread\<rparr>))
                   Thread (\<lambda>t. t\<lparr>MutantListHead := MutantListHead t @ [Mutant]\<rparr>)
               else upd_object s Mutant (\<lambda>m. m\<lparr>HeaderType := MutantObject, SignalState := 1, OwnerThread := NULL\<rparr>))
      in upd_object s Mutant (\<lambda>m. m\<lparr>WaitListHead := [], Abandoned := False, ApcDisable := 0\<rparr>))"

definition KeInitializeMutex :: "sched \<Rightarrow> ptr \<Rightarrow> sched" where
  "KeInitializeMutex s Mutant =
     upd_object s Mutant (\<lambda>m. m\<lparr>HeaderType := MutantObject, SignalState := 1, WaitListHead := [], OwnerThread := NULL,
       Abandoned := False, ApcDisable := 1\<rparr>)"

definition KeReadStateMutant :: "sched \<Rightarrow> ptr \<Rightarrow> int" where
  "KeReadStateMutant s Mutant = SignalState (Objects s Mutant)"

definition DisownMutant :: "sched \<Rightarrow> ptr \<Rightarrow> ptr \<Rightarrow> sched" where
  \<comment> \<open>the mutant leaves the list of its owner, and the APC disable count of the thread is given back\<close>
  "DisownMutant s Mutant Thread =
     (let s = upd_thread s (OwnerThread (Objects s Mutant)) (\<lambda>t. t\<lparr>MutantListHead := remove1 Mutant (MutantListHead t)\<rparr>);
          s = upd_thread s Thread (\<lambda>t. t\<lparr>KernelApcDisable := KernelApcDisable t + ApcDisable (Objects s Mutant)\<rparr>)
      in if KernelApcDisable (Threads s Thread) = 0 \<and> ApcListHead (Threads s Thread) KernelMode \<noteq> []
         then (upd_thread s Thread (\<lambda>t. t\<lparr>KernelApcPending := True\<rparr>))\<lparr>ApcInterrupt := True\<rparr>
         else s)"

definition KeReleaseMutant :: "sched \<Rightarrow> ptr \<Rightarrow> int \<Rightarrow> bool \<Rightarrow> bool \<Rightarrow> nat \<Rightarrow> (sched \<times> (32 word + int)) option" where
  "KeReleaseMutant s Mutant Increment Abandon Wait OldIrql =
     (let Thread = CurrentThread s; OldState = SignalState (Objects s Mutant);
          s = upd_thread s Thread (\<lambda>t. t\<lparr>WaitNext := Wait\<rparr>)
      in if \<not> Abandon \<and> OwnerThread (Objects s Mutant) \<noteq> Thread
         then Some (Unlock s OldIrql, Inl (if Abandoned (Objects s Mutant) then 0x80 else 0xC0000046))
         else
           let s = upd_object s Mutant (\<lambda>m. if Abandon then m\<lparr>SignalState := 1, Abandoned := True\<rparr>
                                            else m\<lparr>SignalState := slong (SignalState m + 1)\<rparr>)
           in case (if SignalState (Objects s Mutant) = 1 then
                      let s = (if OldState \<le> 0 then DisownMutant s Mutant Thread else s);
                          s = upd_object s Mutant (\<lambda>m. m\<lparr>OwnerThread := NULL\<rparr>)
                      in if WaitListHead (Objects s Mutant) \<noteq> [] then KiWaitTest Ready_thread s Mutant Increment else Some s
                    else Some s) of
                None \<Rightarrow> None
              | Some s \<Rightarrow> Some (Release s Wait OldIrql, Inr OldState))"

definition KeReleaseMutex :: "sched \<Rightarrow> ptr \<Rightarrow> bool \<Rightarrow> nat \<Rightarrow> (sched \<times> (32 word + int)) option" where
  "KeReleaseMutex s Mutex Wait OldIrql = KeReleaseMutant s Mutex 1 False Wait OldIrql"

section \<open>DPC objects\<close>

definition KeInsertQueueDpc :: "sched \<Rightarrow> ptr \<Rightarrow> sched \<times> bool" where
  "KeInsertQueueDpc s Dpc =
     (if DpcQueued s Dpc then (s, False)
      else let s = s\<lparr>DpcListHead := DpcListHead s @ [Dpc], DpcQueued := (DpcQueued s)(Dpc := True)\<rparr>
           in (if hd (DpcListHead s) = Dpc then s\<lparr>DispatchInterrupt := True\<rparr> else s, True))"

definition KeRemoveQueueDpc :: "sched \<Rightarrow> ptr \<Rightarrow> sched \<times> bool" where
  "KeRemoveQueueDpc s Dpc =
     (if DpcQueued s Dpc then (s\<lparr>DpcQueued := (DpcQueued s)(Dpc := False), DpcListHead := remove1 Dpc (DpcListHead s)\<rparr>, True)
      else (s, False))"

section \<open>Timers\<close>

definition s64 :: "int \<Rightarrow> int" where
  \<comment> \<open>the value of a \<open>LARGE_INTEGER\<close>\<close>
  "s64 x = (x + 2 ^ 63) mod 2 ^ 64 - 2 ^ 63"

definition adc :: "nat \<Rightarrow> nat \<Rightarrow> nat \<times> nat" where
  \<comment> \<open>32-bit addition: the sum and the carry\<close>
  "adc a b = (u32 (a + b), (a + b) div 4294967296)"

definition KiComputeTimerTableIndex :: "nat \<Rightarrow> nat \<Rightarrow> nat \<Rightarrow> nat" where
  \<comment> \<open>the due time divided by the time increment, through the reciprocal of the increment\<close>
  "KiComputeTimerTableIndex Reciprocal ShiftCount Due =
     (let ebx = u32 Due; ecx = Due div 4294967296; rl = u32 Reciprocal; rh = Reciprocal div 4294967296;
          p1 = ebx * rl div 4294967296;
          p2 = ebx * rh;
          p3 = ecx * rl;
          (eax, c1) = adc (u32 p3) (u32 p2);
          (eax, c2) = adc eax p1;
          p4 = ecx * rh;
          (eax, c) = adc (u32 p4) (c1 + c2);
          edx = u32 (p4 div 4294967296 + c);
          (eax, c) = adc eax (p3 div 4294967296);
          edx = u32 (edx + c);
          (eax, c) = adc eax (p2 div 4294967296);
          edx = u32 (edx + c)
      in u32 ((edx * 4294967296 + eax) div 2 ^ (ShiftCount mod 32)) mod 128)"

fun TimerSearch :: "sched \<Rightarrow> nat \<Rightarrow> ptr \<Rightarrow> ptr list \<Rightarrow> ptr list \<Rightarrow> ptr list \<times> bool" where
  \<comment> \<open>the list backwards from its end; whether an entry was found that is not due later\<close>
  "TimerSearch s Due T [] after = (T # after, False)" |
  "TimerSearch s Due T (Next # before) after =
     (if Due \<ge> DueTime (Objects s Next) then (rev (Next # before) @ T # after, True)
      else TimerSearch s Due T before (Next # after))"

definition KiInsertTreeTimer :: "sched \<Rightarrow> ptr \<Rightarrow> int \<Rightarrow> nat \<Rightarrow> sched \<times> bool" where
  \<comment> \<open>\<open>now\<close> is the interrupt time when it is queried again\<close>
  "KiInsertTreeTimer s T Interval now =
     (let s = upd_object s T (\<lambda>t. t\<lparr>SignalState := 0, Inserted := True\<rparr>);
          Difference = s64 (SystemTime s - Interval)
      in if Interval \<ge> 0 \<and> Difference \<ge> 0 then (upd_object s T (\<lambda>t. t\<lparr>SignalState := 1, Inserted := False\<rparr>), False)
         else
           let Interval = (if Interval \<ge> 0 then Difference else Interval);
               Due = nat ((int (InterruptTime s) - Interval) mod 2 ^ 64);
               s = upd_object s T (\<lambda>t. t\<lparr>DueTime := Due\<rparr>);
               Index = KiComputeTimerTableIndex (KiTimeIncrementReciprocal s) (KiTimeIncrementShiftCount s) Due;
               (L, found) = TimerSearch s Due T (rev (KiTimerTableListHead s Index)) [];
               s = s\<lparr>KiTimerTableListHead := (KiTimerTableListHead s)(Index := L)\<rparr>
           in if \<not> found \<and> Due \<le> now
              then (upd_object (KiRemoveTreeTimer s T) T (\<lambda>t. t\<lparr>SignalState := 1\<rparr>), False)
              else (s, True))"

definition KeInitializeTimer :: "sched \<Rightarrow> ptr \<Rightarrow> sched" where
  "KeInitializeTimer s T =
     upd_object s T (\<lambda>t. t\<lparr>HeaderType := TimerObject, SignalState := 0, WaitListHead := [], Inserted := False, DueTime := 0\<rparr>)"

definition KeCancelTimer :: "sched \<Rightarrow> ptr \<Rightarrow> nat \<Rightarrow> sched \<times> bool" where
  "KeCancelTimer s T OldIrql =
     (Unlock (if Inserted (Objects s T) then KiRemoveTreeTimer s T else s) OldIrql, Inserted (Objects s T))"

definition KeReadStateTimer :: "sched \<Rightarrow> ptr \<Rightarrow> bool" where
  "KeReadStateTimer s T = (SignalState (Objects s T) \<noteq> 0)"

definition KeSetTimer :: "sched \<Rightarrow> ptr \<Rightarrow> int \<Rightarrow> nat \<Rightarrow> ptr \<Rightarrow> nat \<Rightarrow> (sched \<times> bool) option" where
  "KeSetTimer s T Due now Dpc OldIrql =
     (let Old = Inserted (Objects s T);
          s = (if Old then KiRemoveTreeTimer s T else s);
          s = upd_object s T (\<lambda>t. t\<lparr>TimerDpc := Dpc\<rparr>);
          (s, ok) = KiInsertTreeTimer s T Due now
      in case (if ok then Some s
               else case (if WaitListHead (Objects s T) \<noteq> [] then KiWaitTest Ready_thread s T 0 else Some s) of
                 None \<Rightarrow> None
               | Some s \<Rightarrow> Some (if TimerDpc (Objects s T) \<noteq> NULL then fst (KeInsertQueueDpc s (TimerDpc (Objects s T))) else s)) of
           None \<Rightarrow> None
         | Some s \<Rightarrow> Some (Unlock s OldIrql, Old))"

fun TakeExpired :: "sched \<Rightarrow> nat \<Rightarrow> ptr list \<Rightarrow> ptr list \<times> ptr list" where
  \<comment> \<open>the timers at the front of a list that are due, and the rest of the list\<close>
  "TakeExpired s Current [] = ([], [])" |
  "TakeExpired s Current (T # Ts) =
     (if DueTime (Objects s T) \<le> Current then let (e, r) = TakeExpired s Current Ts in (T # e, r) else ([], T # Ts))"

abbreviation (input) "ExpiredList \<equiv> (128 :: nat)"

fun ExpireLists :: "nat \<Rightarrow> sched \<Rightarrow> nat \<Rightarrow> nat \<Rightarrow> sched" where
  \<comment> \<open>the loop over the lists; \<open>n\<close> is the number of lists that are left; the list of the expired
    timers is kept behind the lists of the table, since a timer is removed from the list it is on\<close>
  "ExpireLists Current s Index 0 = s" |
  "ExpireLists Current s Index (Suc n) =
     (let (e, r) = TakeExpired s Current (KiTimerTableListHead s Index)
      in ExpireLists Current (s\<lparr>KiTimerTableListHead := (KiTimerTableListHead s)(Index := r, ExpiredList := KiTimerTableListHead s ExpiredList @ e)\<rparr>)
           ((Index + 1) mod 128) n)"

definition SignalTimer :: "(ptr \<Rightarrow> sched \<Rightarrow> sched) \<Rightarrow> sched \<Rightarrow> ptr \<Rightarrow> sched option" where
  \<comment> \<open>\<open>routine\<close> is the effect of the deferred routine of a DPC object\<close>
  "SignalTimer routine s T =
     (let s = upd_object (KiRemoveTreeTimer s T) T (\<lambda>t. t\<lparr>SignalState := 1\<rparr>)
      in case (if WaitListHead (Objects s T) \<noteq> [] then KiWaitTest Ready_thread s T 0 else Some s) of
           None \<Rightarrow> None
         | Some s \<Rightarrow> Some (if TimerDpc (Objects s T) \<noteq> NULL then routine (TimerDpc (Objects s T)) s else s))"

partial_function (option) SignalTimers :: "(ptr \<Rightarrow> sched \<Rightarrow> sched) \<Rightarrow> sched \<Rightarrow> sched option" where
  "SignalTimers routine s =
     (case KiTimerTableListHead s ExpiredList of
        [] \<Rightarrow> Some s
      | T # Ts \<Rightarrow> (case SignalTimer routine s T of None \<Rightarrow> None | Some s \<Rightarrow> SignalTimers routine s))"

definition KiTimerExpiration :: "(ptr \<Rightarrow> sched \<Rightarrow> sched) \<Rightarrow> sched \<Rightarrow> nat \<Rightarrow> sched option" where
  \<comment> \<open>\<open>Hand\<close> is the tick count at which the expiration was noticed\<close>
  "KiTimerExpiration routine s Hand =
     (let far = u32_sub (TickCountLow s) Hand \<ge> 128
      in SignalTimers routine (ExpireLists (InterruptTime s) (s\<lparr>KiTimerTableListHead := (KiTimerTableListHead s)(ExpiredList := [])\<rparr>)
           (if far then 0 else Hand mod 128) (if far then 128 else u32_sub (TickCountLow s) Hand + 1)))"

section \<open>Queues\<close>

abbreviation (input) "WrQueue \<equiv> (15 :: nat)"

definition KeInitializeQueue :: "sched \<Rightarrow> ptr \<Rightarrow> nat \<Rightarrow> sched" where
  \<comment> \<open>there is one processor\<close>
  "KeInitializeQueue s Queue Count =
     upd_object s Queue (\<lambda>q. q\<lparr>HeaderType := QueueObject, SignalState := 0, WaitListHead := [], EntryListHead := [],
       ThreadListHead := [], CurrentCount := 0, MaximumCount := (if Count \<noteq> 0 then Count else 1)\<rparr>)"

definition KeReadStateQueue :: "sched \<Rightarrow> ptr \<Rightarrow> int" where
  "KeReadStateQueue s Queue = SignalState (Objects s Queue)"

definition KiActivateWaiterQueue :: "sched \<Rightarrow> ptr \<Rightarrow> sched" where
  "KiActivateWaiterQueue s Queue =
     (let s = upd_object s Queue (\<lambda>q. q\<lparr>CurrentCount := u32_sub (CurrentCount q) 1\<rparr>); q = Objects s Queue
      in if CurrentCount q < MaximumCount q \<and> EntryListHead q \<noteq> [] \<and> WaitListHead q \<noteq> [] then
           let s = upd_object s Queue (\<lambda>q. q\<lparr>EntryListHead := tl (EntryListHead q), SignalState := slong (SignalState q - 1)\<rparr>)
           in KiUnwaitThread Ready_thread s (WbThread (last (WaitListHead q))) (word_of_nat (hd (EntryListHead q))) 0
         else s)"

definition QueueWaiter :: "sched \<Rightarrow> ptr \<Rightarrow> bool" where
  \<comment> \<open>the condition under which an entry goes to a waiting thread\<close>
  "QueueWaiter s Queue \<longleftrightarrow> WaitListHead (Objects s Queue) \<noteq> [] \<and> CurrentCount (Objects s Queue) < MaximumCount (Objects s Queue) \<and>
     (WaitQueue (Threads s (CurrentThread s)) \<noteq> Queue \<or> WaitReason (Threads s (CurrentThread s)) \<noteq> WrQueue)"

definition GiveEntry :: "sched \<Rightarrow> ptr \<Rightarrow> ptr \<Rightarrow> sched" where
  \<comment> \<open>the code leaves the second wait block on the list of the timer of the thread; the timer is
    not in the timer table then, and the next wait with a timeout sets up the list anew\<close>
  "GiveEntry s Queue Entry =
     (let WaitBlock = last (WaitListHead (Objects s Queue));
          Thread = WbThread WaitBlock;
          s = upd_object s Queue (\<lambda>q. q\<lparr>WaitListHead := butlast (WaitListHead q)\<rparr>);
          s = s\<lparr>KeWaitReason := (KeWaitReason s)(WrQueue := KeWaitReason s WrQueue - 1)\<rparr>;
          s = upd_thread s Thread (\<lambda>t. t\<lparr>WaitStatus := word_of_nat Entry\<rparr>);
          s = s\<lparr>KiWaitInListHead := remove1 Thread (KiWaitInListHead s), KiWaitOutListHead := remove1 Thread (KiWaitOutListHead s)\<rparr>;
          s = upd_object s Queue (\<lambda>q. q\<lparr>CurrentCount := u32 (CurrentCount q + 1)\<rparr>);
          s = upd_thread s Thread (\<lambda>t. t\<lparr>WaitReason := 0\<rparr>);
          T = Timer (Threads s Thread);
          s = (if Inserted (Objects s T) then KiRemoveTreeTimer (upd_object s T (\<lambda>t. t\<lparr>WaitListHead := []\<rparr>)) T else s)
      in Ready_thread s Thread)"

definition KiInsertQueue :: "sched \<Rightarrow> ptr \<Rightarrow> ptr \<Rightarrow> sched \<times> int" where
  "KiInsertQueue s Queue Entry =
     (if QueueWaiter s Queue then GiveEntry s Queue Entry
      else upd_object s Queue (\<lambda>q. q\<lparr>SignalState := slong (SignalState q + 1), EntryListHead := EntryListHead q @ [Entry]\<rparr>),
      SignalState (Objects s Queue))"

definition KeInsertQueue :: "sched \<Rightarrow> ptr \<Rightarrow> ptr \<Rightarrow> nat \<Rightarrow> sched \<times> int" where
  "KeInsertQueue s Queue Entry OldIrql = (let (s, Old) = KiInsertQueue s Queue Entry in (Unlock s OldIrql, Old))"

fun ForgetQueue :: "sched \<Rightarrow> ptr list \<Rightarrow> sched" where
  "ForgetQueue s [] = s" |
  "ForgetQueue s (t # ts) = ForgetQueue (upd_thread s t (\<lambda>t. t\<lparr>WaitQueue := NULL\<rparr>)) ts"

definition KeRundownQueue :: "sched \<Rightarrow> ptr \<Rightarrow> nat \<Rightarrow> sched \<times> ptr" where
  \<comment> \<open>the entries stay linked to each other and are returned by the first of them\<close>
  "KeRundownQueue s Queue OldIrql =
     (let E = EntryListHead (Objects s Queue); Ts = ThreadListHead (Objects s Queue);
          s = upd_object (ForgetQueue s Ts) Queue (\<lambda>q. q\<lparr>ThreadListHead := []\<rparr>)
      in (Unlock s OldIrql, if E = [] then NULL else hd E))"

section \<open>Waits\<close>

datatype wait_result = Returns "32 word" | Raises "32 word" | Blocks | Retries | BugChecks
  \<comment> \<open>\<open>Blocks\<close>: the service goes on when the thread runs again, with the wait status of the thread;
    \<open>Retries\<close>: the lock was released so that a kernel APC is delivered, and the pass is repeated\<close>

definition AcquireForWait :: "sched \<Rightarrow> nat \<Rightarrow> sched" where
  "AcquireForWait s OldIrql =
     upd_thread s (CurrentThread s) (\<lambda>t. if WaitNext t then t\<lparr>WaitNext := False\<rparr> else t\<lparr>WaitIrql := OldIrql\<rparr>)"

definition ApcFirst :: "sched \<Rightarrow> bool" where
  \<comment> \<open>a kernel APC is to be delivered before the wait\<close>
  "ApcFirst s \<longleftrightarrow> KernelApcPending (Threads s (CurrentThread s)) \<and> WaitIrql (Threads s (CurrentThread s)) < 1"

definition UnlockWait :: "sched \<Rightarrow> sched" where
  "UnlockWait s = Unlock s (WaitIrql (Threads s (CurrentThread s)))"

definition TestForAlertPending :: "sched \<Rightarrow> bool \<Rightarrow> MODE \<Rightarrow> sched \<times> 32 word option" where
  "TestForAlertPending s Alert Mode =
     (let Thread = CurrentThread s; t = Threads s Thread
      in if Alert then
           if Alerted t Mode then (upd_thread s Thread (\<lambda>t. t\<lparr>Alerted := (Alerted t)(Mode := False)\<rparr>), Some 0x101)
           else if Mode \<noteq> KernelMode \<and> ApcListHead t UserMode \<noteq> [] then (upd_thread s Thread (\<lambda>t. t\<lparr>UserApcPending := True\<rparr>), Some 0xC0)
           else if Alerted t KernelMode then (upd_thread s Thread (\<lambda>t. t\<lparr>Alerted := (Alerted t)(KernelMode := False)\<rparr>), Some 0x101)
           else (s, None)
         else if Mode \<noteq> KernelMode \<and> UserApcPending t then (s, Some 0xC0)
         else (s, None))"

definition KiComputeWaitInterval :: "sched \<Rightarrow> ptr \<Rightarrow> int" where
  "KiComputeWaitInterval s T = s64 (int (InterruptTime s) - int (DueTime (Objects s T)))"

definition WaitTimer :: "sched \<Rightarrow> int option \<Rightarrow> nat \<Rightarrow> sched \<times> KWAIT_BLOCK list option" where
  \<comment> \<open>the timer of a wait: \<open>None\<close> if the time is over, else the wait block of the timer, if there is one.
    The list of the timer is set up anew; the block is put on it with the other blocks\<close>
  "WaitTimer s Timeout now =
     (case Timeout of
        None \<Rightarrow> (s, Some [])
      | Some Interval \<Rightarrow>
          if Interval = 0 then (s, None)
          else let Thread = CurrentThread s; T = Timer (Threads s Thread);
                   (s, ok) = KiInsertTreeTimer (upd_object s T (\<lambda>t. t\<lparr>WaitListHead := []\<rparr>)) T Interval now
               in (s, if ok then Some [\<lparr>WbThread = Thread, WbObject = T, WbWaitKey = 258, WbWaitType = WaitAny\<rparr>] else None))"

fun LinkBlocks :: "sched \<Rightarrow> KWAIT_BLOCK list \<Rightarrow> sched" where
  "LinkBlocks s [] = s" |
  "LinkBlocks s (b # bs) = LinkBlocks (upd_object s (WbObject b) (\<lambda>e. e\<lparr>WaitListHead := WaitListHead e @ [b]\<rparr>)) bs"

definition EnterWait :: "sched \<Rightarrow> nat \<Rightarrow> MODE \<Rightarrow> bool \<Rightarrow> sched" where
  \<comment> \<open>the thread gives up its processor\<close>
  "EnterWait s Reason Mode Alert =
     (let Thread = CurrentThread s;
          s = s\<lparr>KeWaitReason := (KeWaitReason s)(Reason := KeWaitReason s Reason + 1)\<rparr>;
          s = upd_thread s Thread (\<lambda>t. t\<lparr>Alertable := Alert, WaitMode := Mode, WaitReason := Reason, WaitTime := TickCountLow s, State := Waiting\<rparr>);
          s = s\<lparr>KiWaitInListHead := KiWaitInListHead s @ [Thread]\<rparr>
      in SwitchFrom SwapEventTest s Thread)"

definition LeaveQueue :: "sched \<Rightarrow> sched" where
  "LeaveQueue s = (let Queue = WaitQueue (Threads s (CurrentThread s)) in if Queue \<noteq> NULL then KiActivateWaiterQueue s Queue else s)"

definition BlockOn :: "sched \<Rightarrow> KWAIT_BLOCK list \<Rightarrow> nat \<Rightarrow> MODE \<Rightarrow> bool \<Rightarrow> sched" where
  "BlockOn s bs Reason Mode Alert =
     EnterWait (LeaveQueue (LinkBlocks (upd_thread s (CurrentThread s) (\<lambda>t. t\<lparr>WaitBlockList := bs\<rparr>)) bs)) Reason Mode Alert"

definition WaitBlocks :: "sched \<Rightarrow> KWAIT_BLOCK list \<Rightarrow> nat \<Rightarrow> MODE \<Rightarrow> bool \<Rightarrow> int option \<Rightarrow> nat \<Rightarrow> sched \<times> wait_result" where
  \<comment> \<open>the part of a wait that follows the test of the objects\<close>
  "WaitBlocks s bs Reason Mode Alert Timeout now =
     (case TestForAlertPending s Alert Mode of
        (s, Some Status) \<Rightarrow> (UnlockWait s, Returns Status)
      | (s, None) \<Rightarrow>
          (case WaitTimer s Timeout now of
             (s, None) \<Rightarrow> (UnlockWait s, Returns 258)
           | (s, Some tb) \<Rightarrow> (BlockOn s (bs @ tb) Reason Mode Alert, Blocks)))"

abbreviation (input) "MINLONG \<equiv> (- 2147483648 :: int)"

definition SingleWaitPass :: "sched \<Rightarrow> ptr \<Rightarrow> nat \<Rightarrow> MODE \<Rightarrow> bool \<Rightarrow> int option \<Rightarrow> nat \<Rightarrow> sched \<times> wait_result" where
  \<comment> \<open>the body of the loop of \<open>KeWaitForSingleObject\<close>\<close>
  "SingleWaitPass s Object Reason Mode Alert Timeout now =
     (let Thread = CurrentThread s
      in if ApcFirst s then (UnlockWait s, Retries)
         else
           let s = upd_thread s Thread (\<lambda>t. t\<lparr>WaitStatus := 0\<rparr>); x = Objects s Object
           in if HeaderType x = MutantObject \<and> (SignalState x > 0 \<or> Thread = OwnerThread x) then
                if SignalState x \<noteq> MINLONG then
                  let s = KiWaitSatisfyMutant s Object Thread in (UnlockWait s, Returns (WaitStatus (Threads s Thread)))
                else (UnlockWait s, Raises 0xC0000191)
              else if HeaderType x \<noteq> MutantObject \<and> SignalState x > 0 then (UnlockWait (KiWaitSatisfyOther s Object), Returns 0)
              else WaitBlocks s [\<lparr>WbThread = Thread, WbObject = Object, WbWaitKey = 0, WbWaitType = WaitAny\<rparr>] Reason Mode Alert Timeout now)"

definition KeWaitForSingleObject :: "sched \<Rightarrow> ptr \<Rightarrow> nat \<Rightarrow> MODE \<Rightarrow> bool \<Rightarrow> int option \<Rightarrow> nat \<Rightarrow> nat \<Rightarrow> sched \<times> wait_result" where
  \<comment> \<open>up to the first time that the thread gives up its processor or releases the lock\<close>
  "KeWaitForSingleObject s Object Reason Mode Alert Timeout now OldIrql =
     SingleWaitPass (AcquireForWait s OldIrql) Object Reason Mode Alert Timeout now"

fun WaitScanAny :: "sched \<Rightarrow> nat \<Rightarrow> ptr list \<Rightarrow> (sched \<times> wait_result) option" where
  "WaitScanAny s Index [] = None" |
  "WaitScanAny s Index (Object # os) =
     (let Thread = CurrentThread s; x = Objects s Object
      in if HeaderType x = MutantObject \<and> (SignalState x > 0 \<or> Thread = OwnerThread x) then
           if SignalState x \<noteq> MINLONG then
             let s = UnlockWait (KiWaitSatisfyMutant s Object Thread) in Some (s, Returns (word_of_nat Index OR WaitStatus (Threads s Thread)))
           else Some (UnlockWait s, Raises 0xC0000191)
         else if HeaderType x \<noteq> MutantObject \<and> SignalState x > 0 then Some (UnlockWait (KiWaitSatisfyOther s Object), Returns (word_of_nat Index))
         else WaitScanAny s (Index + 1) os)"

fun WaitScanAll :: "sched \<Rightarrow> bool \<Rightarrow> ptr list \<Rightarrow> bool option" where
  \<comment> \<open>whether the wait is satisfied; \<open>None\<close> if a mutant cannot be acquired once more\<close>
  "WaitScanAll s WaitSatisfied [] = Some WaitSatisfied" |
  "WaitScanAll s WaitSatisfied (Object # os) =
     (let Thread = CurrentThread s; x = Objects s Object
      in if HeaderType x = MutantObject then
           if Thread = OwnerThread x \<and> SignalState x = MINLONG then None
           else WaitScanAll s (WaitSatisfied \<and> \<not> (SignalState x \<le> 0 \<and> Thread \<noteq> OwnerThread x)) os
         else WaitScanAll s (WaitSatisfied \<and> \<not> SignalState x \<le> 0) os)"

fun MultipleBlocks :: "ptr \<Rightarrow> WAIT_TYPE \<Rightarrow> nat \<Rightarrow> ptr list \<Rightarrow> KWAIT_BLOCK list" where
  "MultipleBlocks Thread Type Index [] = []" |
  "MultipleBlocks Thread Type Index (Object # os) =
     \<lparr>WbThread = Thread, WbObject = Object, WbWaitKey = word_of_nat Index, WbWaitType = Type\<rparr> # MultipleBlocks Thread Type (Index + 1) os"

definition MultipleWaitPass :: "sched \<Rightarrow> ptr list \<Rightarrow> WAIT_TYPE \<Rightarrow> nat \<Rightarrow> MODE \<Rightarrow> bool \<Rightarrow> int option \<Rightarrow> nat \<Rightarrow> sched \<times> wait_result" where
  \<comment> \<open>the body of the loop of \<open>KeWaitForMultipleObjects\<close>\<close>
  "MultipleWaitPass s Object Type Reason Mode Alert Timeout now =
     (let Thread = CurrentThread s; bs = MultipleBlocks Thread Type 0 Object
      in if ApcFirst s then (UnlockWait s, Retries)
         else
           let s = upd_thread s Thread (\<lambda>t. t\<lparr>WaitStatus := 0\<rparr>)
           in case Type of
                WaitAny \<Rightarrow>
                  (case WaitScanAny s 0 Object of Some r \<Rightarrow> r | None \<Rightarrow> WaitBlocks s bs Reason Mode Alert Timeout now)
              | WaitAll \<Rightarrow>
                  (case WaitScanAll s True Object of
                     None \<Rightarrow> (UnlockWait s, Raises 0xC0000191)
                   | Some True \<Rightarrow> let s = KiWaitSatisfy s (last bs) bs in (UnlockWait s, Returns (WaitStatus (Threads s Thread)))
                   | Some False \<Rightarrow> WaitBlocks s bs Reason Mode Alert Timeout now))"

definition KeWaitForMultipleObjects ::
  "sched \<Rightarrow> ptr list \<Rightarrow> WAIT_TYPE \<Rightarrow> nat \<Rightarrow> MODE \<Rightarrow> bool \<Rightarrow> int option \<Rightarrow> nat \<Rightarrow> bool \<Rightarrow> nat \<Rightarrow> sched \<times> wait_result" where
  \<comment> \<open>\<open>array\<close>: the caller supplies the wait blocks\<close>
  "KeWaitForMultipleObjects s Object Type Reason Mode Alert Timeout now array OldIrql =
     (let s = AcquireForWait s OldIrql
      in if length Object > (if array then 64 else 3) then (s, BugChecks)
         else MultipleWaitPass s Object Type Reason Mode Alert Timeout now)"

abbreviation (input) "DelayExecution \<equiv> (4 :: nat)"

definition DelayYield :: "sched \<Rightarrow> sched \<times> wait_result" where
  \<comment> \<open>the time is over already: the thread gives up the rest of its quantum\<close>
  "DelayYield s =
     (let Thread = CurrentThread s; P = Priority (Threads s Thread); Base = BasePriority (Threads s Thread);
          s = (if P < 16 \<and> P \<noteq> Base then
                 KiSetPriorityThread SwapEventTest (upd_thread s Thread (\<lambda>t. t\<lparr>PriorityDecrement := 0\<rparr>)) Thread Base
               else s);
          s = (if NextThread s = NULL then let (s, t) = KiFindReadyThread s P P in s\<lparr>NextThread := t\<rparr> else s);
          Next = NextThread s
      in if Next \<noteq> NULL then
           let s = upd_thread (s\<lparr>NextThread := NULL\<rparr>) Thread (\<lambda>t. t\<lparr>Preempted := False\<rparr>)
           in (KiSwapContext SwapEventTest s Next True, Blocks)
         else (UnlockWait s, Returns 258))"

definition DelayPass :: "sched \<Rightarrow> MODE \<Rightarrow> bool \<Rightarrow> int \<Rightarrow> nat \<Rightarrow> sched \<times> wait_result" where
  \<comment> \<open>the body of the loop of \<open>KeDelayExecutionThread\<close>\<close>
  "DelayPass s Mode Alert Interval now =
     (let Thread = CurrentThread s
      in if ApcFirst s then (UnlockWait s, Retries)
         else
           (case TestForAlertPending s Alert Mode of
              (s, Some Status) \<Rightarrow> (UnlockWait s, Returns Status)
            | (s, None) \<Rightarrow>
                let T = Timer (Threads s Thread);
                    s = upd_thread s Thread (\<lambda>t. t\<lparr>WaitStatus := 0\<rparr>);
                    (s, ok) = KiInsertTreeTimer (upd_object s T (\<lambda>t. t\<lparr>WaitListHead := []\<rparr>)) T Interval now
                in if ok then (BlockOn s [\<lparr>WbThread = Thread, WbObject = T, WbWaitKey = 0, WbWaitType = WaitAny\<rparr>] DelayExecution Mode Alert, Blocks)
                   else DelayYield s))"

definition KeDelayExecutionThread :: "sched \<Rightarrow> MODE \<Rightarrow> bool \<Rightarrow> int \<Rightarrow> nat \<Rightarrow> nat \<Rightarrow> sched \<times> wait_result" where
  "KeDelayExecutionThread s Mode Alert Interval now OldIrql = DelayPass (AcquireForWait s OldIrql) Mode Alert Interval now"

definition JoinQueue :: "sched \<Rightarrow> ptr \<Rightarrow> sched" where
  \<comment> \<open>the start of \<open>KeRemoveQueue\<close>: the thread is associated with the queue\<close>
  "JoinQueue s Queue =
     (let Thread = CurrentThread s; OldQueue = WaitQueue (Threads s Thread);
          s = upd_thread s Thread (\<lambda>t. t\<lparr>WaitQueue := Queue\<rparr>)
      in if Queue \<noteq> OldQueue then
           let s = (if OldQueue \<noteq> NULL then
                      KiActivateWaiterQueue (upd_object s OldQueue (\<lambda>q. q\<lparr>ThreadListHead := remove1 Thread (ThreadListHead q)\<rparr>)) OldQueue
                    else s)
           in upd_object s Queue (\<lambda>q. q\<lparr>ThreadListHead := ThreadListHead q @ [Thread]\<rparr>)
         else upd_object s Queue (\<lambda>q. q\<lparr>CurrentCount := u32_sub (CurrentCount q) 1\<rparr>))"

definition RemoveQueuePass :: "sched \<Rightarrow> ptr \<Rightarrow> MODE \<Rightarrow> int option \<Rightarrow> nat \<Rightarrow> sched \<times> wait_result" where
  \<comment> \<open>the body of the loop of \<open>KeRemoveQueue\<close>; an entry is returned by its address\<close>
  "RemoveQueuePass s Queue Mode Timeout now =
     (let Thread = CurrentThread s; q = Objects s Queue;
          count = (\<lambda>s. upd_object s Queue (\<lambda>q. q\<lparr>CurrentCount := u32 (CurrentCount q + 1)\<rparr>))
      in if EntryListHead q \<noteq> [] \<and> CurrentCount q < MaximumCount q then
           (UnlockWait (upd_object (count s) Queue (\<lambda>q. q\<lparr>SignalState := slong (SignalState q - 1), EntryListHead := tl (EntryListHead q)\<rparr>)),
            Returns (word_of_nat (hd (EntryListHead q))))
         else if ApcFirst s then (UnlockWait (count s), Retries)
         else if Mode \<noteq> KernelMode \<and> UserApcPending (Threads s Thread) then (UnlockWait (count s), Returns 0xC0)
         else
           (case WaitTimer (upd_thread s Thread (\<lambda>t. t\<lparr>WaitStatus := 0\<rparr>)) Timeout now of
              (s, None) \<Rightarrow> (UnlockWait (count s), Returns 258)
            | (s, Some tb) \<Rightarrow>
                let bs = \<lparr>WbThread = Thread, WbObject = Queue, WbWaitKey = 0, WbWaitType = WaitAny\<rparr> # tb;
                    s = upd_thread s Thread (\<lambda>t. t\<lparr>WaitBlockList := bs\<rparr>)
                in (EnterWait (LinkBlocks s bs) WrQueue Mode False, Blocks)))"

definition KeRemoveQueue :: "sched \<Rightarrow> ptr \<Rightarrow> MODE \<Rightarrow> int option \<Rightarrow> nat \<Rightarrow> nat \<Rightarrow> sched \<times> wait_result" where
  "KeRemoveQueue s Queue Mode Timeout now OldIrql = RemoveQueuePass (JoinQueue (AcquireForWait s OldIrql) Queue) Queue Mode Timeout now"

end
