(* ===== verification/Thread_Services.thy ===== *)
theory Thread_Services
  imports Wait_Services
begin

text \<open>
  The operations on thread objects (\<open>KE/THREDOBJ.C\<close>) and APC objects (\<open>KE/APCOBJ.C\<close>,
  \<open>KE/APCSUP.C\<close>).  The dispatcher header of a thread is the object at the address of the thread.
\<close>

section \<open>Priorities\<close>

definition KeReadyThread :: "sched \<Rightarrow> ptr \<Rightarrow> nat \<Rightarrow> sched" where
  "KeReadyThread s Thread OldIrql = Unlock (Ready_thread s Thread) OldIrql"

definition KeReadStateThread :: "sched \<Rightarrow> ptr \<Rightarrow> bool" where
  "KeReadStateThread s Thread = (SignalState (Objects s Thread) \<noteq> 0)"

definition KeSetPriorityThread :: "sched \<Rightarrow> ptr \<Rightarrow> nat \<Rightarrow> nat \<Rightarrow> sched \<times> nat" where
  "KeSetPriorityThread s Thread NewPriority OldIrql =
     (let Old = Priority (Threads s Thread);
          s = upd_thread s Thread (\<lambda>t. t\<lparr>Quantum := ThreadQuantum (Processes s (Process t)), DecrementCount := 0, PriorityDecrement := 0\<rparr>)
      in (Unlock (KiSetPriorityThread SwapEventTest s Thread NewPriority) OldIrql, Old))"

definition KiBoostPriorityThread :: "sched \<Rightarrow> ptr \<Rightarrow> int \<Rightarrow> sched" where
  "KiBoostPriorityThread s Thread Increment =
     (let t = Threads s Thread; New = int (BasePriority t) + Increment
      in if Priority t < 16 \<and> PriorityDecrement t = 0 \<and> New > int (Priority t) then
           KiSetPriorityThread SwapEventTest (upd_thread s Thread (\<lambda>t. t\<lparr>Quantum := ThreadQuantum (Processes s (Process t))\<rparr>))
             Thread (if New \<ge> 16 then 15 else nat New)
         else s)"

definition KeBoostPriorityThread :: "sched \<Rightarrow> ptr \<Rightarrow> int \<Rightarrow> nat \<Rightarrow> sched" where
  "KeBoostPriorityThread s Thread Increment OldIrql =
     Unlock (if Priority (Threads s Thread) < 16 then KiBoostPriorityThread s Thread Increment else s) OldIrql"

section \<open>Alerts\<close>

definition mode_le :: "MODE \<Rightarrow> MODE \<Rightarrow> bool" where
  "mode_le a b \<longleftrightarrow> a = KernelMode \<or> b = UserMode"

definition AlertThread :: "sched \<Rightarrow> ptr \<Rightarrow> MODE \<Rightarrow> sched" where
  \<comment> \<open>a thread that is not alerted in the mode\<close>
  "AlertThread s Thread AlertMode =
     (let t = Threads s Thread
      in if State t = Waiting \<and> Alertable t \<and> mode_le AlertMode (WaitMode t) then KiUnwaitThread Ready_thread s Thread 0x101 2
         else upd_thread s Thread (\<lambda>t. t\<lparr>Alerted := (Alerted t)(AlertMode := True)\<rparr>))"

definition KeAlertThread :: "sched \<Rightarrow> ptr \<Rightarrow> MODE \<Rightarrow> nat \<Rightarrow> sched \<times> bool" where
  "KeAlertThread s Thread AlertMode OldIrql =
     (let Old = Alerted (Threads s Thread) AlertMode
      in (Unlock (if Old then s else AlertThread s Thread AlertMode) OldIrql, Old))"

definition KeTestAlertThread :: "sched \<Rightarrow> MODE \<Rightarrow> sched \<times> bool" where
  "KeTestAlertThread s AlertMode =
     (let Thread = CurrentThread s; t = Threads s Thread
      in (if Alerted t AlertMode then upd_thread s Thread (\<lambda>t. t\<lparr>Alerted := (Alerted t)(AlertMode := False)\<rparr>)
          else if AlertMode = UserMode \<and> ApcListHead t UserMode \<noteq> [] then upd_thread s Thread (\<lambda>t. t\<lparr>UserApcPending := True\<rparr>)
          else s, Alerted t AlertMode))"

section \<open>APC objects\<close>

definition upd_apc :: "sched \<Rightarrow> ptr \<Rightarrow> (KAPC \<Rightarrow> KAPC) \<Rightarrow> sched" where
  "upd_apc s p f = s\<lparr>Apcs := (Apcs s)(p := f (Apcs s p))\<rparr>"

definition KeInitializeApc :: "sched \<Rightarrow> ptr \<Rightarrow> ptr \<Rightarrow> nat option \<Rightarrow> ptr \<Rightarrow> ptr \<Rightarrow> MODE \<Rightarrow> sched" where
  \<comment> \<open>\<open>Environment\<close> is \<open>None\<close> for \<open>CurrentApcEnvironment\<close>\<close>
  "KeInitializeApc s Apc Thread Environment Kernel Normal Mode =
     upd_apc s Apc (\<lambda>a. \<lparr>ApcThread = Thread, ApcModeOf = (if Normal \<noteq> NULL then Mode else KernelMode), KernelRoutine = Kernel,
       NormalRoutine = Normal, ApcInserted = False,
       ApcIndex = (case Environment of None \<Rightarrow> ApcStateIndex (Threads s Thread) | Some i \<Rightarrow> i)\<rparr>)"

definition upd_apc_list :: "sched \<Rightarrow> ptr \<Rightarrow> bool \<Rightarrow> MODE \<Rightarrow> (ptr list \<Rightarrow> ptr list) \<Rightarrow> sched" where
  \<comment> \<open>\<open>ApcStatePointer\<close>: the APC state of the index of the thread is in \<open>ApcState\<close>, the other one in \<open>SavedApcState\<close>\<close>
  "upd_apc_list s Thread current Mode f =
     upd_thread s Thread (\<lambda>t. if current then t\<lparr>ApcListHead := (ApcListHead t)(Mode := f (ApcListHead t Mode))\<rparr>
       else t\<lparr>SavedApcListHead := (SavedApcListHead t)(Mode := f (SavedApcListHead t Mode))\<rparr>)"

definition LinkApc :: "ptr \<Rightarrow> sched \<Rightarrow> ptr \<Rightarrow> sched" where
  \<comment> \<open>the position of an APC object in the list: the exit APC first, the special APCs before the others\<close>
  "LinkApc PsExitSpecialApc s Apc =
     (let a = Apcs s Apc; Thread = ApcThread a; current = (ApcIndex a = ApcStateIndex (Threads s Thread))
      in if NormalRoutine a \<noteq> NULL then
           if ApcModeOf a \<noteq> KernelMode \<and> KernelRoutine a = PsExitSpecialApc then
             upd_apc_list (upd_thread s Thread (\<lambda>t. t\<lparr>UserApcPending := True\<rparr>)) Thread current (ApcModeOf a) (\<lambda>l. Apc # l)
           else upd_apc_list s Thread current (ApcModeOf a) (\<lambda>l. l @ [Apc])
         else upd_apc_list s Thread current (ApcModeOf a)
           (\<lambda>l. takeWhile (\<lambda>x. NormalRoutine (Apcs s x) = NULL) l @ Apc # dropWhile (\<lambda>x. NormalRoutine (Apcs s x) = NULL) l))"

definition KiInsertQueueApc :: "ptr \<Rightarrow> sched \<Rightarrow> ptr \<Rightarrow> int \<Rightarrow> sched \<times> bool" where
  "KiInsertQueueApc PsExitSpecialApc s Apc Increment =
     (if ApcInserted (Apcs s Apc) then (s, False)
      else
        let a = Apcs s Apc; Thread = ApcThread a;
            s = upd_apc (LinkApc PsExitSpecialApc s Apc) Apc (\<lambda>a. a\<lparr>ApcInserted := True\<rparr>);
            t = Threads s Thread
        in (if ApcIndex a = ApcStateIndex t then
              if ApcModeOf a = KernelMode then
                let s = upd_thread s Thread (\<lambda>t. t\<lparr>KernelApcPending := True\<rparr>)
                in if State t = Running then s\<lparr>ApcInterrupt := True\<rparr>
                   else if State t = Waiting \<and> WaitIrql t = 0 \<and> (NormalRoutine a = NULL \<or> KernelApcDisable t = 0 \<and> \<not> KernelApcInProgress t)
                   then KiUnwaitThread Ready_thread s Thread 0x100 Increment
                   else s
              else if State t = Waiting \<and> WaitMode t = UserMode \<and> Alertable t then
                KiUnwaitThread Ready_thread (upd_thread s Thread (\<lambda>t. t\<lparr>UserApcPending := True\<rparr>)) Thread 0xC0 Increment
              else s
            else s, True))"

definition KeInsertQueueApc :: "ptr \<Rightarrow> sched \<Rightarrow> ptr \<Rightarrow> int \<Rightarrow> nat \<Rightarrow> sched \<times> bool" where
  "KeInsertQueueApc PsExitSpecialApc s Apc Increment OldIrql =
     (let (s, b) = (if ApcQueueable (Threads s (ApcThread (Apcs s Apc))) then KiInsertQueueApc PsExitSpecialApc s Apc Increment else (s, False))
      in (Unlock s OldIrql, b))"

definition KeRemoveQueueApc :: "sched \<Rightarrow> ptr \<Rightarrow> nat \<Rightarrow> sched \<times> bool" where
  "KeRemoveQueueApc s Apc OldIrql =
     (let a = Apcs s Apc; Thread = ApcThread a; current = (ApcIndex a = ApcStateIndex (Threads s Thread));
          s' = upd_apc_list (upd_apc s Apc (\<lambda>a. a\<lparr>ApcInserted := False\<rparr>)) Thread current (ApcModeOf a) (remove1 Apc);
          t = Threads s' Thread
      in (Unlock (if ApcInserted a then
                    if (if current then ApcListHead t else SavedApcListHead t) (ApcModeOf a) = [] then
                      upd_thread s' Thread (\<lambda>t.
                        if \<not> current then t\<lparr>SavedApcPending := (SavedApcPending t)(ApcModeOf a := False)\<rparr>
                        else if ApcModeOf a = KernelMode then t\<lparr>KernelApcPending := False\<rparr>
                        else t\<lparr>UserApcPending := False\<rparr>)
                    else s'
                  else s) OldIrql, ApcInserted a))"

fun ApcsFlushed :: "sched \<Rightarrow> ptr list \<Rightarrow> sched" where
  "ApcsFlushed s [] = s" |
  "ApcsFlushed s (a # as) = ApcsFlushed (upd_apc s a (\<lambda>a. a\<lparr>ApcInserted := False\<rparr>)) as"

definition KeFlushQueueApc :: "sched \<Rightarrow> ptr \<Rightarrow> MODE \<Rightarrow> nat \<Rightarrow> sched \<times> ptr" where
  \<comment> \<open>the list head is taken out of the list, and its own links are not changed\<close>
  "KeFlushQueueApc s Thread ApcMode OldIrql =
     (let l = ApcListHead (Threads s Thread) ApcMode
      in (Unlock (ApcsFlushed s l) OldIrql, if l = [] then NULL else hd l))"

definition KeDisableApcQueuingThread :: "sched \<Rightarrow> ptr \<Rightarrow> nat \<Rightarrow> sched \<times> bool" where
  "KeDisableApcQueuingThread s Thread OldIrql =
     (Unlock (upd_thread s Thread (\<lambda>t. t\<lparr>ApcQueueable := False\<rparr>)) OldIrql, ApcQueueable (Threads s Thread))"

definition KeEnableApcQueuingThread :: "sched \<Rightarrow> ptr \<Rightarrow> nat \<Rightarrow> sched \<times> bool" where
  "KeEnableApcQueuingThread s Thread OldIrql =
     (Unlock (upd_thread s Thread (\<lambda>t. t\<lparr>ApcQueueable := True\<rparr>)) OldIrql, ApcQueueable (Threads s Thread))"

definition KeLeaveCriticalRegion :: "sched \<Rightarrow> nat \<Rightarrow> sched" where
  "KeLeaveCriticalRegion s OldIrql =
     (let Thread = CurrentThread s; s = upd_thread s Thread (\<lambda>t. t\<lparr>KernelApcDisable := KernelApcDisable t + 1\<rparr>)
      in if KernelApcDisable (Threads s Thread) = 0 \<and> ApcListHead (Threads s Thread) KernelMode \<noteq> []
         then Unlock ((upd_thread s Thread (\<lambda>t. t\<lparr>KernelApcPending := True\<rparr>))\<lparr>ApcInterrupt := True\<rparr>) OldIrql
         else s)"

section \<open>Suspending and resuming\<close>

abbreviation (input) "MAXIMUM_SUSPEND_COUNT \<equiv> (127 :: nat)"

definition KeSuspendThread :: "ptr \<Rightarrow> sched \<Rightarrow> ptr \<Rightarrow> nat \<Rightarrow> sched \<times> (32 word + nat)" where
  \<comment> \<open>\<open>Inl\<close> is the status that is raised\<close>
  "KeSuspendThread PsExitSpecialApc s Thread OldIrql =
     (let Old = SuspendCount (Threads s Thread)
      in if Old = MAXIMUM_SUSPEND_COUNT then (Unlock s OldIrql, Inl 0xC000004A)
         else
           let s = upd_thread s Thread (\<lambda>t. t\<lparr>SuspendCount := SuspendCount t + 1\<rparr>);
               s = (if Old = 0 \<and> FreezeCount (Threads s Thread) = 0 then
                      let (s, inserted) = KiInsertQueueApc PsExitSpecialApc s (SuspendApc (Threads s Thread)) 0
                      in if inserted then s
                         else upd_object s (SuspendSemaphore (Threads s Thread)) (\<lambda>e. e\<lparr>SignalState := slong (SignalState e - 1)\<rparr>)
                    else s)
           in (Unlock s OldIrql, Inr Old))"

definition SignalSuspend :: "sched \<Rightarrow> ptr \<Rightarrow> sched option" where
  \<comment> \<open>the suspended thread goes on\<close>
  "SignalSuspend s Thread =
     (let S = SuspendSemaphore (Threads s Thread)
      in KiWaitTest Ready_thread (upd_object s S (\<lambda>e. e\<lparr>SignalState := slong (SignalState e + 1)\<rparr>)) S 0)"

definition ResumeThread :: "sched \<Rightarrow> ptr \<Rightarrow> sched option" where
  "ResumeThread s Thread =
     (if SuspendCount (Threads s Thread) \<noteq> 0 then
        let s = upd_thread s Thread (\<lambda>t. t\<lparr>SuspendCount := SuspendCount t - 1\<rparr>)
        in if SuspendCount (Threads s Thread) = 0 \<and> FreezeCount (Threads s Thread) = 0 then SignalSuspend s Thread else Some s
      else Some s)"

definition KeResumeThread :: "sched \<Rightarrow> ptr \<Rightarrow> nat \<Rightarrow> (sched \<times> nat) option" where
  "KeResumeThread s Thread OldIrql =
     (case ResumeThread s Thread of None \<Rightarrow> None | Some s' \<Rightarrow> Some (Unlock s' OldIrql, SuspendCount (Threads s Thread)))"

definition KeAlertResumeThread :: "sched \<Rightarrow> ptr \<Rightarrow> nat \<Rightarrow> (sched \<times> nat) option" where
  \<comment> \<open>the mode of the wait does not matter here\<close>
  "KeAlertResumeThread s Thread OldIrql =
     (let s = (if Alerted (Threads s Thread) KernelMode then s else AlertThread s Thread KernelMode)
      in case ResumeThread s Thread of None \<Rightarrow> None | Some s' \<Rightarrow> Some (Unlock s' OldIrql, SuspendCount (Threads s Thread)))"

definition KeForceResumeThread :: "sched \<Rightarrow> ptr \<Rightarrow> nat \<Rightarrow> (sched \<times> nat) option" where
  "KeForceResumeThread s Thread OldIrql =
     (let Old = SuspendCount (Threads s Thread) + FreezeCount (Threads s Thread)
      in case (if Old \<noteq> 0 then SignalSuspend (upd_thread s Thread (\<lambda>t. t\<lparr>FreezeCount := 0, SuspendCount := 0\<rparr>)) Thread else Some s) of
           None \<Rightarrow> None
         | Some s \<Rightarrow> Some (Unlock s OldIrql, Old))"

section \<open>The end of a thread\<close>

partial_function (option) AbandonMutants :: "sched \<Rightarrow> ptr \<Rightarrow> (ptr + sched) option" where
  \<comment> \<open>\<open>Inl\<close> is the mutex that stops the system\<close>
  "AbandonMutants s Thread =
     (case MutantListHead (Threads s Thread) of
        [] \<Rightarrow> Some (Inr s)
      | Mutant # ms \<Rightarrow>
          if ApcDisable (Objects s Mutant) \<noteq> 0 then Some (Inl Mutant)
          else
            let s = upd_thread s Thread (\<lambda>t. t\<lparr>MutantListHead := ms\<rparr>);
                s = upd_object s Mutant (\<lambda>m. m\<lparr>SignalState := 1, Abandoned := True, OwnerThread := NULL\<rparr>)
            in (case (if WaitListHead (Objects s Mutant) \<noteq> [] then KiWaitTest Ready_thread s Mutant 1 else Some s) of
                  None \<Rightarrow> None
                | Some s \<Rightarrow> AbandonMutants s Thread))"

definition KeRundownThread :: "sched \<Rightarrow> nat \<Rightarrow> (ptr + sched) option" where
  \<comment> \<open>\<open>KiRundownThread\<close> releases the coprocessor only\<close>
  "KeRundownThread s OldIrql =
     (case AbandonMutants s (CurrentThread s) of
        None \<Rightarrow> None
      | Some (Inl m) \<Rightarrow> Some (Inl m)
      | Some (Inr s) \<Rightarrow> Some (Inr (Unlock s OldIrql)))"

definition ReapThread :: "sched \<Rightarrow> ptr \<Rightarrow> ptr \<Rightarrow> sched" where
  \<comment> \<open>the thread is put on the list of the reaper, which is woken through the hyper critical work queue\<close>
  "ReapThread s WorkQueue WorkItem =
     (let s = s\<lparr>PsReaperListHead := PsReaperListHead s @ [CurrentThread s]\<rparr>
      in if PsReaperActive s then s else fst (KiInsertQueue (s\<lparr>PsReaperActive := True\<rparr>) WorkQueue WorkItem))"

definition OutSwapIfLast :: "sched \<Rightarrow> ptr \<Rightarrow> sched" where
  \<comment> \<open>a process whose last resident stack goes away is swapped out\<close>
  "OutSwapIfLast s Proc =
     (let s = upd_process s Proc (\<lambda>p. p\<lparr>StackCount := (StackCount p + 65535) mod 65536\<rparr>)
      in if StackCount (Processes s Proc) = 0 \<and> ProcessThreads (Processes s Proc) \<noteq> [] then
           SignalSwapEvent SwapEventTest ((upd_process s Proc (\<lambda>p. p\<lparr>ProcessState := ProcessInTransition\<rparr>))
             \<lparr>KiProcessOutSwapListHead := KiProcessOutSwapListHead s @ [Proc]\<rparr>)
         else s)"

definition KeTerminateThread :: "sched \<Rightarrow> int \<Rightarrow> ptr \<Rightarrow> ptr \<Rightarrow> sched option" where
  \<comment> \<open>\<open>WorkQueue\<close> and \<open>WorkItem\<close> are the addresses of the hyper critical work queue and of the work item of the reaper\<close>
  "KeTerminateThread s Increment WorkQueue WorkItem =
     (let Thread = CurrentThread s; Proc = Process (Threads s Thread);
          s = ReapThread s WorkQueue WorkItem;
          Queue = WaitQueue (Threads s Thread);
          s = (if Queue \<noteq> NULL then
                 KiActivateWaiterQueue (upd_object s Queue (\<lambda>q. q\<lparr>ThreadListHead := remove1 Thread (ThreadListHead q)\<rparr>)) Queue
               else s);
          s = upd_object s Thread (\<lambda>e. e\<lparr>SignalState := 1\<rparr>)
      in case (if WaitListHead (Objects s Thread) \<noteq> [] then KiWaitTest Ready_thread s Thread Increment else Some s) of
           None \<Rightarrow> None
         | Some s \<Rightarrow>
             let s = upd_process s Proc (\<lambda>p. p\<lparr>ProcessThreads := remove1 Thread (ProcessThreads p)\<rparr>);
                 s = upd_thread s Thread (\<lambda>t. t\<lparr>State := Terminated\<rparr>)
             in Some (SwitchFrom SwapEventTest (OutSwapIfLast s Proc) Thread))"

end
