(* ===== verification/Sched_Inv.thy ===== *)
theory Sched_Inv
  imports Sched_Model
begin

text \<open>
  The invariant of the scheduler: the summary word agrees with the ready queues, no ready thread
  has a higher priority than the thread that runs or runs next, every ready thread is in the list
  it belongs to, and the wait lists hold the wait blocks of the waiting threads.  The search for a
  ready thread, and the general rules by which a thread leaves the transit between two lists.
\<close>

section \<open>Sets of priorities as words\<close>

lemma bit_members:
  "bit (SetMember p w) n \<longleftrightarrow> bit w n \<or> n = p \<and> p < 32"
  "bit (ClearMember p w) n \<longleftrightarrow> bit w n \<and> n \<noteq> p"
  by (auto simp: SetMember_def ClearMember_def bit_simps dest: bit_imp_le_length)

lemma top_bit:
  fixes w :: "32 word"
  assumes "\<And>i. bit w i \<Longrightarrow> i \<le> n"
  shows "drop_bit n w \<noteq> 0 \<longleftrightarrow> bit w n"
proof -
  have "bit (drop_bit n w) i \<longleftrightarrow> i = 0 \<and> bit w n" for i
    using assms [of "n + i"] by (cases i) (auto simp: bit_drop_bit_eq)
  then show ?thesis using bit_eq_iff [of "drop_bit n w" 0] by auto
qed

lemma minus_bit:
  fixes w :: "32 word"
  assumes "bit w n"
  shows "w - push_bit n 1 = ClearMember n w"
proof -
  have "ClearMember n w + push_bit n 1 = ClearMember n w OR push_bit n 1"
    by (rule disjunctive_add) (auto simp: bit_members bit_simps)
  also have "\<dots> = w"
    using assms bit_imp_le_length [OF assms] by (intro bit_eqI) (auto simp: bit_members bit_simps)
  finally show ?thesis by (metis add_diff_cancel_right')
qed

lemma mask_bits:
  assumes "h < 32"
  shows "bit ((push_bit h (1 :: 32 word) - 1) OR push_bit h 1) i \<longleftrightarrow> i \<le> h"
    and "bit (NOT (push_bit h (1 :: 32 word) - 1)) i \<longleftrightarrow> h \<le> i \<and> i < 32"
proof -
  have m: "push_bit h (1 :: 32 word) - 1 = mask h" by (simp add: mask_eq_exp_minus_1 push_bit_eq_mult)
  show "bit ((push_bit h (1 :: 32 word) - 1) OR push_bit h 1) i \<longleftrightarrow> i \<le> h"
    "bit (NOT (push_bit h (1 :: 32 word) - 1)) i \<longleftrightarrow> h \<le> i \<and> i < 32"
    using assms unfolding m by (auto simp: bit_simps dest: bit_imp_le_length)
qed

section \<open>The invariant\<close>

definition queues_ok :: "sched \<Rightarrow> bool" where
  \<comment> \<open>the summary has the bits of the non-empty lists; a list holds ready threads of its priority\<close>
  "queues_ok s \<longleftrightarrow>
     (\<forall>p. bit (KiReadySummary s) p \<longleftrightarrow> KiDispatcherReadyListHead s p \<noteq> []) \<and>
     (\<forall>p. distinct (KiDispatcherReadyListHead s p)) \<and>
     (\<forall>p t. t \<in> set (KiDispatcherReadyListHead s p) \<longrightarrow>
        t \<noteq> NULL \<and> State (Threads s t) = Ready \<and> Priority (Threads s t) = p \<and> \<not> ProcessReadyQueue (Threads s t))"

definition procs_ok :: "sched \<Rightarrow> bool" where
  \<comment> \<open>the ready list of a process holds the ready threads that wait for the process to be in memory\<close>
  "procs_ok s \<longleftrightarrow>
     (\<forall>P. distinct (ReadyListHead (Processes s P))) \<and>
     (\<forall>P t. t \<in> set (ReadyListHead (Processes s P)) \<longrightarrow> t \<noteq> NULL \<and> ProcessReadyQueue (Threads s t) \<and> Process (Threads s t) = P) \<and>
     (\<forall>t. ProcessReadyQueue (Threads s t) \<longrightarrow> State (Threads s t) = Ready)"

definition waits_ok :: "ptr set \<Rightarrow> sched \<Rightarrow> bool" where
  \<comment> \<open>the wait lists hold exactly the wait blocks of the waiting threads\<close>
  "waits_ok X s \<longleftrightarrow>
     (\<forall>p. distinct (WaitListHead (Objects s p))) \<and>
     (\<forall>p b. b \<in> set (WaitListHead (Objects s p)) \<longrightarrow> WbObject b = p \<and> WbThread b \<noteq> NULL \<and>
        State (Threads s (WbThread b)) = Waiting \<and> b \<in> set (WaitBlockList (Threads s (WbThread b)))) \<and>
     (\<forall>t b. State (Threads s t) = Waiting \<longrightarrow> b \<in> set (WaitBlockList (Threads s t)) \<longrightarrow>
        WbThread b = t \<and> (t \<notin> X \<longrightarrow> b \<in> set (WaitListHead (Objects s (WbObject b)))))"

definition queued :: "sched \<Rightarrow> ptr \<Rightarrow> bool" where
  "queued s t \<longleftrightarrow> (\<exists>p. t \<in> set (KiDispatcherReadyListHead s p))"

definition listed :: "sched \<Rightarrow> ptr \<Rightarrow> bool" where
  "listed s t \<longleftrightarrow> (if ProcessReadyQueue (Threads s t) then t \<in> set (ReadyListHead (Processes s (Process (Threads s t)))) else queued s t)"

definition unlinked :: "sched \<Rightarrow> ptr \<Rightarrow> bool" where
  "unlinked s t \<longleftrightarrow> (\<forall>p b. b \<in> set (WaitListHead (Objects s p)) \<longrightarrow> WbThread b \<noteq> t)"

definition awake :: "sched \<Rightarrow> bool" where
  "awake s \<longleftrightarrow> State (Threads s (CurrentThread s)) \<noteq> Waiting"

definition top_priority :: "sched \<Rightarrow> nat" where
  \<comment> \<open>of the thread that runs next, or else of the running thread\<close>
  "top_priority s = Priority (Threads s (if NextThread s \<noteq> NULL then NextThread s else CurrentThread s))"

definition prio_ok :: "KTHREAD \<Rightarrow> bool" where
  "prio_ok t \<longleftrightarrow> Priority t < 32 \<and> BasePriority t < 32 \<and> 0 \<le> PriorityDecrement t \<and> PriorityDecrement t \<le> 127"

definition sched_ok :: "ptr set \<Rightarrow> sched \<Rightarrow> bool" where
  \<comment> \<open>the threads \<open>X\<close> are in transit\<close>
  "sched_ok X s \<longleftrightarrow> queues_ok s \<and> procs_ok s \<and> waits_ok X s \<and>
     (\<forall>p. KiDispatcherReadyListHead s p \<noteq> [] \<longrightarrow> p \<le> top_priority s) \<and>
     (KiIdleSummary s \<noteq> 0 \<longrightarrow> NextThread s = NULL \<and> (\<forall>p. KiDispatcherReadyListHead s p = [])) \<and>
     (NextThread s \<noteq> NULL \<longrightarrow> State (Threads s (NextThread s)) = Standby) \<and>
     (\<forall>t. t \<notin> insert NULL X \<longrightarrow> State (Threads s t) = Standby \<longrightarrow> t = NextThread s) \<and>
     (\<forall>t. t \<notin> insert (IdleThread s) X \<longrightarrow> State (Threads s t) = Running \<longrightarrow> t = CurrentThread s) \<and>
     (\<forall>t. t \<notin> X \<longrightarrow> State (Threads s t) = Ready \<longrightarrow> listed s t) \<and>
     (\<forall>t. prio_ok (Threads s t))"

lemma upd_thread_simps [simp]:
  "Threads (upd_thread s t f) = (Threads s)(t := f (Threads s t))" "Processes (upd_thread s t f) = Processes s"
  "Objects (upd_thread s t f) = Objects s" "KiDispatcherReadyListHead (upd_thread s t f) = KiDispatcherReadyListHead s"
  "KiReadySummary (upd_thread s t f) = KiReadySummary s" "KiIdleSummary (upd_thread s t f) = KiIdleSummary s"
  "NextThread (upd_thread s t f) = NextThread s" "CurrentThread (upd_thread s t f) = CurrentThread s" "IdleThread (upd_thread s t f) = IdleThread s"
  "KiWaitInListHead (upd_thread s t f) = KiWaitInListHead s" "KiWaitOutListHead (upd_thread s t f) = KiWaitOutListHead s"
  "KiProcessInSwapListHead (upd_thread s t f) = KiProcessInSwapListHead s" "KiProcessOutSwapListHead (upd_thread s t f) = KiProcessOutSwapListHead s"
  "KiStackInSwapListHead (upd_thread s t f) = KiStackInSwapListHead s" "KiSwapEvent (upd_thread s t f) = KiSwapEvent s"
  "KeWaitReason (upd_thread s t f) = KeWaitReason s" "KiTimerTableListHead (upd_thread s t f) = KiTimerTableListHead s"
  "InterruptTime (upd_thread s t f) = InterruptTime s" "SystemTime (upd_thread s t f) = SystemTime s"
  "TickCountLow (upd_thread s t f) = TickCountLow s" "QuantumEnd (upd_thread s t f) = QuantumEnd s"
  "IsExecutingDpc (upd_thread s t f) = IsExecutingDpc s" "DispatchInterrupt (upd_thread s t f) = DispatchInterrupt s"
  "ApcInterrupt (upd_thread s t f) = ApcInterrupt s" "KiDecrementCount (upd_thread s t f) = KiDecrementCount s"
  "KiWaitQuantumDecrement (upd_thread s t f) = KiWaitQuantumDecrement s" "KiReadyQueueIndex (upd_thread s t f) = KiReadyQueueIndex s"
  "DpcListHead (upd_thread s t f) = DpcListHead s" "DpcQueued (upd_thread s t f) = DpcQueued s"
  "KiTimeIncrementReciprocal (upd_thread s t f) = KiTimeIncrementReciprocal s"
  "KiTimeIncrementShiftCount (upd_thread s t f) = KiTimeIncrementShiftCount s"
  by (simp_all add: upd_thread_def)

lemma upd_process_simps [simp]:
  "Threads (upd_process s t f) = Threads s" "Processes (upd_process s t f) = (Processes s)(t := f (Processes s t))"
  "Objects (upd_process s t f) = Objects s" "KiDispatcherReadyListHead (upd_process s t f) = KiDispatcherReadyListHead s"
  "KiReadySummary (upd_process s t f) = KiReadySummary s" "KiIdleSummary (upd_process s t f) = KiIdleSummary s"
  "NextThread (upd_process s t f) = NextThread s" "CurrentThread (upd_process s t f) = CurrentThread s" "IdleThread (upd_process s t f) = IdleThread s"
  "KiWaitInListHead (upd_process s t f) = KiWaitInListHead s" "KiWaitOutListHead (upd_process s t f) = KiWaitOutListHead s"
  "KiProcessInSwapListHead (upd_process s t f) = KiProcessInSwapListHead s" "KiProcessOutSwapListHead (upd_process s t f) = KiProcessOutSwapListHead s"
  "KiStackInSwapListHead (upd_process s t f) = KiStackInSwapListHead s" "KiSwapEvent (upd_process s t f) = KiSwapEvent s"
  "KeWaitReason (upd_process s t f) = KeWaitReason s" "KiTimerTableListHead (upd_process s t f) = KiTimerTableListHead s"
  "InterruptTime (upd_process s t f) = InterruptTime s" "SystemTime (upd_process s t f) = SystemTime s"
  "TickCountLow (upd_process s t f) = TickCountLow s" "QuantumEnd (upd_process s t f) = QuantumEnd s"
  "IsExecutingDpc (upd_process s t f) = IsExecutingDpc s" "DispatchInterrupt (upd_process s t f) = DispatchInterrupt s"
  "ApcInterrupt (upd_process s t f) = ApcInterrupt s" "KiDecrementCount (upd_process s t f) = KiDecrementCount s"
  "KiWaitQuantumDecrement (upd_process s t f) = KiWaitQuantumDecrement s" "KiReadyQueueIndex (upd_process s t f) = KiReadyQueueIndex s"
  "DpcListHead (upd_process s t f) = DpcListHead s" "DpcQueued (upd_process s t f) = DpcQueued s"
  "KiTimeIncrementReciprocal (upd_process s t f) = KiTimeIncrementReciprocal s"
  "KiTimeIncrementShiftCount (upd_process s t f) = KiTimeIncrementShiftCount s"
  by (simp_all add: upd_process_def)

lemma upd_object_simps [simp]:
  "Threads (upd_object s t f) = Threads s" "Processes (upd_object s t f) = Processes s"
  "Objects (upd_object s t f) = (Objects s)(t := f (Objects s t))" "KiDispatcherReadyListHead (upd_object s t f) = KiDispatcherReadyListHead s"
  "KiReadySummary (upd_object s t f) = KiReadySummary s" "KiIdleSummary (upd_object s t f) = KiIdleSummary s"
  "NextThread (upd_object s t f) = NextThread s" "CurrentThread (upd_object s t f) = CurrentThread s" "IdleThread (upd_object s t f) = IdleThread s"
  "KiWaitInListHead (upd_object s t f) = KiWaitInListHead s" "KiWaitOutListHead (upd_object s t f) = KiWaitOutListHead s"
  "KiProcessInSwapListHead (upd_object s t f) = KiProcessInSwapListHead s" "KiProcessOutSwapListHead (upd_object s t f) = KiProcessOutSwapListHead s"
  "KiStackInSwapListHead (upd_object s t f) = KiStackInSwapListHead s" "KiSwapEvent (upd_object s t f) = KiSwapEvent s"
  "KeWaitReason (upd_object s t f) = KeWaitReason s" "KiTimerTableListHead (upd_object s t f) = KiTimerTableListHead s"
  "InterruptTime (upd_object s t f) = InterruptTime s" "SystemTime (upd_object s t f) = SystemTime s"
  "TickCountLow (upd_object s t f) = TickCountLow s" "QuantumEnd (upd_object s t f) = QuantumEnd s"
  "IsExecutingDpc (upd_object s t f) = IsExecutingDpc s" "DispatchInterrupt (upd_object s t f) = DispatchInterrupt s"
  "ApcInterrupt (upd_object s t f) = ApcInterrupt s" "KiDecrementCount (upd_object s t f) = KiDecrementCount s"
  "KiWaitQuantumDecrement (upd_object s t f) = KiWaitQuantumDecrement s" "KiReadyQueueIndex (upd_object s t f) = KiReadyQueueIndex s"
  "DpcListHead (upd_object s t f) = DpcListHead s" "DpcQueued (upd_object s t f) = DpcQueued s"
  "KiTimeIncrementReciprocal (upd_object s t f) = KiTimeIncrementReciprocal s"
  "KiTimeIncrementShiftCount (upd_object s t f) = KiTimeIncrementShiftCount s"
  by (simp_all add: upd_object_def)

section \<open>Searching\<close>

definition found :: "sched \<Rightarrow> nat \<Rightarrow> nat \<Rightarrow> sched \<times> ptr \<Rightarrow> bool" where
  \<comment> \<open>the first thread of the highest non-empty list was taken, or there was none\<close>
  "found s low high r \<longleftrightarrow>
     (\<exists>p. low \<le> p \<and> p \<le> high \<and> KiDispatcherReadyListHead s p \<noteq> [] \<and>
        (\<forall>i. p < i \<longrightarrow> i \<le> high \<longrightarrow> KiDispatcherReadyListHead s i = []) \<and>
        r = (Dequeue s p (hd (KiDispatcherReadyListHead s p)), hd (KiDispatcherReadyListHead s p))) \<or>
     (\<forall>i. low \<le> i \<longrightarrow> i \<le> high \<longrightarrow> KiDispatcherReadyListHead s i = []) \<and> r = (s, NULL)"

lemma FindReadyLoop_found:
  assumes "\<And>i. bit PS i \<longleftrightarrow> low \<le> i \<and> i \<le> high \<and> KiDispatcherReadyListHead s i \<noteq> []"
  shows "found s low high (FindReadyLoop s PS high)"
  using assms
proof (induction high arbitrary: PS)
  case 0
  have t: "drop_bit 0 PS \<noteq> 0 \<longleftrightarrow> bit PS 0" by (rule top_bit) (use 0 in blast)
  show ?case
  proof (cases "bit PS 0")
    case True
    then have "FindReadyLoop s PS 0 = (Dequeue s 0 (hd (KiDispatcherReadyListHead s 0)), hd (KiDispatcherReadyListHead s 0))"
      using t 0 [of 0] by (subst FindReadyLoop.simps) (simp add: Let_def)
    then show ?thesis using True 0 [of 0] unfolding found_def by (intro disjI1 exI [of _ 0]) simp
  next
    case False
    then have "FindReadyLoop s PS 0 = (s, NULL)" using t by (subst FindReadyLoop.simps) (simp add: Let_def)
    then show ?thesis using False 0 [of 0] unfolding found_def by (intro disjI2) auto
  qed
next
  case (Suc h)
  have t: "drop_bit (Suc h) PS \<noteq> 0 \<longleftrightarrow> bit PS (Suc h)" by (rule top_bit) (use Suc.prems in blast)
  show ?case
  proof (cases "bit PS (Suc h)")
    case True
    then have "FindReadyLoop s PS (Suc h) = (Dequeue s (Suc h) (hd (KiDispatcherReadyListHead s (Suc h))), hd (KiDispatcherReadyListHead s (Suc h)))"
      using t Suc.prems [of "Suc h"] by (subst FindReadyLoop.simps) (simp add: Let_def)
    then show ?thesis using True Suc.prems [of "Suc h"] unfolding found_def by (intro disjI1 exI [of _ "Suc h"]) simp
  next
    case False
    have step: "FindReadyLoop s PS (Suc h) = (if PS = 0 then (s, NULL) else FindReadyLoop s PS h)"
      using False t by (subst FindReadyLoop.simps) (simp add: Let_def)
    have e: "low \<le> Suc h \<Longrightarrow> KiDispatcherReadyListHead s (Suc h) = []" using False Suc.prems [of "Suc h"] by simp
    have IH: "found s low h (FindReadyLoop s PS h)"
    proof (rule Suc.IH)
      fix i show "bit PS i \<longleftrightarrow> low \<le> i \<and> i \<le> h \<and> KiDispatcherReadyListHead s i \<noteq> []"
        using False Suc.prems [of i] by (cases "i = Suc h") auto
    qed
    have up: "found s low (Suc h) r" if "found s low h r" for r
      using that e unfolding found_def by (auto simp: le_Suc_eq)
    show ?thesis
    proof (cases "PS = 0")
      case True
      then have "KiDispatcherReadyListHead s i = []" if "low \<le> i" "i \<le> Suc h" for i using Suc.prems [of i] that by simp
      then show ?thesis using True step by (simp add: found_def)
    next
      case False
      then show ?thesis using step up IH by simp
    qed
  qed
qed

lemma KiFindReadyThread_found:
  assumes "queues_ok s" "high < 32" "low < 32"
  shows "found s low high (KiFindReadyThread s high low)"
  unfolding KiFindReadyThread_def
proof (rule FindReadyLoop_found)
  fix i
  have "bit (KiReadySummary s) i \<longleftrightarrow> KiDispatcherReadyListHead s i \<noteq> []" using assms(1) by (simp add: queues_ok_def)
  then show "bit (((push_bit high 1 - 1) OR push_bit high 1) AND NOT (push_bit low 1 - 1) AND KiReadySummary s) i \<longleftrightarrow>
      low \<le> i \<and> i \<le> high \<and> KiDispatcherReadyListHead s i \<noteq> []"
    unfolding bit_and_iff mask_bits(1) [OF assms(2)] mask_bits(2) [OF assms(3)] using assms(2) by auto
qed

section \<open>The operations keep the invariant\<close>

lemma queue_lists [simp]:
  "KiDispatcherReadyListHead (QueueTail s p t) q = (if q = p then KiDispatcherReadyListHead s p @ [t] else KiDispatcherReadyListHead s q)"
  "KiDispatcherReadyListHead (QueueHead s p t) q = (if q = p then t # KiDispatcherReadyListHead s p else KiDispatcherReadyListHead s q)"
  "KiDispatcherReadyListHead (Dequeue s p t) q = (if q = p then remove1 t (KiDispatcherReadyListHead s p) else KiDispatcherReadyListHead s q)"
  "bit (KiReadySummary (QueueTail s p t)) n \<longleftrightarrow> bit (KiReadySummary s) n \<or> n = p \<and> p < 32"
  "bit (KiReadySummary (QueueHead s p t)) n \<longleftrightarrow> bit (KiReadySummary s) n \<or> n = p \<and> p < 32"
  "bit (KiReadySummary (Dequeue s p t)) n \<longleftrightarrow>
     bit (KiReadySummary s) n \<and> (n = p \<longrightarrow> remove1 t (KiDispatcherReadyListHead s p) \<noteq> [])"
  by (auto simp: QueueTail_def QueueHead_def Dequeue_def Let_def bit_members)

lemma queue_fields [simp]:
  "Threads (QueueTail s p t) = Threads s" "Processes (QueueTail s p t) = Processes s" "Objects (QueueTail s p t) = Objects s"
  "KiIdleSummary (QueueTail s p t) = KiIdleSummary s" "NextThread (QueueTail s p t) = NextThread s" "CurrentThread (QueueTail s p t) = CurrentThread s"
  "IdleThread (QueueTail s p t) = IdleThread s" "KiWaitInListHead (QueueTail s p t) = KiWaitInListHead s"
  "KiWaitOutListHead (QueueTail s p t) = KiWaitOutListHead s" "KiProcessInSwapListHead (QueueTail s p t) = KiProcessInSwapListHead s"
  "KiProcessOutSwapListHead (QueueTail s p t) = KiProcessOutSwapListHead s" "KiStackInSwapListHead (QueueTail s p t) = KiStackInSwapListHead s"
  "KiSwapEvent (QueueTail s p t) = KiSwapEvent s" "KeWaitReason (QueueTail s p t) = KeWaitReason s"
  "KiTimerTableListHead (QueueTail s p t) = KiTimerTableListHead s" "InterruptTime (QueueTail s p t) = InterruptTime s"
  "SystemTime (QueueTail s p t) = SystemTime s" "TickCountLow (QueueTail s p t) = TickCountLow s" "QuantumEnd (QueueTail s p t) = QuantumEnd s"
  "IsExecutingDpc (QueueTail s p t) = IsExecutingDpc s" "DispatchInterrupt (QueueTail s p t) = DispatchInterrupt s"
  "ApcInterrupt (QueueTail s p t) = ApcInterrupt s" "KiDecrementCount (QueueTail s p t) = KiDecrementCount s"
  "KiWaitQuantumDecrement (QueueTail s p t) = KiWaitQuantumDecrement s" "KiReadyQueueIndex (QueueTail s p t) = KiReadyQueueIndex s"
  "DpcListHead (QueueTail s p t) = DpcListHead s" "DpcQueued (QueueTail s p t) = DpcQueued s"
  "KiTimeIncrementReciprocal (QueueTail s p t) = KiTimeIncrementReciprocal s"
  "KiTimeIncrementShiftCount (QueueTail s p t) = KiTimeIncrementShiftCount s" "Threads (QueueHead s p t) = Threads s"
  "Processes (QueueHead s p t) = Processes s" "Objects (QueueHead s p t) = Objects s" "KiIdleSummary (QueueHead s p t) = KiIdleSummary s"
  "NextThread (QueueHead s p t) = NextThread s" "CurrentThread (QueueHead s p t) = CurrentThread s" "IdleThread (QueueHead s p t) = IdleThread s"
  "KiWaitInListHead (QueueHead s p t) = KiWaitInListHead s" "KiWaitOutListHead (QueueHead s p t) = KiWaitOutListHead s"
  "KiProcessInSwapListHead (QueueHead s p t) = KiProcessInSwapListHead s" "KiProcessOutSwapListHead (QueueHead s p t) = KiProcessOutSwapListHead s"
  "KiStackInSwapListHead (QueueHead s p t) = KiStackInSwapListHead s" "KiSwapEvent (QueueHead s p t) = KiSwapEvent s"
  "KeWaitReason (QueueHead s p t) = KeWaitReason s" "KiTimerTableListHead (QueueHead s p t) = KiTimerTableListHead s"
  "InterruptTime (QueueHead s p t) = InterruptTime s" "SystemTime (QueueHead s p t) = SystemTime s" "TickCountLow (QueueHead s p t) = TickCountLow s"
  "QuantumEnd (QueueHead s p t) = QuantumEnd s" "IsExecutingDpc (QueueHead s p t) = IsExecutingDpc s"
  "DispatchInterrupt (QueueHead s p t) = DispatchInterrupt s" "ApcInterrupt (QueueHead s p t) = ApcInterrupt s"
  "KiDecrementCount (QueueHead s p t) = KiDecrementCount s" "KiWaitQuantumDecrement (QueueHead s p t) = KiWaitQuantumDecrement s"
  "KiReadyQueueIndex (QueueHead s p t) = KiReadyQueueIndex s" "DpcListHead (QueueHead s p t) = DpcListHead s"
  "DpcQueued (QueueHead s p t) = DpcQueued s" "KiTimeIncrementReciprocal (QueueHead s p t) = KiTimeIncrementReciprocal s"
  "KiTimeIncrementShiftCount (QueueHead s p t) = KiTimeIncrementShiftCount s" "Threads (Dequeue s p t) = Threads s"
  "Processes (Dequeue s p t) = Processes s" "Objects (Dequeue s p t) = Objects s" "KiIdleSummary (Dequeue s p t) = KiIdleSummary s"
  "NextThread (Dequeue s p t) = NextThread s" "CurrentThread (Dequeue s p t) = CurrentThread s" "IdleThread (Dequeue s p t) = IdleThread s"
  "KiWaitInListHead (Dequeue s p t) = KiWaitInListHead s" "KiWaitOutListHead (Dequeue s p t) = KiWaitOutListHead s"
  "KiProcessInSwapListHead (Dequeue s p t) = KiProcessInSwapListHead s" "KiProcessOutSwapListHead (Dequeue s p t) = KiProcessOutSwapListHead s"
  "KiStackInSwapListHead (Dequeue s p t) = KiStackInSwapListHead s" "KiSwapEvent (Dequeue s p t) = KiSwapEvent s"
  "KeWaitReason (Dequeue s p t) = KeWaitReason s" "KiTimerTableListHead (Dequeue s p t) = KiTimerTableListHead s"
  "InterruptTime (Dequeue s p t) = InterruptTime s" "SystemTime (Dequeue s p t) = SystemTime s" "TickCountLow (Dequeue s p t) = TickCountLow s"
  "QuantumEnd (Dequeue s p t) = QuantumEnd s" "IsExecutingDpc (Dequeue s p t) = IsExecutingDpc s"
  "DispatchInterrupt (Dequeue s p t) = DispatchInterrupt s" "ApcInterrupt (Dequeue s p t) = ApcInterrupt s"
  "KiDecrementCount (Dequeue s p t) = KiDecrementCount s" "KiWaitQuantumDecrement (Dequeue s p t) = KiWaitQuantumDecrement s"
  "KiReadyQueueIndex (Dequeue s p t) = KiReadyQueueIndex s" "DpcListHead (Dequeue s p t) = DpcListHead s" "DpcQueued (Dequeue s p t) = DpcQueued s"
  "KiTimeIncrementReciprocal (Dequeue s p t) = KiTimeIncrementReciprocal s" "KiTimeIncrementShiftCount (Dequeue s p t) = KiTimeIncrementShiftCount s"
  by (simp_all add: QueueTail_def QueueHead_def Dequeue_def Let_def)

lemma queues_okI:
  assumes "\<And>p. bit (KiReadySummary s) p \<longleftrightarrow> KiDispatcherReadyListHead s p \<noteq> []"
    and "\<And>p. distinct (KiDispatcherReadyListHead s p)"
    and "\<And>p t. t \<in> set (KiDispatcherReadyListHead s p) \<Longrightarrow>
        t \<noteq> NULL \<and> State (Threads s t) = Ready \<and> Priority (Threads s t) = p \<and> \<not> ProcessReadyQueue (Threads s t)"
  shows "queues_ok s"
  using assms unfolding queues_ok_def by blast

lemma queues_okD:
  assumes "queues_ok s"
  shows "bit (KiReadySummary s) p \<longleftrightarrow> KiDispatcherReadyListHead s p \<noteq> []"
    and "distinct (KiDispatcherReadyListHead s p)"
    and "t \<in> set (KiDispatcherReadyListHead s p) \<Longrightarrow>
        t \<noteq> NULL \<and> State (Threads s t) = Ready \<and> Priority (Threads s t) = p \<and> \<not> ProcessReadyQueue (Threads s t)"
  using assms unfolding queues_ok_def by blast+

lemma queues_ok_other:
  \<comment> \<open>changes to a thread that is in no list do not matter\<close>
  assumes "queues_ok s" "\<not> queued s t" "KiDispatcherReadyListHead s' = KiDispatcherReadyListHead s"
    "KiReadySummary s' = KiReadySummary s" "\<And>x. x \<noteq> t \<Longrightarrow> State (Threads s' x) = State (Threads s x) \<and>
      Priority (Threads s' x) = Priority (Threads s x) \<and> ProcessReadyQueue (Threads s' x) = ProcessReadyQueue (Threads s x)"
  shows "queues_ok s'"
proof (rule queues_okI)
  fix p x assume x: "x \<in> set (KiDispatcherReadyListHead s' p)"
  then have "x \<noteq> t" using assms(2,3) by (auto simp: queued_def)
  then show "x \<noteq> NULL \<and> State (Threads s' x) = Ready \<and> Priority (Threads s' x) = p \<and> \<not> ProcessReadyQueue (Threads s' x)"
    using queues_okD(3) [OF assms(1), of x p] x assms(3) assms(5) [of x] by simp
qed (use queues_okD [OF assms(1)] assms(3,4) in auto)

lemma queue_ok:
  assumes "queues_ok s" "\<not> queued s t" "t \<noteq> NULL" "p < 32"
    and "State (Threads s t) = Ready" "Priority (Threads s t) = p" "\<not> ProcessReadyQueue (Threads s t)"
  shows "queues_ok (QueueTail s p t)" "queues_ok (QueueHead s p t)"
proof -
  have t: "t \<notin> set (KiDispatcherReadyListHead s q)" for q using assms(2) by (auto simp: queued_def)
  note q = queues_okD [OF assms(1)]
  show "queues_ok (QueueTail s p t)"
  proof (rule queues_okI)
    fix q x assume "x \<in> set (KiDispatcherReadyListHead (QueueTail s p t) q)"
    then have "x = t \<and> q = p \<or> x \<in> set (KiDispatcherReadyListHead s q)" by (auto split: if_splits)
    then show "x \<noteq> NULL \<and> State (Threads (QueueTail s p t) x) = Ready \<and> Priority (Threads (QueueTail s p t) x) = q \<and>
        \<not> ProcessReadyQueue (Threads (QueueTail s p t) x)" using q(3) [of x q] assms by auto
  qed (use q(1,2) t assms(4) in auto)
  show "queues_ok (QueueHead s p t)"
  proof (rule queues_okI)
    fix q x assume "x \<in> set (KiDispatcherReadyListHead (QueueHead s p t) q)"
    then have "x = t \<and> q = p \<or> x \<in> set (KiDispatcherReadyListHead s q)" by (auto split: if_splits)
    then show "x \<noteq> NULL \<and> State (Threads (QueueHead s p t) x) = Ready \<and> Priority (Threads (QueueHead s p t) x) = q \<and>
        \<not> ProcessReadyQueue (Threads (QueueHead s p t) x)" using q(3) [of x q] assms by auto
  qed (use q(1,2) t assms(4) in auto)
qed

lemma dequeue_ok:
  assumes "queues_ok s"
  shows "queues_ok (Dequeue s p t)" "t \<in> set (KiDispatcherReadyListHead s p) \<Longrightarrow> \<not> queued (Dequeue s p t) t"
proof -
  note q = queues_okD [OF assms]
  have sub: "x \<in> set (remove1 t xs) \<Longrightarrow> x \<in> set xs" for x xs using notin_set_remove1 by metis
  show "queues_ok (Dequeue s p t)"
  proof (rule queues_okI)
    fix r x assume "x \<in> set (KiDispatcherReadyListHead (Dequeue s p t) r)"
    then have "x \<in> set (KiDispatcherReadyListHead s r)" by (auto split: if_splits dest: sub)
    then show "x \<noteq> NULL \<and> State (Threads (Dequeue s p t) x) = Ready \<and> Priority (Threads (Dequeue s p t) x) = r \<and>
        \<not> ProcessReadyQueue (Threads (Dequeue s p t) x)" using q(3) [of x r] by simp
  next
    fix r show "bit (KiReadySummary (Dequeue s p t)) r \<longleftrightarrow> KiDispatcherReadyListHead (Dequeue s p t) r \<noteq> []"
      using q(1) [of r] by (cases "r = p") auto
  qed (use q(2) in auto)
  assume t: "t \<in> set (KiDispatcherReadyListHead s p)"
  have "t \<notin> set (KiDispatcherReadyListHead (Dequeue s p t) r)" for r
    using q(2) [of p] q(3) [of t p] q(3) [of t r] t by (cases "r = p") auto
  then show "\<not> queued (Dequeue s p t) t" by (auto simp: queued_def)
qed

lemma sched_okI:
  assumes "queues_ok s" "procs_ok s" "waits_ok X s" "\<And>p. KiDispatcherReadyListHead s p \<noteq> [] \<Longrightarrow> p \<le> top_priority s"
    and "KiIdleSummary s \<noteq> 0 \<Longrightarrow> NextThread s = NULL \<and> (\<forall>p. KiDispatcherReadyListHead s p = [])"
    and "NextThread s \<noteq> NULL \<Longrightarrow> State (Threads s (NextThread s)) = Standby"
    and "\<And>t. t \<notin> insert NULL X \<Longrightarrow> State (Threads s t) = Standby \<Longrightarrow> t = NextThread s"
    and "\<And>t. t \<notin> insert (IdleThread s) X \<Longrightarrow> State (Threads s t) = Running \<Longrightarrow> t = CurrentThread s"
    and "\<And>t. t \<notin> X \<Longrightarrow> State (Threads s t) = Ready \<Longrightarrow> listed s t"
    and "\<And>t. prio_ok (Threads s t)"
  shows "sched_ok X s"
  using assms unfolding sched_ok_def by blast

lemma sched_okD:
  assumes "sched_ok X s"
  shows "queues_ok s" "procs_ok s" "waits_ok X s" "KiDispatcherReadyListHead s p \<noteq> [] \<Longrightarrow> p \<le> top_priority s"
    and "KiIdleSummary s \<noteq> 0 \<Longrightarrow> NextThread s = NULL \<and> (\<forall>p. KiDispatcherReadyListHead s p = [])"
    and "NextThread s \<noteq> NULL \<Longrightarrow> State (Threads s (NextThread s)) = Standby"
    and "t \<notin> insert NULL X \<Longrightarrow> State (Threads s t) = Standby \<Longrightarrow> t = NextThread s"
    and "t \<notin> insert (IdleThread s) X \<Longrightarrow> State (Threads s t) = Running \<Longrightarrow> t = CurrentThread s"
    and "t \<notin> X \<Longrightarrow> State (Threads s t) = Ready \<Longrightarrow> listed s t"
    and "prio_ok (Threads s t)"
  using assms unfolding sched_ok_def by blast+

lemma procs_okI:
  assumes "\<And>P. distinct (ReadyListHead (Processes s P))"
    and "\<And>P t. t \<in> set (ReadyListHead (Processes s P)) \<Longrightarrow> t \<noteq> NULL \<and> ProcessReadyQueue (Threads s t) \<and> Process (Threads s t) = P"
    and "\<And>t. ProcessReadyQueue (Threads s t) \<Longrightarrow> State (Threads s t) = Ready"
  shows "procs_ok s"
  using assms unfolding procs_ok_def by blast

lemma procs_okD:
  assumes "procs_ok s"
  shows "distinct (ReadyListHead (Processes s P))"
    and "t \<in> set (ReadyListHead (Processes s P)) \<Longrightarrow> t \<noteq> NULL \<and> ProcessReadyQueue (Threads s t) \<and> Process (Threads s t) = P"
    and "ProcessReadyQueue (Threads s t) \<Longrightarrow> State (Threads s t) = Ready"
  using assms unfolding procs_ok_def by blast+

lemma waits_okI:
  assumes "\<And>p. distinct (WaitListHead (Objects s p))"
    and "\<And>p b. b \<in> set (WaitListHead (Objects s p)) \<Longrightarrow> WbObject b = p \<and> WbThread b \<noteq> NULL \<and>
        State (Threads s (WbThread b)) = Waiting \<and> b \<in> set (WaitBlockList (Threads s (WbThread b)))"
    and "\<And>t b. State (Threads s t) = Waiting \<Longrightarrow> b \<in> set (WaitBlockList (Threads s t)) \<Longrightarrow>
        WbThread b = t \<and> (t \<notin> X \<longrightarrow> b \<in> set (WaitListHead (Objects s (WbObject b))))"
  shows "waits_ok X s"
  using assms unfolding waits_ok_def by blast

lemma waits_okD:
  assumes "waits_ok X s"
  shows "distinct (WaitListHead (Objects s p))"
    and "b \<in> set (WaitListHead (Objects s p)) \<Longrightarrow> WbObject b = p \<and> WbThread b \<noteq> NULL \<and>
        State (Threads s (WbThread b)) = Waiting \<and> b \<in> set (WaitBlockList (Threads s (WbThread b)))"
    and "State (Threads s t) = Waiting \<Longrightarrow> b \<in> set (WaitBlockList (Threads s t)) \<Longrightarrow>
        WbThread b = t \<and> (t \<notin> X \<longrightarrow> b \<in> set (WaitListHead (Objects s (WbObject b))))"
  using assms unfolding waits_ok_def by blast+

lemma waits_mono: "waits_ok Y s \<Longrightarrow> Y \<subseteq> Z \<Longrightarrow> waits_ok Z s"
  unfolding waits_ok_def by blast

section \<open>A thread that leaves the transit\<close>

definition frame :: "ptr \<Rightarrow> sched \<Rightarrow> sched \<Rightarrow> bool" where
  \<comment> \<open>the lists are kept, and the threads but \<open>T\<close> keep what the invariant reads of them\<close>
  "frame T s s' \<longleftrightarrow> KiDispatcherReadyListHead s' = KiDispatcherReadyListHead s \<and> KiReadySummary s' = KiReadySummary s \<and>
     CurrentThread s' = CurrentThread s \<and> IdleThread s' = IdleThread s \<and>
     (\<forall>p. WaitListHead (Objects s' p) = WaitListHead (Objects s p)) \<and>
     (\<forall>P. set (ReadyListHead (Processes s P)) \<subseteq> set (ReadyListHead (Processes s' P))) \<and>
     (\<forall>x. Priority (Threads s' x) = Priority (Threads s x) \<and> WaitBlockList (Threads s' x) = WaitBlockList (Threads s x) \<and>
        (prio_ok (Threads s x) \<longrightarrow> prio_ok (Threads s' x))) \<and>
     (\<forall>x. x \<noteq> T \<longrightarrow> State (Threads s' x) = State (Threads s x) \<and>
        ProcessReadyQueue (Threads s' x) = ProcessReadyQueue (Threads s x) \<and> Process (Threads s' x) = Process (Threads s x))"

lemma frameD:
  assumes "frame T s s'"
  shows "KiDispatcherReadyListHead s' = KiDispatcherReadyListHead s" "KiReadySummary s' = KiReadySummary s"
    "CurrentThread s' = CurrentThread s" "IdleThread s' = IdleThread s" "WaitListHead (Objects s' p) = WaitListHead (Objects s p)"
    "t \<in> set (ReadyListHead (Processes s P)) \<Longrightarrow> t \<in> set (ReadyListHead (Processes s' P))"
    "Priority (Threads s' x) = Priority (Threads s x)" "WaitBlockList (Threads s' x) = WaitBlockList (Threads s x)"
    "prio_ok (Threads s x) \<Longrightarrow> prio_ok (Threads s' x)" "x \<noteq> T \<Longrightarrow> State (Threads s' x) = State (Threads s x)"
    "x \<noteq> T \<Longrightarrow> ProcessReadyQueue (Threads s' x) = ProcessReadyQueue (Threads s x)" "x \<noteq> T \<Longrightarrow> Process (Threads s' x) = Process (Threads s x)"
  using assms unfolding frame_def by blast+

lemma frame_queues:
  assumes "queues_ok s" "frame T s s'" "\<not> queued s T"
  shows "queues_ok s'"
  by (rule queues_ok_other [OF assms(1,3)]) (use frameD [OF assms(2)] in auto)

lemma frame_waits:
  assumes "waits_ok (insert T Y) s" "frame T s s'" "unlinked s T" "State (Threads s' T) \<noteq> Waiting"
  shows "waits_ok Y s'"
proof (rule waits_okI)
  note w = waits_okD [OF assms(1)] and f = frameD [OF assms(2)]
  show "distinct (WaitListHead (Objects s' p))" for p using w(1) f(5) by simp
  fix p b assume b: "b \<in> set (WaitListHead (Objects s' p))"
  then have "WbThread b \<noteq> T" using assms(3) f(5) by (auto simp: unlinked_def)
  then show "WbObject b = p \<and> WbThread b \<noteq> NULL \<and> State (Threads s' (WbThread b)) = Waiting \<and> b \<in> set (WaitBlockList (Threads s' (WbThread b)))"
    using w(2) [of b p] b f(5,8,10) by simp
next
  note w = waits_okD [OF assms(1)] and f = frameD [OF assms(2)]
  fix t b assume b: "State (Threads s' t) = Waiting" "b \<in> set (WaitBlockList (Threads s' t))"
  then have "t \<noteq> T" using assms(4) by auto
  then show "WbThread b = t \<and> (t \<notin> Y \<longrightarrow> b \<in> set (WaitListHead (Objects s' (WbObject b))))"
    using w(3) [of t b] b f(5,8) f(10) [of t] by simp
qed

lemma waits_leave:
  assumes "waits_ok (insert T Y) s" "State (Threads s T) \<noteq> Waiting" "Threads s' = Threads s" "Objects s' = Objects s"
  shows "waits_ok Y s'"
proof (rule waits_okI)
  note w = waits_okD [OF assms(1)]
  show "distinct (WaitListHead (Objects s' p))" for p using w(1) assms(4) by simp
  show "WbObject b = p \<and> WbThread b \<noteq> NULL \<and> State (Threads s' (WbThread b)) = Waiting \<and> b \<in> set (WaitBlockList (Threads s' (WbThread b)))"
    if "b \<in> set (WaitListHead (Objects s' p))" for p b using w(2) [of b p] that assms(3,4) by simp
  show "WbThread b = t \<and> (t \<notin> Y \<longrightarrow> b \<in> set (WaitListHead (Objects s' (WbObject b))))"
    if "State (Threads s' t) = Waiting" "b \<in> set (WaitBlockList (Threads s' t))" for t b
    using w(3) [of t b] that assms(2-) by (cases "t = T") auto
qed

lemma frame_listed: "listed s x \<Longrightarrow> frame T s s' \<Longrightarrow> x \<noteq> T \<Longrightarrow> listed s' x"
  unfolding listed_def queued_def by (simp add: frameD(1,11,12) frameD(6) split: if_splits)

lemma frame_procs:
  assumes "procs_ok s" "frame T s s'" "\<And>P. ReadyListHead (Processes s' P) = ReadyListHead (Processes s P)"
    "\<not> ProcessReadyQueue (Threads s T)" "\<not> ProcessReadyQueue (Threads s' T)"
  shows "procs_ok s'"
proof (rule procs_okI)
  note p = procs_okD [OF assms(1)] and f = frameD [OF assms(2)]
  show "distinct (ReadyListHead (Processes s' P))" for P using p(1) assms(3) by simp
  fix P t assume t: "t \<in> set (ReadyListHead (Processes s' P))"
  then show "t \<noteq> NULL \<and> ProcessReadyQueue (Threads s' t) \<and> Process (Threads s' t) = P"
    using p(2) [of t P] assms(3,4) f(11,12) [of t] by (cases "t = T") auto
next
  note p = procs_okD [OF assms(1)] and f = frameD [OF assms(2)]
  fix t assume "ProcessReadyQueue (Threads s' t)"
  then show "State (Threads s' t) = Ready" using p(3) [of t] f(10,11) [of t] assms(5) by (cases "t = T") auto
qed

lemma sched_ok_leave:
  \<comment> \<open>thread \<open>T\<close> leaves the transit without becoming the next or the running thread\<close>
  assumes ok: "sched_ok (insert T Y) s" and q: "\<not> queued s T" "unlinked s T" "NextThread s \<noteq> T"
    and f: "frame T s s'" "NextThread s' = NextThread s" "KiIdleSummary s' = KiIdleSummary s" "procs_ok s'"
    and T: "State (Threads s' T) \<notin> {Standby, Running, Waiting}" "State (Threads s' T) = Ready \<Longrightarrow> T \<in> Y \<or> listed s' T"
  shows "sched_ok Y s'"
proof (rule sched_okI)
  note o = sched_okD [OF ok] and e = frameD [OF f(1)]
  show "queues_ok s'" by (rule frame_queues [OF o(1) f(1) q(1)])
  show "procs_ok s'" by (rule f(4))
  show "waits_ok Y s'" by (rule frame_waits [OF o(3) f(1) q(2)]) (use T in auto)
  have top: "top_priority s' = top_priority s" using e(3,7) f(2) by (simp add: top_priority_def)
  show "p \<le> top_priority s'" if "KiDispatcherReadyListHead s' p \<noteq> []" for p using o(4) that top e(1) by simp
  show "NextThread s' = NULL \<and> (\<forall>p. KiDispatcherReadyListHead s' p = [])" if "KiIdleSummary s' \<noteq> 0"
    using o(5) that e(1) f(2,3) by simp
  show "State (Threads s' (NextThread s')) = Standby" if "NextThread s' \<noteq> NULL"
    using o(6) that e(10) [of "NextThread s"] q(3) f(2) by simp
  show "t = NextThread s'" if "t \<notin> insert NULL Y" "State (Threads s' t) = Standby" for t
    using o(7) [of t] that T(1) e(10) [of t] f(2) by (cases "t = T") auto
  show "t = CurrentThread s'" if "t \<notin> insert (IdleThread s') Y" "State (Threads s' t) = Running" for t
    using o(8) [of t] that T(1) e(3,4) e(10) [of t] by (cases "t = T") auto
  show "listed s' t" if "t \<notin> Y" "State (Threads s' t) = Ready" for t
    using o(9) [of t] that T(2) e(10) [of t] frame_listed [OF _ f(1)] by (cases "t = T") auto
  show "prio_ok (Threads s' t)" for t using o(10) e(9) by simp
qed

lemma sched_ok_next:
  \<comment> \<open>thread \<open>T\<close> becomes the next thread; a next thread it displaces is in transit now\<close>
  assumes ok: "sched_ok (insert T Y) s" and q: "\<not> queued s T" "unlinked s T" "T \<noteq> NULL"
    and p: "\<And>r. KiDispatcherReadyListHead s r \<noteq> [] \<Longrightarrow> r \<le> Priority (Threads s T)"
    and f: "frame T s s'" "NextThread s' = T" "KiIdleSummary s' = 0" "procs_ok s'"
    and T: "State (Threads s' T) = Standby" and Z: "Y \<subseteq> Z" "NextThread s \<noteq> NULL \<Longrightarrow> NextThread s \<in> Z"
  shows "sched_ok Z s'"
proof (rule sched_okI)
  note o = sched_okD [OF ok] and e = frameD [OF f(1)]
  show "queues_ok s'" by (rule frame_queues [OF o(1) f(1) q(1)])
  show "procs_ok s'" by (rule f(4))
  have "waits_ok Y s'" by (rule frame_waits [OF o(3) f(1) q(2)]) (use T in auto)
  then show "waits_ok Z s'" using Z(1) by (rule waits_mono)
  show "r \<le> top_priority s'" if "KiDispatcherReadyListHead s' r \<noteq> []" for r
    using p that e(1,7) f(2) q(3) by (simp add: top_priority_def)
  show "t = NextThread s'" if "t \<notin> insert NULL Z" "State (Threads s' t) = Standby" for t
    using o(7) [of t] that e(10) [of t] f(2) Z by (cases "t = T") auto
  show "t = CurrentThread s'" if "t \<notin> insert (IdleThread s') Z" "State (Threads s' t) = Running" for t
    using o(8) [of t] that T e(3,4) e(10) [of t] Z(1) by (cases "t = T") auto
  show "listed s' t" if "t \<notin> Z" "State (Threads s' t) = Ready" for t
    using o(9) [of t] that T e(10) [of t] frame_listed [OF _ f(1)] Z(1) by (cases "t = T") auto
  show "prio_ok (Threads s' t)" for t using o(10) e(9) by simp
qed (use f(2,3) T in auto)

lemma sched_ok_enqueued:
  assumes ok: "sched_ok (insert T Y) s" and q: "queues_ok s'" "queued s' T" and p: "p \<le> top_priority s" "KiIdleSummary s = 0"
    and T: "State (Threads s T) = Ready" "\<not> ProcessReadyQueue (Threads s T)"
    and s': "\<And>r. r \<noteq> p \<Longrightarrow> KiDispatcherReadyListHead s' r = KiDispatcherReadyListHead s r"
      "set (KiDispatcherReadyListHead s p) \<subseteq> set (KiDispatcherReadyListHead s' p)" "Threads s' = Threads s" "Objects s' = Objects s"
      "NextThread s' = NextThread s" "CurrentThread s' = CurrentThread s" "KiIdleSummary s' = KiIdleSummary s" "IdleThread s' = IdleThread s"
      "Processes s' = Processes s"
  shows "sched_ok Y s'"
proof (rule sched_okI [OF q(1)])
  note o = sched_okD [OF ok]
  have top: "top_priority s' = top_priority s" using s' by (simp add: top_priority_def)
  show "procs_ok s'" using o(2) s' by (simp add: procs_ok_def)
  show "waits_ok Y s'" by (rule waits_leave [OF o(3)]) (use s' T(1) in simp_all)
  show "r \<le> top_priority s'" if "KiDispatcherReadyListHead s' r \<noteq> []" for r
    using o(4) [of r] p(1) that s'(1) [of r] top by (cases "r = p") auto
  show "t = NextThread s'" if "t \<notin> insert NULL Y" "State (Threads s' t) = Standby" for t
    using o(7) [of t] that s' T(1) by (cases "t = T") auto
  show "t = CurrentThread s'" if "t \<notin> insert (IdleThread s') Y" "State (Threads s' t) = Running" for t
    using o(8) [of t] that s' T(1) by (cases "t = T") auto
  show "State (Threads s' (NextThread s')) = Standby" if "NextThread s' \<noteq> NULL" using o(6) that s' by simp
  show "listed s' t" if "t \<notin> Y" "State (Threads s' t) = Ready" for t
  proof (cases "t = T")
    case True
    then show ?thesis using q(2) T s' by (simp add: listed_def)
  next
    case False
    then have "listed s t" using o(9) [of t] that s' by simp
    moreover have "queued s t \<Longrightarrow> queued s' t" unfolding queued_def using s'(1,2) by (metis in_mono)
    ultimately show ?thesis using s' by (simp add: listed_def split: if_splits)
  qed
  show "prio_ok (Threads s' t)" for t using o(10) s' by simp
qed (use p(2) s'(7) in simp)

lemma not_ready:
  assumes "sched_ok X s"
  shows "State (Threads s t) \<noteq> Ready \<Longrightarrow> \<not> queued s t" "State (Threads s t) \<noteq> Ready \<Longrightarrow> \<not> ProcessReadyQueue (Threads s t)"
    "State (Threads s t) \<noteq> Waiting \<Longrightarrow> unlinked s t"
  using queues_okD(3) [OF sched_okD(1) [OF assms]] procs_okD(3) [OF sched_okD(2) [OF assms]]
    waits_okD(2) [OF sched_okD(3) [OF assms]] unfolding queued_def unlinked_def by metis+

definition same :: "sched \<Rightarrow> sched \<Rightarrow> bool" where
  \<comment> \<open>the states agree in what the invariant reads\<close>
  "same s s' \<longleftrightarrow> KiDispatcherReadyListHead s' = KiDispatcherReadyListHead s \<and> KiReadySummary s' = KiReadySummary s \<and>
     CurrentThread s' = CurrentThread s \<and> IdleThread s' = IdleThread s \<and> NextThread s' = NextThread s \<and> KiIdleSummary s' = KiIdleSummary s \<and>
     (\<forall>p. WaitListHead (Objects s' p) = WaitListHead (Objects s p)) \<and>
     (\<forall>P. ReadyListHead (Processes s' P) = ReadyListHead (Processes s P)) \<and>
     (\<forall>P. ProcessState (Processes s P) = ProcessInMemory \<longrightarrow> ProcessState (Processes s' P) = ProcessInMemory) \<and>
     (\<forall>x. Priority (Threads s' x) = Priority (Threads s x) \<and> WaitBlockList (Threads s' x) = WaitBlockList (Threads s x) \<and>
        State (Threads s' x) = State (Threads s x) \<and> ProcessReadyQueue (Threads s' x) = ProcessReadyQueue (Threads s x) \<and>
        Process (Threads s' x) = Process (Threads s x) \<and> (prio_ok (Threads s x) \<longrightarrow> prio_ok (Threads s' x)))"

lemma same_ok:
  assumes "sched_ok X s" "same s s'"
  shows "sched_ok X s'"
proof -
  note e = assms(2) [unfolded same_def]
  have "queues_ok s' = queues_ok s" "procs_ok s' = procs_ok s" "waits_ok X s' = waits_ok X s" "top_priority s' = top_priority s"
    "\<And>t. listed s' t = listed s t"
    using e by (simp_all add: queues_ok_def procs_ok_def waits_ok_def top_priority_def listed_def queued_def)
  then show ?thesis using assms(1) e by (simp add: sched_ok_def)
qed

definition evolves :: "ptr set \<Rightarrow> sched \<Rightarrow> sched \<Rightarrow> bool" where
  \<comment> \<open>what readying threads keeps, but for the threads \<open>X\<close>\<close>
  "evolves X s s' \<longleftrightarrow> CurrentThread s' = CurrentThread s \<and> IdleThread s' = IdleThread s \<and>
     (\<forall>x. x \<notin> X \<longrightarrow> State (Threads s x) = Running \<longrightarrow> State (Threads s' x) = Running) \<and>
     (\<forall>x. x \<notin> X \<longrightarrow> State (Threads s x) = Standby \<longrightarrow> NextThread s \<noteq> x \<longrightarrow> State (Threads s' x) = Standby \<and> NextThread s' \<noteq> x) \<and>
     (NextThread s \<noteq> NULL \<or> KiIdleSummary s \<noteq> 0 \<longrightarrow> NextThread s' \<noteq> NULL \<or> KiIdleSummary s' \<noteq> 0) \<and>
     (KiIdleSummary s = 0 \<longrightarrow> KiIdleSummary s' = 0) \<and>
     (\<forall>P. ProcessState (Processes s P) = ProcessInMemory \<longrightarrow> ProcessState (Processes s' P) = ProcessInMemory \<and>
        ReadyListHead (Processes s' P) = ReadyListHead (Processes s P)) \<and>
     (\<forall>p. set (WaitListHead (Objects s' p)) \<subseteq> set (WaitListHead (Objects s p))) \<and>
     (\<forall>x. State (Threads s' x) = Waiting \<longrightarrow> State (Threads s x) = Waiting) \<and>
     (\<forall>x. State (Threads s' x) = Running \<longrightarrow> State (Threads s x) = Running)"

lemma evolvesD:
  assumes "evolves X s s'"
  shows "CurrentThread s' = CurrentThread s" "IdleThread s' = IdleThread s"
    "x \<notin> X \<Longrightarrow> State (Threads s x) = Running \<Longrightarrow> State (Threads s' x) = Running"
    "x \<notin> X \<Longrightarrow> State (Threads s x) = Standby \<Longrightarrow> NextThread s \<noteq> x \<Longrightarrow> State (Threads s' x) = Standby"
    "x \<notin> X \<Longrightarrow> State (Threads s x) = Standby \<Longrightarrow> NextThread s \<noteq> x \<Longrightarrow> NextThread s' \<noteq> x"
    "NextThread s \<noteq> NULL \<or> KiIdleSummary s \<noteq> 0 \<Longrightarrow> NextThread s' \<noteq> NULL \<or> KiIdleSummary s' \<noteq> 0"
    "KiIdleSummary s = 0 \<Longrightarrow> KiIdleSummary s' = 0"
    "ProcessState (Processes s P) = ProcessInMemory \<Longrightarrow> ProcessState (Processes s' P) = ProcessInMemory"
    "ProcessState (Processes s P) = ProcessInMemory \<Longrightarrow> ReadyListHead (Processes s' P) = ReadyListHead (Processes s P)"
    "set (WaitListHead (Objects s' p)) \<subseteq> set (WaitListHead (Objects s p))"
    "State (Threads s' x) = Waiting \<Longrightarrow> State (Threads s x) = Waiting"
    "State (Threads s' x) = Running \<Longrightarrow> State (Threads s x) = Running"
  using assms unfolding evolves_def by blast+

lemma evolves_mono: "evolves X s s' \<Longrightarrow> X \<subseteq> Z \<Longrightarrow> evolves Z s s'"
  unfolding evolves_def by blast

lemma evolves_chain:
  assumes "evolves X s s'" "evolves Z s' s''" "\<And>x. x \<in> Z \<Longrightarrow> x \<notin> X \<Longrightarrow> State (Threads s x) = Standby \<and> NextThread s = x"
  shows "evolves X s s''"
proof -
  note a = evolvesD [OF assms(1)] and b = evolvesD [OF assms(2)]
  have "State (Threads s'' x) = Running" if x: "x \<notin> X" "State (Threads s x) = Running" for x
    using a(3) [OF x] b(3) [of x] assms(3) [OF _ x(1)] x(2) by (cases "x \<in> Z") simp_all
  moreover have "State (Threads s'' x) = Standby \<and> NextThread s'' \<noteq> x"
    if x: "x \<notin> X" "State (Threads s x) = Standby" "NextThread s \<noteq> x" for x
    using a(4,5) [OF x] b(4,5) [of x] assms(3) [OF _ x(1)] x(3) by (cases "x \<in> Z") simp_all
  moreover have "CurrentThread s'' = CurrentThread s" "IdleThread s'' = IdleThread s" using a(1,2) b(1,2) by simp_all
  moreover have "ProcessState (Processes s'' P) = ProcessInMemory \<and> ReadyListHead (Processes s'' P) = ReadyListHead (Processes s P)"
    if "ProcessState (Processes s P) = ProcessInMemory" for P using a(8,9) [OF that] b(8,9) [of P] by simp
  moreover have "set (WaitListHead (Objects s'' p)) \<subseteq> set (WaitListHead (Objects s p))" for p
    using a(10) [of p] b(10) [of p] by simp
  moreover have "State (Threads s x) = Waiting" if "State (Threads s'' x) = Waiting" for x by (rule a(11) [OF b(11) [OF that]])
  moreover have "State (Threads s x) = Running" if "State (Threads s'' x) = Running" for x by (rule a(12) [OF b(12) [OF that]])
  ultimately show ?thesis unfolding evolves_def using a(6,7) b(6,7) by blast
qed

lemma evolves_trans: "evolves X s s' \<Longrightarrow> evolves X s' s'' \<Longrightarrow> evolves X s s''"
  by (erule evolves_chain, assumption) blast

lemma awake_evolves: "awake s \<Longrightarrow> evolves X s s' \<Longrightarrow> awake s'"
  using evolvesD(1,11) [of X s s'] unfolding awake_def by metis

lemma same_evolves: "same s s' \<Longrightarrow> evolves X s s'"
  unfolding same_def evolves_def by simp

end
