(* ===== verification/Sched_Ready.thy ===== *)
theory Sched_Ready
  imports Sched_Inv
begin

text \<open>
  Readying a thread (\<open>KiReadyThread\<close>): each of its branches, and that it keeps the invariant of the
  scheduler.  The wait test on the swap event is the interface \<open>swap_event\<close>.
\<close>

section \<open>Readying a thread\<close>

definition resident :: "sched \<Rightarrow> ptr \<Rightarrow> bool" where
  "resident s T \<longleftrightarrow> ProcessState (Processes s (Process (Threads s T))) = ProcessInMemory \<and> KernelStackResident (Threads s T)"

definition starts :: "sched \<Rightarrow> ptr \<Rightarrow> sched" where
  \<comment> \<open>the first assignments of \<open>KiReadyThread\<close>\<close>
  "starts s T = upd_thread s T (\<lambda>t. t\<lparr>Preempted := False, WaitTime := TickCountLow s\<rparr>)"

lemma starts_simps [simp]:
  "Process (Threads (starts s T) x) = Process (Threads s x)" "Processes (starts s T) = Processes s"
  "KernelStackResident (Threads (starts s T) x) = KernelStackResident (Threads s x)"
  "KiIdleSummary (starts s T) = KiIdleSummary s" "KiProcessInSwapListHead (starts s T) = KiProcessInSwapListHead s"
  "KiStackInSwapListHead (starts s T) = KiStackInSwapListHead s" "Objects (starts s T) = Objects s" "IdleThread (starts s T) = IdleThread s"
  "NextThread (starts s T) = NextThread s" "CurrentThread (starts s T) = CurrentThread s"
  "Priority (Threads (starts s T) x) = Priority (Threads s x)" "State (Threads (starts s T) x) = State (Threads s x)"
  "ProcessReadyQueue (Threads (starts s T) x) = ProcessReadyQueue (Threads s x)"
  "KiDispatcherReadyListHead (starts s T) = KiDispatcherReadyListHead s" "KiReadySummary (starts s T) = KiReadySummary s"
  "WaitBlockList (Threads (starts s T) x) = WaitBlockList (Threads s x)" "prio_ok (Threads (starts s T) x) = prio_ok (Threads s x)"
  by (simp_all add: starts_def prio_ok_def)

lemma prio_ok_simps [simp]:
  "prio_ok (t\<lparr>State := v\<rparr>) = prio_ok t" "prio_ok (t\<lparr>Preempted := w\<rparr>) = prio_ok t" "prio_ok (t\<lparr>ProcessReadyQueue := w\<rparr>) = prio_ok t"
  by (simp_all add: prio_ok_def)

lemma ready_idle:
  "resident s T \<Longrightarrow> KiIdleSummary s \<noteq> 0 \<Longrightarrow> KiReadyThread wake s T =
     upd_thread ((starts s T)\<lparr>KiIdleSummary := 0, NextThread := T\<rparr>) T (\<lambda>t. t\<lparr>State := Standby\<rparr>)"
  by (subst KiReadyThread.simps, unfold Let_def starts_def [symmetric]) (simp add: resident_def)

lemma ready_displace:
  "resident s T \<Longrightarrow> KiIdleSummary s = 0 \<Longrightarrow> NextThread s \<noteq> NULL \<Longrightarrow> Priority (Threads s (NextThread s)) < Priority (Threads s T) \<Longrightarrow>
     KiReadyThread wake s T = KiReadyThread wake
       (upd_thread ((upd_thread (starts s T) (NextThread s) (\<lambda>t. t\<lparr>Preempted := True\<rparr>))\<lparr>NextThread := T\<rparr>) T (\<lambda>t. t\<lparr>State := Standby\<rparr>))
       (NextThread s)"
  by (subst KiReadyThread.simps, unfold Let_def starts_def [symmetric]) (simp add: resident_def)

lemma ready_preempt:
  "resident s T \<Longrightarrow> KiIdleSummary s = 0 \<Longrightarrow> NextThread s = NULL \<Longrightarrow> Priority (Threads s (CurrentThread s)) < Priority (Threads s T) \<Longrightarrow>
     KiReadyThread wake s T =
       upd_thread ((upd_thread (starts s T) (CurrentThread s) (\<lambda>t. t\<lparr>Preempted := True\<rparr>))\<lparr>NextThread := T\<rparr>) T (\<lambda>t. t\<lparr>State := Standby\<rparr>)"
  by (subst KiReadyThread.simps, unfold Let_def starts_def [symmetric]) (simp add: resident_def)

lemma ready_queue:
  assumes "resident s T" "KiIdleSummary s = 0" "Priority (Threads s T) \<le> top_priority s"
  shows "KiReadyThread wake s T =
     (if Preempted (Threads s T) \<and> Priority (Threads s T) \<ge> 16
      then QueueHead (upd_thread (starts s T) T (\<lambda>t. t\<lparr>State := Ready\<rparr>)) (Priority (Threads s T)) T
      else QueueTail (upd_thread (starts s T) T (\<lambda>t. t\<lparr>State := Ready\<rparr>)) (Priority (Threads s T)) T)"
proof (cases "NextThread s = NULL")
  case True
  then have "\<not> Priority (Threads s (CurrentThread s)) < Priority (Threads s T)" using assms(3) by (simp add: top_priority_def)
  then show ?thesis using assms(1,2) True
    by (subst KiReadyThread.simps, unfold Let_def starts_def [symmetric]) (simp add: resident_def)
next
  case False
  then have "\<not> Priority (Threads s (NextThread s)) < Priority (Threads s T)" using assms(3) by (simp add: top_priority_def)
  then show ?thesis using assms(1,2) False
    by (subst KiReadyThread.simps, unfold Let_def starts_def [symmetric]) (simp add: resident_def)
qed

definition left_memory :: "sched \<Rightarrow> sched \<Rightarrow> ptr \<Rightarrow> bool" where
  \<comment> \<open>what \<open>KiReadyThread\<close> does to the ready queues when the thread is not resident\<close>
  "left_memory s s' T \<longleftrightarrow> frame T s s' \<and> NextThread s' = NextThread s \<and> KiIdleSummary s' = KiIdleSummary s \<and>
     (\<forall>P. ProcessState (Processes s P) = ProcessInMemory \<longrightarrow> ProcessState (Processes s' P) = ProcessInMemory \<and>
        ReadyListHead (Processes s' P) = ReadyListHead (Processes s P)) \<and>
     (State (Threads s' T) = Transition \<and> ProcessReadyQueue (Threads s' T) = ProcessReadyQueue (Threads s T) \<and>
        (\<forall>P. ReadyListHead (Processes s' P) = ReadyListHead (Processes s P)) \<or>
      State (Threads s' T) = Ready \<and> ProcessReadyQueue (Threads s' T) \<and> Process (Threads s' T) = Process (Threads s T) \<and>
        (\<forall>P. ReadyListHead (Processes s' P) = ReadyListHead (Processes s P) @ (if P = Process (Threads s T) then [T] else [])))"

lemma ready_swapped:
  assumes "\<not> resident s T"
  shows "\<exists>s'. left_memory s s' T \<and> (KiReadyThread wake s T = SignalSwapEvent wake s' \<or> KiReadyThread wake s T = s')"
proof -
  let ?P = "Process (Threads s T)"
  let ?s1 = "upd_process (upd_thread (starts s T) T (\<lambda>t. t\<lparr>State := Ready, ProcessReadyQueue := True\<rparr>)) ?P (\<lambda>p. p\<lparr>ReadyListHead := ReadyListHead p @ [T]\<rparr>)"
  let ?s2 = "(upd_process ?s1 ?P (\<lambda>p. p\<lparr>ProcessState := ProcessInTransition\<rparr>))\<lparr>KiProcessInSwapListHead := KiProcessInSwapListHead s @ [?P]\<rparr>"
  let ?s3 = "(upd_thread (upd_process (starts s T) ?P (\<lambda>p. p\<lparr>StackCount := (StackCount p + 1) mod 65536\<rparr>)) T (\<lambda>t. t\<lparr>State := Transition\<rparr>))
    \<lparr>KiStackInSwapListHead := KiStackInSwapListHead s @ [T]\<rparr>"
  have l: "ProcessState (Processes s ?P) \<noteq> ProcessInMemory \<Longrightarrow> left_memory s ?s1 T"
      "ProcessState (Processes s ?P) \<noteq> ProcessInMemory \<Longrightarrow> left_memory s ?s2 T" "left_memory s ?s3 T"
    by (auto simp: left_memory_def frame_def)
  consider "ProcessState (Processes s ?P) = ProcessInMemory" | "ProcessState (Processes s ?P) = ProcessOutOfMemory" |
    "ProcessState (Processes s ?P) = ProcessInTransition" by (cases "ProcessState (Processes s ?P)")
  then show ?thesis
  proof cases
    case 1
    then have "\<not> KernelStackResident (Threads s T)" using assms by (simp add: resident_def)
    then have "KiReadyThread wake s T = SignalSwapEvent wake ?s3"
      using 1 by (subst KiReadyThread.simps, unfold Let_def starts_def [symmetric]) simp
    then show ?thesis using l(3) by blast
  next
    case 2
    have "KiReadyThread wake s T = SignalSwapEvent wake ?s2"
      using 2 by (subst KiReadyThread.simps, unfold Let_def starts_def [symmetric]) simp
    moreover have "left_memory s ?s2 T" by (rule l(2)) (simp add: 2)
    ultimately show ?thesis by blast
  next
    case 3
    have "KiReadyThread wake s T = ?s1"
      using 3 by (subst KiReadyThread.simps, unfold Let_def starts_def [symmetric]) simp
    moreover have "left_memory s ?s1 T" by (rule l(1)) (simp add: 3)
    ultimately show ?thesis by blast
  qed
qed

lemma left_memory_procs:
  assumes "procs_ok s" "left_memory s s' T" "\<not> ProcessReadyQueue (Threads s T)" "T \<noteq> NULL"
  shows "procs_ok s'"
proof (cases "State (Threads s' T) = Transition")
  case True
  then show ?thesis using assms by (intro frame_procs [OF assms(1), of T]) (auto simp: left_memory_def)
next
  case False
  note p = procs_okD [OF assms(1)]
  have f: "frame T s s'" and T: "State (Threads s' T) = Ready" "ProcessReadyQueue (Threads s' T)" "Process (Threads s' T) = Process (Threads s T)"
    and l: "\<And>P. ReadyListHead (Processes s' P) = ReadyListHead (Processes s P) @ (if P = Process (Threads s T) then [T] else [])"
    using assms(2) False unfolding left_memory_def by blast+
  note e = frameD [OF f]
  have n: "T \<notin> set (ReadyListHead (Processes s P))" for P using p(2) [of T P] assms(3) by auto
  show ?thesis
  proof (rule procs_okI)
    show "distinct (ReadyListHead (Processes s' P))" for P using p(1) n l by auto
    show "t \<noteq> NULL \<and> ProcessReadyQueue (Threads s' t) \<and> Process (Threads s' t) = P" if "t \<in> set (ReadyListHead (Processes s' P))" for t P
    proof (cases "t = T")
      case True
      then show ?thesis using that l n T assms(4) by (auto split: if_splits)
    next
      case False
      then have "t \<in> set (ReadyListHead (Processes s P))" using that l by (auto split: if_splits)
      then show ?thesis using p(2) [of t P] e(11,12) False by auto
    qed
    show "State (Threads s' t) = Ready" if "ProcessReadyQueue (Threads s' t)" for t
      using p(3) [of t] that e(10,11) [of t] T by (cases "t = T") auto
  qed
qed

lemma ready_queued:
  assumes ok: "sched_ok (insert T Y) s" and q: "\<not> queued s T" "unlinked s T" "NextThread s \<noteq> T"
    and T: "T \<noteq> NULL" "\<not> ProcessReadyQueue (Threads s T)"
    and p: "Priority (Threads s T) \<le> top_priority s" "KiIdleSummary s = 0" and r: "resident s T"
  shows "sched_ok Y (KiReadyThread wake s T)"
proof -
  let ?p = "Priority (Threads s T)" and ?s = "upd_thread (starts s T) T (\<lambda>t. t\<lparr>State := Ready\<rparr>)"
  have e: "KiReadyThread wake s T = (if Preempted (Threads s T) \<and> ?p \<ge> 16 then QueueHead ?s ?p T else QueueTail ?s ?p T)"
    using r p(2,1) by (rule ready_queue)
  have f: "frame T s ?s" by (simp add: frame_def)
  have pr: "procs_ok ?s" by (rule frame_procs [OF sched_okD(2) [OF ok] f]) (use T in simp_all)
  have l: "sched_ok (insert T Y) ?s"
    by (rule sched_ok_leave [OF _ q f _ _ pr]) (use ok in simp_all)
  have nq: "\<not> queued ?s T" using q(1) by (simp add: queued_def)
  have "?p < 32" using sched_okD(10) [OF ok] by (simp add: prio_ok_def)
  then have qs: "queues_ok (QueueTail ?s ?p T)" "queues_ok (QueueHead ?s ?p T)"
    using T by (intro queue_ok [OF sched_okD(1) [OF l] nq]; simp)+
  have qd: "queued (QueueTail ?s ?p T) T" "queued (QueueHead ?s ?p T) T" unfolding queued_def by (intro exI [of _ ?p]; simp)+
  have tp: "?p \<le> top_priority ?s" using p(1) by (auto simp: top_priority_def)
  have "sched_ok Y (QueueTail ?s ?p T)" by (rule sched_ok_enqueued [OF l qs(1) qd(1) tp]) (auto simp: p(2) T)
  moreover have "sched_ok Y (QueueHead ?s ?p T)" by (rule sched_ok_enqueued [OF l qs(2) qd(2) tp]) (auto simp: p(2) T)
  ultimately show ?thesis unfolding e by simp
qed

lemma displaced_ok:
  assumes ok: "sched_ok (insert T Y) s" and q: "\<not> queued s T" "unlinked s T" "NextThread s \<noteq> T"
    and T: "T \<noteq> NULL" "\<not> ProcessReadyQueue (Threads s T)"
    and r: "resident s T" "KiIdleSummary s = 0" "top_priority s < Priority (Threads s T)" "NextThread s \<noteq> NULL"
  shows "sched_ok (insert (NextThread s) Y)
    (upd_thread ((upd_thread (starts s T) (NextThread s) (\<lambda>t. t\<lparr>Preempted := True\<rparr>))\<lparr>NextThread := T\<rparr>) T (\<lambda>t. t\<lparr>State := Standby\<rparr>))"
    (is "sched_ok _ ?s")
proof -
  have f: "frame T s ?s" by (simp add: frame_def)
  have pr: "procs_ok ?s" by (rule frame_procs [OF sched_okD(2) [OF ok] f]) (use T q(3) in simp_all)
  have le: "p \<le> Priority (Threads s T)" if "KiDispatcherReadyListHead s p \<noteq> []" for p
    using sched_okD(4) [OF ok that] r(3) by simp
  show ?thesis by (rule sched_ok_next [OF ok q(1,2) T(1) le f _ _ pr]) (use r in auto)
qed

lemma displaced_thread:
  assumes ok: "sched_ok (insert T Y) s" and q: "\<not> queued s T" "unlinked s T" "NextThread s \<noteq> T" and r: "NextThread s \<noteq> NULL"
  defines "s' \<equiv> upd_thread ((upd_thread (starts s T) (NextThread s) (\<lambda>t. t\<lparr>Preempted := True\<rparr>))\<lparr>NextThread := T\<rparr>) T (\<lambda>t. t\<lparr>State := Standby\<rparr>)"
  shows "\<not> queued s' (NextThread s)" "unlinked s' (NextThread s)" "NextThread s' \<noteq> NextThread s"
    "\<not> ProcessReadyQueue (Threads s' (NextThread s))" "awake s \<Longrightarrow> awake s'"
  using not_ready [OF ok, of "NextThread s"] sched_okD(6) [OF ok r] q(3) by (simp_all add: queued_def unlinked_def s'_def awake_def)

definition grows :: "sched \<Rightarrow> sched \<Rightarrow> bool" where
  \<comment> \<open>no thread leaves a ready queue\<close>
  "grows s s' \<longleftrightarrow> (\<forall>p. set (KiDispatcherReadyListHead s p) \<subseteq> set (KiDispatcherReadyListHead s' p))"

lemma grows_trans: "grows s s' \<Longrightarrow> grows s' s'' \<Longrightarrow> grows s s''"
  unfolding grows_def by blast

locale swap_event =
  \<comment> \<open>the wait test on the event that wakes the swapper\<close>
  fixes wake :: "sched \<Rightarrow> sched"
  assumes wake_ok: "sched_ok Y s \<Longrightarrow> awake s \<Longrightarrow> sched_ok Y (wake s)"
    and wake_evolves: "sched_ok Y s \<Longrightarrow> awake s \<Longrightarrow> evolves {} s (wake s)"
    and wake_grows: "sched_ok Y s \<Longrightarrow> awake s \<Longrightarrow> grows s (wake s)"
begin

lemma signal_ok:
  assumes "sched_ok Y s" "awake s"
  shows "sched_ok Y (SignalSwapEvent wake s)" "evolves {} s (SignalSwapEvent wake s)" "grows s (SignalSwapEvent wake s)"
proof -
  let ?s = "upd_object s (KiSwapEvent s) (\<lambda>e. e\<lparr>SignalState := 1\<rparr>)"
  have sm: "same s ?s" by (simp add: same_def)
  have aw: "awake ?s" using assms(2) by (simp add: awake_def)
  note ok = same_ok [OF assms(1) sm] and ev = same_evolves [OF sm, of "{}"]
  show "sched_ok Y (SignalSwapEvent wake s)" using ok wake_ok [OF ok aw] by (simp add: SignalSwapEvent_def Let_def)
  show "evolves {} s (SignalSwapEvent wake s)"
    using ev evolves_trans [OF ev wake_evolves [OF ok aw]] by (simp add: SignalSwapEvent_def Let_def)
  show "grows s (SignalSwapEvent wake s)" using wake_grows [OF ok aw] by (simp add: SignalSwapEvent_def Let_def grows_def)
qed

lemma ready_swapped_ok:
  assumes ok: "sched_ok (insert T Y) s" and q: "\<not> queued s T" "unlinked s T" "NextThread s \<noteq> T"
    and T: "T \<noteq> NULL" "\<not> ProcessReadyQueue (Threads s T)" "awake s" and r: "\<not> resident s T"
  shows "sched_ok Y (KiReadyThread wake s T)" "evolves {T} s (KiReadyThread wake s T)" "grows s (KiReadyThread wake s T)"
proof -
  obtain s' where s': "left_memory s s' T" "KiReadyThread wake s T = SignalSwapEvent wake s' \<or> KiReadyThread wake s T = s'"
    using ready_swapped [OF r] by blast
  have f: "frame T s s'" "NextThread s' = NextThread s" "KiIdleSummary s' = KiIdleSummary s"
    using s'(1) unfolding left_memory_def by blast+
  have pr: "procs_ok s'" by (rule left_memory_procs [OF sched_okD(2) [OF ok] s'(1) T(2,1)])
  have st: "State (Threads s' T) \<notin> {Standby, Running, Waiting}" "State (Threads s' T) = Ready \<Longrightarrow> listed s' T"
    using s'(1) unfolding left_memory_def listed_def by auto
  have ok': "sched_ok Y s'"
    by (rule sched_ok_leave [OF ok q f pr st(1)]) (use st(2) in blast)
  have m: "\<forall>P. ProcessState (Processes s P) = ProcessInMemory \<longrightarrow> ProcessState (Processes s' P) = ProcessInMemory \<and>
      ReadyListHead (Processes s' P) = ReadyListHead (Processes s P)" using s'(1) unfolding left_memory_def by blast
  have w: "\<forall>x. State (Threads s' x) = y \<longrightarrow> State (Threads s x) = y" if "y = Waiting \<or> y = Running" for y
  proof (intro allI)
    show "State (Threads s' x) = y \<longrightarrow> State (Threads s x) = y" for x using that st(1) frameD(10) [OF f(1), of x] by (cases "x = T") auto
  qed
  have r: "\<forall>x. x \<notin> {T} \<longrightarrow> State (Threads s x) = Running \<longrightarrow> State (Threads s' x) = Running"
    "\<forall>x. x \<notin> {T} \<longrightarrow> State (Threads s x) = Standby \<longrightarrow> NextThread s \<noteq> x \<longrightarrow> State (Threads s' x) = Standby \<and> NextThread s' \<noteq> x"
    using frameD(10) [OF f(1)] f(2) by auto
  have l: "\<forall>p. set (WaitListHead (Objects s' p)) \<subseteq> set (WaitListHead (Objects s p))" using frameD(5) [OF f(1)] by simp
  have n: "NextThread s \<noteq> NULL \<or> KiIdleSummary s \<noteq> 0 \<longrightarrow> NextThread s' \<noteq> NULL \<or> KiIdleSummary s' \<noteq> 0" "KiIdleSummary s = 0 \<longrightarrow> KiIdleSummary s' = 0"
    using f(2,3) by simp_all
  have ev: "evolves {T} s s'" unfolding evolves_def
    using frameD(3,4) [OF f(1)] n m w [OF disjI1 [OF refl]] w [OF disjI2 [OF refl]] r l by (intro conjI)
  have aw: "awake s'" using st(1) T(3) frameD(3,10) [OF f(1)] unfolding awake_def by (cases "CurrentThread s = T") auto
  have "evolves {T} s' (SignalSwapEvent wake s')" by (rule evolves_mono [OF signal_ok(2) [OF ok' aw]]) simp
  then show "sched_ok Y (KiReadyThread wake s T)" "evolves {T} s (KiReadyThread wake s T)"
    using s'(2) signal_ok(1) [OF ok' aw] ok' ev evolves_trans [OF ev] by auto
  have "grows s s'" using frameD(1) [OF f(1)] by (simp add: grows_def)
  then show "grows s (KiReadyThread wake s T)" using s'(2) grows_trans [OF _ signal_ok(3) [OF ok' aw]] by auto
qed

lemma ready_displaced:
  assumes ok: "sched_ok (insert T Y) s" and q: "\<not> queued s T" "unlinked s T" "NextThread s \<noteq> T"
    and T: "T \<noteq> NULL" "\<not> ProcessReadyQueue (Threads s T)" "awake s"
    and r: "resident s T" "KiIdleSummary s = 0" "top_priority s < Priority (Threads s T)" "NextThread s \<noteq> NULL"
  shows "sched_ok Y (KiReadyThread wake s T)"
proof -
  let ?N = "NextThread s"
  let ?s = "upd_thread ((upd_thread (starts s T) ?N (\<lambda>t. t\<lparr>Preempted := True\<rparr>))\<lparr>NextThread := T\<rparr>) T (\<lambda>t. t\<lparr>State := Standby\<rparr>)"
  have lt: "Priority (Threads s ?N) < Priority (Threads s T)" using r by (simp add: top_priority_def)
  note ok' = displaced_ok [OF ok q T(1,2) r] and N = displaced_thread [OF ok q r(4)]
  have top: "Priority (Threads ?s ?N) \<le> top_priority ?s" using lt T q(3) by (simp add: top_priority_def)
  show ?thesis
  proof (cases "resident ?s ?N")
    case True
    then show ?thesis unfolding ready_displace [OF r(1,2,4) lt]
      by (intro ready_queued [OF ok' N(1-3) r(4) N(4) top]) (use r in simp_all)
  next
    case False
    then show ?thesis unfolding ready_displace [OF r(1,2,4) lt]
      by (intro ready_swapped_ok(1) [OF ok' N(1-3) r(4) N(4) N(5) [OF T(3)]])
  qed
qed

lemma KiReadyThread_ok:
  assumes ok: "sched_ok (insert T Y) s" and q: "\<not> queued s T" "unlinked s T" "NextThread s \<noteq> T"
    and T: "T \<noteq> NULL" "\<not> ProcessReadyQueue (Threads s T)" "awake s"
  shows "sched_ok Y (KiReadyThread wake s T)"
proof -
  let ?N = "NextThread s"
  consider "\<not> resident s T" | "resident s T" "KiIdleSummary s \<noteq> 0" |
    "resident s T" "KiIdleSummary s = 0" "Priority (Threads s T) \<le> top_priority s" |
    "resident s T" "KiIdleSummary s = 0" "top_priority s < Priority (Threads s T)" "?N = NULL" |
    "resident s T" "KiIdleSummary s = 0" "top_priority s < Priority (Threads s T)" "?N \<noteq> NULL" by fastforce
  then show ?thesis
  proof cases
    case 1
    then show ?thesis by (rule ready_swapped_ok(1) [OF ok q T])
  next
    case 2
    let ?s = "upd_thread ((starts s T)\<lparr>KiIdleSummary := 0, NextThread := T\<rparr>) T (\<lambda>t. t\<lparr>State := Standby\<rparr>)"
    have n: "?N = NULL" using sched_okD(5) [OF ok 2(2)] by simp
    have f: "frame T s ?s" by (simp add: frame_def)
    have pr: "procs_ok ?s" by (rule frame_procs [OF sched_okD(2) [OF ok] f]) (use T in simp_all)
    show ?thesis unfolding ready_idle [OF 2]
      by (rule sched_ok_next [OF ok q(1,2) T(1) _ f _ _ pr]) (use 2 n sched_okD(5) [OF ok 2(2)] in auto)
  next
    case 3
    then show ?thesis by (intro ready_queued [OF ok q T(1,2)])
  next
    case 4
    let ?s = "upd_thread ((upd_thread (starts s T) (CurrentThread s) (\<lambda>t. t\<lparr>Preempted := True\<rparr>))\<lparr>NextThread := T\<rparr>) T (\<lambda>t. t\<lparr>State := Standby\<rparr>)"
    have lt: "Priority (Threads s (CurrentThread s)) < Priority (Threads s T)" using 4 by (simp add: top_priority_def)
    have f: "frame T s ?s" by (simp add: frame_def)
    have pr: "procs_ok ?s" by (rule frame_procs [OF sched_okD(2) [OF ok] f]) (use T in auto)
    have le: "p \<le> Priority (Threads s T)" if "KiDispatcherReadyListHead s p \<noteq> []" for p
      using sched_okD(4) [OF ok that] 4(3) by simp
    show ?thesis unfolding ready_preempt [OF 4(1,2,4) lt]
      by (rule sched_ok_next [OF ok q(1,2) T(1) le f _ _ pr]) (use 4 in auto)
  next
    case 5
    then show ?thesis by (intro ready_displaced [OF ok q T])
  qed
qed

lemma ready_queue_evolves:
  "resident s T \<Longrightarrow> KiIdleSummary s = 0 \<Longrightarrow> Priority (Threads s T) \<le> top_priority s \<Longrightarrow> evolves {T} s (KiReadyThread wake s T)"
  by (simp add: ready_queue evolves_def)

lemma KiReadyThread_evolves:
  assumes ok: "sched_ok (insert T Y) s" and q: "\<not> queued s T" "unlinked s T" "NextThread s \<noteq> T"
    and T: "T \<noteq> NULL" "\<not> ProcessReadyQueue (Threads s T)" "awake s"
  shows "evolves {T} s (KiReadyThread wake s T)"
proof -
  let ?N = "NextThread s"
  consider "\<not> resident s T" | "resident s T" "KiIdleSummary s \<noteq> 0" |
    "resident s T" "KiIdleSummary s = 0" "Priority (Threads s T) \<le> top_priority s" |
    "resident s T" "KiIdleSummary s = 0" "top_priority s < Priority (Threads s T)" "?N = NULL" |
    "resident s T" "KiIdleSummary s = 0" "top_priority s < Priority (Threads s T)" "?N \<noteq> NULL" by fastforce
  then show ?thesis
  proof cases
    case 1
    then show ?thesis by (rule ready_swapped_ok(2) [OF ok q T])
  next
    case 2
    then show ?thesis using T(1) by (simp add: ready_idle evolves_def)
  next
    case 3
    then show ?thesis by (rule ready_queue_evolves)
  next
    case 4
    then have "Priority (Threads s (CurrentThread s)) < Priority (Threads s T)" by (simp add: top_priority_def)
    from ready_preempt [OF 4(1,2,4) this] show ?thesis using T(1) by (simp add: evolves_def)
  next
    case 5
    let ?s = "upd_thread ((upd_thread (starts s T) ?N (\<lambda>t. t\<lparr>Preempted := True\<rparr>))\<lparr>NextThread := T\<rparr>) T (\<lambda>t. t\<lparr>State := Standby\<rparr>)"
    have lt: "Priority (Threads s ?N) < Priority (Threads s T)" using 5 by (simp add: top_priority_def)
    have e1: "evolves {T} s ?s" using T(1) by (simp add: evolves_def)
    have ok': "sched_ok (insert ?N Y) ?s" by (rule displaced_ok [OF ok q T(1,2) 5])
    note N = displaced_thread [OF ok q 5(4)]
    have top: "Priority (Threads ?s ?N) \<le> top_priority ?s" using lt T q(3) by (simp add: top_priority_def)
    have "evolves {?N} ?s (KiReadyThread wake ?s ?N)"
      using ready_queue_evolves [of ?s ?N] ready_swapped_ok(2) [OF ok' N(1-3) 5(4) N(4) N(5) [OF T(3)]] top 5(2) by (cases "resident ?s ?N") simp_all
    then have "evolves {T} s (KiReadyThread wake ?s ?N)"
      by (rule evolves_chain [OF e1]) (use sched_okD(6) [OF ok 5(4)] in simp)
    then show ?thesis unfolding ready_displace [OF 5(1,2,4) lt] .
  qed
qed

lemma KiReadyThread_grows:
  assumes ok: "sched_ok (insert T Y) s" and q: "\<not> queued s T" "unlinked s T" "NextThread s \<noteq> T"
    and T: "T \<noteq> NULL" "\<not> ProcessReadyQueue (Threads s T)" "awake s"
  shows "grows s (KiReadyThread wake s T)"
proof -
  let ?N = "NextThread s"
  have queue: "grows s (KiReadyThread wake s T)"
    if "resident s T" "KiIdleSummary s = 0" "Priority (Threads s T) \<le> top_priority s" for s T
    using that by (auto simp: ready_queue grows_def)
  consider "\<not> resident s T" | "resident s T" "KiIdleSummary s \<noteq> 0" |
    "resident s T" "KiIdleSummary s = 0" "Priority (Threads s T) \<le> top_priority s" |
    "resident s T" "KiIdleSummary s = 0" "top_priority s < Priority (Threads s T)" "?N = NULL" |
    "resident s T" "KiIdleSummary s = 0" "top_priority s < Priority (Threads s T)" "?N \<noteq> NULL" by fastforce
  then show ?thesis
  proof cases
    case 1
    then show ?thesis by (rule ready_swapped_ok(3) [OF ok q T])
  next
    case 2
    then show ?thesis by (simp add: ready_idle grows_def)
  next
    case 3
    then show ?thesis by (rule queue)
  next
    case 4
    then have "Priority (Threads s (CurrentThread s)) < Priority (Threads s T)" by (simp add: top_priority_def)
    from ready_preempt [OF 4(1,2,4) this] show ?thesis by (simp add: grows_def)
  next
    case 5
    let ?s = "upd_thread ((upd_thread (starts s T) ?N (\<lambda>t. t\<lparr>Preempted := True\<rparr>))\<lparr>NextThread := T\<rparr>) T (\<lambda>t. t\<lparr>State := Standby\<rparr>)"
    have lt: "Priority (Threads s ?N) < Priority (Threads s T)" using 5 by (simp add: top_priority_def)
    have e1: "grows s ?s" by (simp add: grows_def)
    note ok' = displaced_ok [OF ok q T(1,2) 5] and N = displaced_thread [OF ok q 5(4)]
    have top: "Priority (Threads ?s ?N) \<le> top_priority ?s" using lt T q(3) by (simp add: top_priority_def)
    have "grows ?s (KiReadyThread wake ?s ?N)"
      using queue [of ?s ?N] ready_swapped_ok(3) [OF ok' N(1-3) 5(4) N(4) N(5) [OF T(3)]] top 5(2) by (cases "resident ?s ?N") simp_all
    then show ?thesis unfolding ready_displace [OF 5(1,2,4) lt] by (rule grows_trans [OF e1])
  qed
qed

end

end
