(* ===== verification/Sched_Switch.thy ===== *)
theory Sched_Switch
  imports Sched_Ready
begin

text \<open>
  The selection of a thread, the context switch, the end of a quantum and the change of a
  priority: between two calls that hold the dispatcher lock the scheduler is at rest, and every
  operation takes a state at rest to a state at rest.
\<close>

section \<open>States at rest\<close>

definition rest :: "sched \<Rightarrow> bool" where
  "rest s \<longleftrightarrow> sched_ok {} s \<and> State (Threads s (CurrentThread s)) = Running \<and> State (Threads s (IdleThread s)) = Running \<and>
     CurrentThread s \<noteq> NULL \<and> IdleThread s \<noteq> NULL \<and>
     (CurrentThread s = IdleThread s \<longrightarrow> NextThread s \<noteq> NULL \<or> KiIdleSummary s \<noteq> 0) \<and>
     (KiIdleSummary s \<noteq> 0 \<longrightarrow> CurrentThread s = IdleThread s)"

lemma restI:
  assumes "sched_ok {} s" "State (Threads s (CurrentThread s)) = Running" "State (Threads s (IdleThread s)) = Running"
    "CurrentThread s \<noteq> NULL" "IdleThread s \<noteq> NULL" "CurrentThread s = IdleThread s \<Longrightarrow> NextThread s \<noteq> NULL \<or> KiIdleSummary s \<noteq> 0"
    "KiIdleSummary s \<noteq> 0 \<Longrightarrow> CurrentThread s = IdleThread s"
  shows "rest s"
  using assms unfolding rest_def by blast

lemma restD:
  assumes "rest s"
  shows "sched_ok {} s" "State (Threads s (CurrentThread s)) = Running" "State (Threads s (IdleThread s)) = Running"
    "CurrentThread s \<noteq> NULL" "IdleThread s \<noteq> NULL" "CurrentThread s = IdleThread s \<Longrightarrow> NextThread s \<noteq> NULL \<or> KiIdleSummary s \<noteq> 0"
    "KiIdleSummary s \<noteq> 0 \<Longrightarrow> CurrentThread s = IdleThread s"
  using assms unfolding rest_def by blast+

lemma rest_evolves:
  assumes "rest s" "sched_ok {} s'" "evolves {} s s'"
  shows "rest s'"
proof (rule restI [OF assms(2)])
  note r = restD [OF assms(1)] and e = evolvesD [OF assms(3)]
  show "State (Threads s' (CurrentThread s')) = Running" "State (Threads s' (IdleThread s')) = Running"
    using r(2,3) e(3) e(1,2) by simp_all
  show "CurrentThread s' \<noteq> NULL" "IdleThread s' \<noteq> NULL" using r(4,5) e(1,2) by simp_all
  show "NextThread s' \<noteq> NULL \<or> KiIdleSummary s' \<noteq> 0" if "CurrentThread s' = IdleThread s'"
    by (rule e(6)) (use that r(6) e(1,2) in simp)
  show "CurrentThread s' = IdleThread s'" if "KiIdleSummary s' \<noteq> 0"
    using that e(7) r(7) e(1,2) by force
qed

lemma same_rest: "rest s \<Longrightarrow> same s s' \<Longrightarrow> rest s'"
  by (rule rest_evolves, assumption, rule same_ok [OF restD(1)], assumption, assumption, rule same_evolves)

definition moves :: "sched \<Rightarrow> sched \<Rightarrow> bool" where
  "moves s s' \<longleftrightarrow> rest s' \<and> evolves {} s s'"

lemma movesI: "rest s \<Longrightarrow> sched_ok {} s' \<Longrightarrow> evolves {} s s' \<Longrightarrow> moves s s'"
  unfolding moves_def using rest_evolves by blast

lemma same_moves: "rest s \<Longrightarrow> same s s' \<Longrightarrow> moves s s'"
  unfolding moves_def using same_rest same_evolves by blast

lemma moves_trans: "moves s s' \<Longrightarrow> moves s' s'' \<Longrightarrow> moves s s''"
  unfolding moves_def using evolves_trans by blast

section \<open>Taking a thread from a ready queue\<close>

lemma dequeued:
  assumes ok: "sched_ok Y s" and t: "t \<in> set (KiDispatcherReadyListHead s p)"
  shows "sched_ok (insert t Y) (Dequeue s p t)" "\<not> queued (Dequeue s p t) t" "unlinked (Dequeue s p t) t" "NextThread s \<noteq> t"
    "t \<noteq> NULL" "\<not> ProcessReadyQueue (Threads s t)" "State (Threads s t) = Ready" "Priority (Threads s t) = p"
proof -
  note o = sched_okD [OF ok]
  show t': "t \<noteq> NULL" "\<not> ProcessReadyQueue (Threads s t)" "State (Threads s t) = Ready" "Priority (Threads s t) = p"
    using queues_okD(3) [OF o(1) t] by blast+
  show "NextThread s \<noteq> t" using o(6) t'(1,3) by auto
  show "\<not> queued (Dequeue s p t) t" by (rule dequeue_ok(2) [OF o(1) t])
  show "unlinked (Dequeue s p t) t" using not_ready(3) [OF ok, of t] t'(3) by (simp add: unlinked_def)
  show "sched_ok (insert t Y) (Dequeue s p t)"
  proof (rule sched_okI)
    show "queues_ok (Dequeue s p t)" by (rule dequeue_ok(1) [OF o(1)])
    show "procs_ok (Dequeue s p t)" using o(2) by (simp add: procs_ok_def)
    have "waits_ok Y (Dequeue s p t)" using o(3) by (simp add: waits_ok_def)
    then show "waits_ok (insert t Y) (Dequeue s p t)" by (rule waits_mono) blast
    show "q \<le> top_priority (Dequeue s p t)" if "KiDispatcherReadyListHead (Dequeue s p t) q \<noteq> []" for q
    proof -
      have "KiDispatcherReadyListHead s q \<noteq> []" using that t by (cases "q = p") auto
      then show ?thesis using o(4) [of q] by (auto simp: top_priority_def)
    qed
    show "listed (Dequeue s p t) x" if "x \<notin> insert t Y" "State (Threads (Dequeue s p t) x) = Ready" for x
    proof -
      have "listed s x" using o(9) [of x] that by simp
      moreover have "queued s x \<Longrightarrow> queued (Dequeue s p t) x"
        unfolding queued_def using that(1) by (metis in_set_remove1 insertCI queue_lists(3))
      ultimately show ?thesis by (simp add: listed_def split: if_splits)
    qed
    show "NextThread (Dequeue s p t) = NULL \<and> (\<forall>q. KiDispatcherReadyListHead (Dequeue s p t) q = [])" if "KiIdleSummary (Dequeue s p t) \<noteq> 0"
      using o(5) that by simp
  qed (use o(6-8,10) in auto)
qed

lemma run_ok:
  assumes ok: "sched_ok (insert T Y) s" and T: "CurrentThread s = T" "NextThread s \<noteq> T" "\<not> queued s T" "unlinked s T" "\<not> ProcessReadyQueue (Threads s T)"
  shows "sched_ok Y (SwapContext s T)"
proof (rule sched_okI)
  let ?s = "SwapContext s T"
  note o = sched_okD [OF ok]
  have f: "frame T s ?s" using T(1) by (simp add: SwapContext_def frame_def)
  note e = frameD [OF f]
  have T': "State (Threads ?s T) = Running" by (simp add: SwapContext_def)
  have n: "NextThread ?s = NextThread s" "KiIdleSummary ?s = KiIdleSummary s" by (simp_all add: SwapContext_def)
  show "queues_ok ?s" by (rule frame_queues [OF o(1) f T(3)])
  show "procs_ok ?s" by (rule frame_procs [OF o(2) f]) (use T(5) in \<open>simp_all add: SwapContext_def\<close>)
  show "waits_ok Y ?s" by (rule frame_waits [OF o(3) f T(4)]) (simp add: T')
  show "p \<le> top_priority ?s" if "KiDispatcherReadyListHead ?s p \<noteq> []" for p
    using o(4) [of p] that e(1,3,7) n by (auto simp: top_priority_def)
  show "NextThread ?s = NULL \<and> (\<forall>p. KiDispatcherReadyListHead ?s p = [])" if "KiIdleSummary ?s \<noteq> 0"
    using o(5) that e(1) n by simp
  show "State (Threads ?s (NextThread ?s)) = Standby" if "NextThread ?s \<noteq> NULL"
    using o(6) that e(10) [of "NextThread s"] T(2) n by simp
  show "t = NextThread ?s" if "t \<notin> insert NULL Y" "State (Threads ?s t) = Standby" for t
    using o(7) [of t] that T' e(10) [of t] n by (cases "t = T") auto
  show "t = CurrentThread ?s" if "t \<notin> insert (IdleThread ?s) Y" "State (Threads ?s t) = Running" for t
    using o(8) [of t] that e(3,4) e(10) [of t] T(1) by (cases "t = T") auto
  show "listed ?s t" if "t \<notin> Y" "State (Threads ?s t) = Ready" for t
    using o(9) [of t] that T' e(10) [of t] frame_listed [OF _ f] by (cases "t = T") auto
  show "prio_ok (Threads ?s t)" for t using o(10) e(9) by simp
qed

lemma current_ok:
  \<comment> \<open>the thread \<open>T\<close> becomes the current thread\<close>
  assumes ok: "sched_ok X s" and Y: "X \<subseteq> Y" "\<And>t. State (Threads s t) = Running \<Longrightarrow> t \<in> insert (IdleThread s) Y"
    and n: "NextThread s' = NULL" "NextThread s \<noteq> NULL \<Longrightarrow> NextThread s \<in> Y"
    and p: "\<And>p. KiDispatcherReadyListHead s p \<noteq> [] \<Longrightarrow> p \<le> Priority (Threads s (CurrentThread s')) \<and> KiIdleSummary s' = 0"
    and s': "Threads s' = Threads s" "Objects s' = Objects s" "Processes s' = Processes s" "KiReadySummary s' = KiReadySummary s"
      "KiDispatcherReadyListHead s' = KiDispatcherReadyListHead s" "IdleThread s' = IdleThread s"
  shows "sched_ok Y s'"
proof (rule sched_okI)
  note o = sched_okD [OF ok]
  show "queues_ok s'" using o(1) s' by (simp add: queues_ok_def)
  show "procs_ok s'" using o(2) s' by (simp add: procs_ok_def)
  have "waits_ok X s'" using o(3) s' by (simp add: waits_ok_def)
  then show "waits_ok Y s'" using Y(1) by (rule waits_mono)
  show "q \<le> top_priority s'" if "KiDispatcherReadyListHead s' q \<noteq> []" for q using p [of q] that s' n(1) by (simp add: top_priority_def)
  show "NextThread s' = NULL \<and> (\<forall>p. KiDispatcherReadyListHead s' p = [])" if "KiIdleSummary s' \<noteq> 0" using p that n(1) s' by auto
  show "t = NextThread s'" if "t \<notin> insert NULL Y" "State (Threads s' t) = Standby" for t
    using o(7) [of t] that n s' Y(1) by auto
  show "t = CurrentThread s'" if "t \<notin> insert (IdleThread s') Y" "State (Threads s' t) = Running" for t using Y(2) [of t] that s' by auto
  show "listed s' t" if "t \<notin> Y" "State (Threads s' t) = Ready" for t
  proof -
    have "listed s t" using o(9) [of t] that s' Y(1) by auto
    then show ?thesis using s' unfolding listed_def queued_def by (simp split: if_splits)
  qed
qed (use sched_okD(10) [OF ok] n s' in auto)

section \<open>The context switch\<close>

context swap_event
begin

lemma SwitchToNext_rest:
  assumes r: "rest s" and n: "NextThread s \<noteq> NULL" and i: "CurrentThread s \<noteq> IdleThread s"
  shows "rest (SwitchToNext wake s)"
proof -
  let ?N = "NextThread s" and ?C = "CurrentThread s"
  let ?s = "s\<lparr>NextThread := NULL, CurrentThread := ?N\<rparr>"
  let ?t = "KiReadyThread wake ?s ?C"
  note r' = restD [OF r]
  note o = sched_okD [OF r'(1)]
  have st: "State (Threads s ?N) = Standby" by (rule o(6) [OF n])
  have sum: "KiIdleSummary s = 0" using o(5) n by auto
  have run: "t \<in> insert (IdleThread s) {?C, ?N}" if "State (Threads s t) = Running" for t using o(8) [of t] that by auto
  have ok: "sched_ok {?C, ?N} ?s"
    by (rule current_ok [OF r'(1)]) (use run o(4) sum n in \<open>auto simp: top_priority_def\<close>)
  have C: "\<not> queued ?s ?C" "unlinked ?s ?C" "NextThread ?s \<noteq> ?C" "?C \<noteq> NULL" "\<not> ProcessReadyQueue (Threads ?s ?C)" "awake ?s"
    using not_ready [OF r'(1), of ?C] r'(2,4) st by (simp_all add: queued_def unlinked_def awake_def)
  have ok': "sched_ok {?N} ?t" and ev: "evolves {?C} ?s ?t"
    by (rule KiReadyThread_ok [OF ok C] KiReadyThread_evolves [OF ok C])+
  note e = evolvesD [OF ev]
  have N: "?N \<noteq> ?C" using st r'(2) by auto
  have N': "State (Threads ?t ?N) = Standby" "NextThread ?t \<noteq> ?N" using e(4,5) [of ?N] st N n by simp_all
  have ok2: "sched_ok {} (SwapContext ?t ?N)"
    by (rule run_ok [OF ok']) (use e(1) N' not_ready [OF ok', of ?N] in simp_all)
  show ?thesis unfolding SwitchToNext_def Let_def
  proof (rule restI [OF ok2])
    have idle: "State (Threads ?t (IdleThread s)) = Running" using e(3) [of "IdleThread s"] r'(3) i by simp
    have id: "IdleThread ?t = IdleThread s" using e(2) by simp
    show "State (Threads (SwapContext ?t ?N) (CurrentThread (SwapContext ?t ?N))) = Running" by (simp add: SwapContext_def)
    show "State (Threads (SwapContext ?t ?N) (IdleThread (SwapContext ?t ?N))) = Running" using idle id by (simp add: SwapContext_def)
    show "CurrentThread (SwapContext ?t ?N) \<noteq> NULL" "IdleThread (SwapContext ?t ?N) \<noteq> NULL" using n r'(5) id by (simp_all add: SwapContext_def)
    have ni: "?N \<noteq> IdleThread s" using st r'(3) by auto
    show "NextThread (SwapContext ?t ?N) \<noteq> NULL \<or> KiIdleSummary (SwapContext ?t ?N) \<noteq> 0"
      if "CurrentThread (SwapContext ?t ?N) = IdleThread (SwapContext ?t ?N)" using that ni id by (simp add: SwapContext_def)
    show "CurrentThread (SwapContext ?t ?N) = IdleThread (SwapContext ?t ?N)" if "KiIdleSummary (SwapContext ?t ?N) \<noteq> 0"
      using that e(7) sum by (simp add: SwapContext_def)
  qed
qed

lemma KiUnlockDispatcherDatabase_rest:
  assumes "rest s" "OldIrql < 2 \<Longrightarrow> CurrentThread s \<noteq> IdleThread s"
  shows "rest (KiUnlockDispatcherDatabase wake s OldIrql)"
proof -
  let ?s = "upd_thread s (CurrentThread s) (\<lambda>t. t\<lparr>WaitIrql := OldIrql\<rparr>)"
  have "rest ?s" "rest (s\<lparr>DispatchInterrupt := True\<rparr>)" by (rule same_rest [OF assms(1)]; simp add: same_def prio_ok_def)+
  then show ?thesis using assms SwitchToNext_rest [of ?s] by (auto simp: KiUnlockDispatcherDatabase_def)
qed

end

lemma switched_rest:
  \<comment> \<open>the thread \<open>T\<close> runs after the current thread, which waits or is the idle thread\<close>
  assumes ok: "sched_ok {T} s" and T: "CurrentThread s = T" "NextThread s = NULL" "\<not> queued s T" "unlinked s T" "\<not> ProcessReadyQueue (Threads s T)" "T \<noteq> NULL"
    and i: "State (Threads s (IdleThread s)) = Running" "IdleThread s \<noteq> NULL" "KiIdleSummary s \<noteq> 0 \<longleftrightarrow> T = IdleThread s"
  shows "rest (SwapContext s T)"
proof -
  have "sched_ok {} (SwapContext s T)" by (rule run_ok [OF ok T(1) _ T(3-5)]) (use T(2,6) in simp)
  then show ?thesis using i T by (intro restI) (auto simp: SwapContext_def)
qed

section \<open>Selecting a thread\<close>

lemma found_cases:
  assumes "found s low high (s', t)"
  obtains p where "low \<le> p" "p \<le> high" "t \<in> set (KiDispatcherReadyListHead s p)" "t = hd (KiDispatcherReadyListHead s p)" "s' = Dequeue s p t"
      "\<And>i. p < i \<Longrightarrow> i \<le> high \<Longrightarrow> KiDispatcherReadyListHead s i = []"
    | "s' = s" "t = NULL" "\<And>i. low \<le> i \<Longrightarrow> i \<le> high \<Longrightarrow> KiDispatcherReadyListHead s i = []"
  using assms unfolding found_def by auto

lemma KiSelectNextThread_cases:
  assumes ok: "sched_ok X s" and c: "CurrentThread s = C"
  obtains "NextThread s \<noteq> NULL" "KiSelectNextThread s C = (s\<lparr>NextThread := NULL\<rparr>, NextThread s)"
    | p t where "NextThread s = NULL" "t \<in> set (KiDispatcherReadyListHead s p)" "t = hd (KiDispatcherReadyListHead s p)"
      "KiSelectNextThread s C = (Dequeue s p t, t)" "\<And>i. p < i \<Longrightarrow> KiDispatcherReadyListHead s i = []"
    | "NextThread s = NULL" "\<And>i. KiDispatcherReadyListHead s i = []" "KiSelectNextThread s C = (s\<lparr>KiIdleSummary := 1\<rparr>, IdleThread s)"
proof (cases "NextThread s = NULL")
  case False
  then show thesis by (intro that(1)) (simp_all add: KiSelectNextThread_def)
next
  case n: True
  note o = sched_okD [OF ok]
  let ?p = "Priority (Threads s C)"
  have le: "KiDispatcherReadyListHead s i = []" if "?p < i" for i
  proof (rule ccontr)
    assume "KiDispatcherReadyListHead s i \<noteq> []"
    then have "i \<le> ?p" using o(4) [of i] n c by (simp add: top_priority_def)
    then show False using that by simp
  qed
  have p: "?p < 32" using o(10) by (simp add: prio_ok_def)
  obtain s' t where f: "KiFindReadyThread s ?p 0 = (s', t)" by (cases "KiFindReadyThread s ?p 0")
  have "found s 0 ?p (s', t)" using KiFindReadyThread_found [OF o(1) p, of 0] f by simp
  then show thesis
  proof (cases rule: found_cases)
    case (1 q)
    have "t \<noteq> NULL" using dequeued(5) [OF ok 1(3)] .
    then have e: "KiSelectNextThread s C = (Dequeue s q t, t)" using n f 1(5) by (simp add: KiSelectNextThread_def)
    show thesis
    proof (rule that(2) [OF n 1(3,4) e])
      fix i assume "q < i"
      then show "KiDispatcherReadyListHead s i = []" using 1(6) [of i] le [of i] by linarith
    qed
  next
    case 2
    have "KiDispatcherReadyListHead s i = []" for i using 2(3) [of i] le [of i] by linarith
    then show thesis by (rule that(3) [OF n]) (use f 2(1,2) n in \<open>simp add: KiSelectNextThread_def\<close>)
  qed
qed

context swap_event
begin

lemma select_rest:
  assumes ok: "sched_ok {} s" and c: "State (Threads s (CurrentThread s)) \<noteq> Running"
    and i: "State (Threads s (IdleThread s)) = Running" "IdleThread s \<noteq> NULL" "KiIdleSummary s = 0"
  shows "rest (SwitchFrom wake s (CurrentThread s))"
proof -
  note o = sched_okD [OF ok]
  have run: "t \<in> insert (IdleThread s) Y" if "State (Threads s t) = Running" for t Y
    using o(8) [of t] that c by (cases "t = IdleThread s") auto
  show ?thesis
  proof (cases rule: KiSelectNextThread_cases [OF ok refl])
    case 1
    let ?N = "NextThread s" and ?s = "s\<lparr>NextThread := NULL, CurrentThread := NextThread s\<rparr>"
    have st: "State (Threads s ?N) = Standby" by (rule o(6) [OF 1(1)])
    have ok': "sched_ok {?N} ?s"
      by (rule current_ok [OF ok]) (use run o(4) i(3) 1(1) in \<open>auto simp: top_priority_def\<close>)
    have "rest (SwapContext ?s ?N)"
      by (rule switched_rest [OF ok']) (use not_ready [OF ok', of ?N] st i 1(1) in auto)
    then show ?thesis using 1(2) by (simp add: SwitchFrom_def KiSwapContext_def)
  next
    case (2 p t)
    let ?s = "(Dequeue s p t)\<lparr>CurrentThread := t\<rparr>"
    note d = dequeued [OF ok 2(2)]
    have le: "q \<le> p" if "KiDispatcherReadyListHead (Dequeue s p t) q \<noteq> []" for q
      using that 2(5) [of q] by (cases "q = p") (auto simp: not_le intro: ccontr)
    have ok': "sched_ok {t} ?s"
      by (rule current_ok [OF d(1)]) (use run le i(3) 2(1) d(8) in auto)
    have "rest (SwapContext ?s t)"
      by (rule switched_rest [OF ok']) (use d 2(1) i in \<open>auto simp: queued_def unlinked_def\<close>)
    then show ?thesis using 2(4) by (simp add: SwitchFrom_def KiSwapContext_def)
  next
    case 3
    let ?I = "IdleThread s" and ?s = "s\<lparr>KiIdleSummary := 1, CurrentThread := IdleThread s\<rparr>"
    have ok': "sched_ok {?I} ?s"
      by (rule current_ok [OF ok]) (use run 3(1,2) in auto)
    have "rest (SwapContext ?s ?I)"
      by (rule switched_rest [OF ok']) (use not_ready [OF ok', of ?I] i 3(1) in auto)
    then show ?thesis using 3(3) by (simp add: SwitchFrom_def KiSwapContext_def)
  qed
qed

lemma KiIdleLoop_rest:
  assumes r: "rest s" and i: "CurrentThread s = IdleThread s"
  shows "rest (KiIdleLoop wake s)"
proof (cases "NextThread s = NULL")
  case True
  then show ?thesis using same_rest [OF r, of "s\<lparr>QuantumEnd := False\<rparr>"] by (simp add: KiIdleLoop_def same_def)
next
  case False
  let ?N = "NextThread s" and ?s = "s\<lparr>DispatchInterrupt := False, NextThread := NULL, CurrentThread := NextThread s\<rparr>"
  note r' = restD [OF r]
  note o = sched_okD [OF r'(1)]
  have st: "State (Threads s ?N) = Standby" by (rule o(6) [OF False])
  have sum: "KiIdleSummary s = 0" using o(5) False by auto
  have ok': "sched_ok {?N} ?s"
    by (rule current_ok [OF r'(1)]) (use o(8) o(4) sum False i in \<open>auto simp: top_priority_def\<close>)
  have "rest (SwapContext ?s ?N)"
    by (rule switched_rest [OF ok']) (use not_ready [OF ok', of ?N] st r' sum False in auto)
  then show ?thesis using False by (simp add: KiIdleLoop_def KiSwapContext_def)
qed

end

end
