(* ===== verification/Sched_Priority.thy ===== *)
theory Sched_Priority
  imports Sched_Switch
begin

text \<open>
  The change of a priority (\<open>KiSetPriorityThread\<close>), the end of a quantum and the dispatch
  interrupt keep the scheduler at rest.
\<close>

section \<open>A thread with a new priority\<close>

lemma priority_ok:
  assumes ok: "sched_ok X s" and q: "\<not> queued s T"
    and f: "f (Threads s T) = (Threads s T)\<lparr>Priority := New, PriorityDecrement := D, DecrementCount := c, Quantum := v\<rparr>" "New < 32" "0 \<le> D" "D \<le> 127"
    and top: "\<And>p. KiDispatcherReadyListHead s p \<noteq> [] \<Longrightarrow> p \<le> top_priority (upd_thread s T f)"
  shows "sched_ok X (upd_thread s T f)"
proof (rule sched_okI)
  let ?s = "upd_thread s T f"
  note o = sched_okD [OF ok]
  have e: "State (Threads ?s x) = State (Threads s x)" "ProcessReadyQueue (Threads ?s x) = ProcessReadyQueue (Threads s x)"
    "Process (Threads ?s x) = Process (Threads s x)" "WaitBlockList (Threads ?s x) = WaitBlockList (Threads s x)" for x using f(1) by simp_all
  show "queues_ok ?s"
  proof (rule queues_okI)
    fix p x assume x: "x \<in> set (KiDispatcherReadyListHead ?s p)"
    then have "x \<noteq> T" using q by (auto simp: queued_def)
    then show "x \<noteq> NULL \<and> State (Threads ?s x) = Ready \<and> Priority (Threads ?s x) = p \<and> \<not> ProcessReadyQueue (Threads ?s x)"
      using queues_okD(3) [OF o(1), of x p] x by simp
  qed (use queues_okD(1,2) [OF o(1)] in simp_all)
  show "procs_ok ?s" using o(2) unfolding procs_ok_def e by simp
  show "waits_ok X ?s" using o(3) unfolding waits_ok_def e by simp
  show "listed ?s t" if "t \<notin> X" "State (Threads ?s t) = Ready" for t
    using o(9) [of t] that unfolding listed_def e queued_def by simp
  show "prio_ok (Threads ?s t)" for t using o(10) [of t] f by (auto simp: prio_ok_def)
  show "State (Threads ?s (NextThread ?s)) = Standby" if "NextThread ?s \<noteq> NULL" using o(6) that unfolding e by simp
  show "t = NextThread ?s" if "t \<notin> insert NULL X" "State (Threads ?s t) = Standby" for t using o(7) [of t] that unfolding e by simp
  show "t = CurrentThread ?s" if "t \<notin> insert (IdleThread ?s) X" "State (Threads ?s t) = Running" for t using o(8) [of t] that unfolding e by simp
qed (use top sched_okD(5) [OF ok] in simp_all)

lemma priority_evolves:
  "f (Threads s T) = (Threads s T)\<lparr>Priority := New, PriorityDecrement := D, DecrementCount := c, Quantum := v\<rparr> \<Longrightarrow> evolves X s (upd_thread s T f)"
  by (simp add: evolves_def)

lemma new_priority_ok:
  assumes "sched_ok X s" "\<not> queued s T" "New < 32"
    and "\<And>p. KiDispatcherReadyListHead s p \<noteq> [] \<Longrightarrow> p \<le> top_priority (upd_thread s T (\<lambda>t. t\<lparr>Priority := New\<rparr>))"
  shows "sched_ok X (upd_thread s T (\<lambda>t. t\<lparr>Priority := New\<rparr>))" "evolves Z s (upd_thread s T (\<lambda>t. t\<lparr>Priority := New\<rparr>))"
proof -
  have "0 \<le> PriorityDecrement (Threads s T)" "PriorityDecrement (Threads s T) \<le> 127"
    using sched_okD(10) [OF assms(1)] by (simp_all add: prio_ok_def)
  then show "sched_ok X (upd_thread s T (\<lambda>t. t\<lparr>Priority := New\<rparr>))"
    by (intro priority_ok [OF assms(1,2) _ assms(3) _ _ assms(4), where D = "PriorityDecrement (Threads s T)" and c = "DecrementCount (Threads s T)" and v = "Quantum (Threads s T)"]) simp_all
  show "evolves Z s (upd_thread s T (\<lambda>t. t\<lparr>Priority := New\<rparr>))"
    by (rule priority_evolves [where D = "PriorityDecrement (Threads s T)" and c = "DecrementCount (Threads s T)" and v = "Quantum (Threads s T)"]) simp
qed

lemma evolves_drop:
  assumes "evolves {T} s s'" "State (Threads s T) \<noteq> Running" "State (Threads s T) = Standby \<Longrightarrow> NextThread s = T"
  shows "evolves {} s s'"
proof -
  note e = evolvesD [OF assms(1)]
  have "State (Threads s' x) = Running" if "State (Threads s x) = Running" for x using e(3) [of x] that assms(2) by (cases "x = T") auto
  moreover have "State (Threads s' x) = Standby \<and> NextThread s' \<noteq> x" if "State (Threads s x) = Standby" "NextThread s \<noteq> x" for x
    using e(4,5) [of x] that assms(3) by (cases "x = T") auto
  ultimately show ?thesis using e(1,2,6-12) unfolding evolves_def by blast
qed

lemma top_others:
  "T \<noteq> NextThread s \<Longrightarrow> NextThread s \<noteq> NULL \<or> T \<noteq> CurrentThread s \<Longrightarrow> top_priority (upd_thread s T f) = top_priority s"
  by (auto simp: top_priority_def)

lemma next_found:
  \<comment> \<open>a thread found in the ready queues becomes the next thread\<close>
  assumes ok: "sched_ok Y s" and t: "t \<in> set (KiDispatcherReadyListHead s p)"
    and p: "\<And>r. KiDispatcherReadyListHead s r \<noteq> [] \<Longrightarrow> r \<le> p" and Z: "Y \<subseteq> Z" "NextThread s \<noteq> NULL \<Longrightarrow> NextThread s \<in> Z"
  defines "s' \<equiv> (upd_thread (Dequeue s p t) t (\<lambda>x. x\<lparr>State := Standby\<rparr>))\<lparr>NextThread := t\<rparr>"
  shows "sched_ok Z s'" "\<And>x. x \<noteq> t \<Longrightarrow> Threads s' x = Threads s x" "Priority (Threads s' t) = p" "\<And>x. queued s' x \<Longrightarrow> queued s x"
    "NextThread s' = t" "CurrentThread s' = CurrentThread s" "evolves (insert (NextThread s) X) s s'" "t \<noteq> NextThread s" "t \<noteq> NULL"
proof -
  let ?d = "Dequeue s p t"
  note d = dequeued [OF ok t]
  have le: "r \<le> Priority (Threads ?d t)" if "KiDispatcherReadyListHead ?d r \<noteq> []" for r
    using p [of r] that d(8) t by (cases "r = p") auto
  have f: "frame t ?d s'" by (simp add: frame_def s'_def)
  have pr: "procs_ok s'" by (rule frame_procs [OF sched_okD(2) [OF d(1)] f]) (use d(6) in \<open>simp_all add: s'_def\<close>)
  have sum: "KiIdleSummary s = 0" using sched_okD(5) [OF ok] t by fastforce
  show "sched_ok Z s'" by (rule sched_ok_next [OF d(1-3,5) le f _ _ pr _ Z(1)]) (use sum Z(2) in \<open>simp_all add: s'_def\<close>)
  show "Threads s' x = Threads s x" if "x \<noteq> t" for x using that by (simp add: s'_def)
  show "Priority (Threads s' t) = p" using d(8) by (simp add: s'_def)
  show "queued s x" if "queued s' x" for x
    using that by (auto simp: queued_def s'_def split: if_splits dest: subsetD [OF set_remove1_subset])
  show "NextThread s' = t" "CurrentThread s' = CurrentThread s" by (simp_all add: s'_def)
  show "evolves (insert (NextThread s) X) s s'" using d(5,7) sum by (auto simp: evolves_def s'_def)
  show "t \<noteq> NextThread s" "t \<noteq> NULL" using d(4,5) by auto
qed

section \<open>\<open>KiSetPriorityThread\<close>\<close>

lemma priority_commutes:
  "Dequeue (upd_thread s T f) p t = upd_thread (Dequeue s p t) T f"
  "t \<noteq> T \<Longrightarrow> (upd_thread (upd_thread s T f) t g)\<lparr>NextThread := n\<rparr> = upd_thread ((upd_thread s t g)\<lparr>NextThread := n\<rparr>) T f"
  by (simp_all add: Dequeue_def upd_thread_def Let_def fun_upd_twist)

context swap_event
begin

lemma priority_ready:
  assumes r: "rest s" and T: "State (Threads s T) = Ready" "\<not> ProcessReadyQueue (Threads s T)" "New < 32" "New \<noteq> Priority (Threads s T)"
  shows "moves s (KiSetPriorityThread wake s T New)"
proof -
  let ?p = "Priority (Threads s T)" and ?f = "\<lambda>t. t\<lparr>Priority := New\<rparr>"
  let ?d = "Dequeue s ?p T"
  let ?s = "upd_thread ?d T ?f"
  note ok = restD(1) [OF r]
  note o = sched_okD [OF ok]
  have q: "T \<in> set (KiDispatcherReadyListHead s ?p)"
    using o(9) [of T] T queues_okD(3) [OF o(1)] by (auto simp: listed_def queued_def)
  note d = dequeued [OF ok q]
  have nC: "T \<noteq> CurrentThread s" using restD(2) [OF r] T(1) by auto
  have top: "top_priority ?s = top_priority s" using nC d(4) by (auto simp: top_priority_def)
  have ok': "sched_ok {T} ?s"
    by (rule new_priority_ok(1) [OF d(1,2) T(3)]) (use sched_okD(4) [OF d(1)] top in \<open>auto simp: top_priority_def\<close>)
  have T': "\<not> queued ?s T" "unlinked ?s T" "NextThread ?s \<noteq> T" "\<not> ProcessReadyQueue (Threads ?s T)" "awake ?s"
    using d T(2) restD(2) [OF r] by (simp_all add: queued_def unlinked_def awake_def)
  have ev: "evolves {T} s ?s" by (simp add: evolves_def)
  have e: "KiSetPriorityThread wake s T New = (if New < ?p then QueueTail ?s New T else KiReadyThread wake ?s T)"
    using T by (simp add: KiSetPriorityThread_def Let_def priority_commutes)
  show ?thesis
  proof (cases "New < ?p")
    case True
    have sum: "KiIdleSummary ?s = 0" using o(5) q by fastforce
    have tp: "New \<le> top_priority ?s" using True o(4) [of ?p] q top by fastforce
    have qs: "queues_ok (QueueTail ?s New T)" by (rule queue_ok(1) [OF sched_okD(1) [OF ok'] T'(1) d(5) T(3)]) (use T in simp_all)
    have qd: "queued (QueueTail ?s New T) T" unfolding queued_def by (intro exI [of _ New]) simp
    have "sched_ok {} (QueueTail ?s New T)"
      by (rule sched_ok_enqueued [OF ok' qs qd tp sum]) (use T in auto)
    moreover have "evolves {} s (QueueTail ?s New T)" by (simp add: evolves_def)
    ultimately show ?thesis using movesI [OF r] e True by simp
  next
    case False
    have "sched_ok {} (KiReadyThread wake ?s T)" by (rule KiReadyThread_ok [OF ok' T'(1-3) d(5) T'(4,5)])
    moreover have "evolves {} s (KiReadyThread wake ?s T)"
      by (rule evolves_drop [OF evolves_trans [OF ev KiReadyThread_evolves [OF ok' T'(1-3) d(5) T'(4,5)]]]) (use T(1) in simp_all)
    ultimately show ?thesis using movesI [OF r] e False by simp
  qed
qed

lemma priority_standby:
  assumes r: "rest s" and T: "State (Threads s T) = Standby" "T \<noteq> NULL" "New < 32" "New \<noteq> Priority (Threads s T)"
  shows "moves s (KiSetPriorityThread wake s T New)"
proof -
  let ?p = "Priority (Threads s T)" and ?f = "\<lambda>t. t\<lparr>Priority := New\<rparr>"
  let ?s = "upd_thread s T ?f"
  note ok = restD(1) [OF r]
  note o = sched_okD [OF ok]
  have n: "NextThread s = T" using o(7) [of T] T by simp
  have nq: "\<not> queued s T" "\<not> ProcessReadyQueue (Threads s T)" "unlinked s T" using not_ready [OF ok, of T] T(1) by simp_all
  have top: "top_priority s = ?p" "top_priority ?s = New" using n T(2) by (simp_all add: top_priority_def)
  have keep: "moves s ?s" if "\<And>q. KiDispatcherReadyListHead s q \<noteq> [] \<Longrightarrow> q \<le> New"
    by (rule movesI [OF r new_priority_ok [OF ok nq(1) T(3)]]) (use that top in simp_all)
  show ?thesis
  proof (cases "New < ?p")
    case False
    then have "q \<le> New" if "KiDispatcherReadyListHead s q \<noteq> []" for q using o(4) [OF that] top(1) by simp
    then show ?thesis using keep T False by (simp add: KiSetPriorityThread_def Let_def)
  next
    case True
    have p32: "?p < 32" using o(10) by (simp add: prio_ok_def)
    have qs: "queues_ok ?s"
      by (rule queues_okI) (use queues_okD [OF o(1)] nq(1) in \<open>auto simp: queued_def\<close>)
    obtain s' t where f: "KiFindReadyThread ?s ?p (New + 1) = (s', t)" by (cases "KiFindReadyThread ?s ?p (New + 1)")
    have "found ?s (New + 1) ?p (s', t)" using KiFindReadyThread_found [OF qs p32, of "New + 1"] f True p32 by simp
    then show ?thesis
    proof (cases rule: found_cases)
      case 2
      have "q \<le> New" if "KiDispatcherReadyListHead s q \<noteq> []" for q
        using o(4) [OF that] top(1) 2(3) [of q] that by (simp add: not_less_eq_eq [symmetric]) (metis Suc_leI not_le)
      then show ?thesis using keep T True f 2 by (simp add: KiSetPriorityThread_def Let_def)
    next
      case (1 q)
      have t: "t \<in> set (KiDispatcherReadyListHead s q)" using 1(3) by simp
      have le: "i \<le> q" if "KiDispatcherReadyListHead s i \<noteq> []" for i
        using 1(6) [of i] o(4) [OF that] top(1) that by (auto simp: not_le intro: ccontr)
      let ?n = "(upd_thread (Dequeue s q t) t (\<lambda>x. x\<lparr>State := Standby\<rparr>))\<lparr>NextThread := t\<rparr>"
      let ?t = "upd_thread ?n T ?f"
      have Z: "NextThread s \<noteq> NULL \<Longrightarrow> NextThread s \<in> {T}" using n by simp
      note nf = next_found [OF ok t le empty_subsetI Z]
      have tT: "t \<noteq> T" using nf(8) n by simp
      have nqn: "\<not> queued ?n T" using nf(4) nq(1) by blast
      have topn: "top_priority ?t = top_priority ?n" using tT nf(9) by (simp add: top_priority_def)
      have ok1: "sched_ok {T} ?t" and ev1: "evolves {T} ?n ?t"
        by (rule new_priority_ok [OF nf(1) nqn T(3)]; use sched_okD(4) [OF nf(1)] topn in simp)+
      have T': "\<not> queued ?t T" "unlinked ?t T" "NextThread ?t \<noteq> T" "\<not> ProcessReadyQueue (Threads ?t T)" "awake ?t"
        using nqn nq tT T(1) restD(2) [OF r] by (auto simp: queued_def unlinked_def awake_def)
      have e: "KiSetPriorityThread wake s T New = KiReadyThread wake ?t T"
        using T True f 1(5) dequeued(5) [OF ok t] priority_commutes(2) [OF tT]
        by (simp add: KiSetPriorityThread_def Let_def priority_commutes(1))
      have "evolves {T} s ?n" using nf(7) [of "{}"] n by simp
      then have ev: "evolves {T} s ?t" using ev1 by (rule evolves_trans)
      have "sched_ok {} (KiReadyThread wake ?t T)" by (rule KiReadyThread_ok [OF ok1 T'(1-3) T(2) T'(4,5)])
      moreover have "evolves {} s (KiReadyThread wake ?t T)"
        by (rule evolves_drop [OF evolves_trans [OF ev KiReadyThread_evolves [OF ok1 T'(1-3) T(2) T'(4,5)]]]) (use T(1) n in simp_all)
      ultimately show ?thesis using movesI [OF r] e by simp
    qed
  qed
qed

lemma priority_running:
  assumes r: "rest s" and T: "T = CurrentThread s" "New < 32" "New \<noteq> Priority (Threads s T)"
  shows "moves s (KiSetPriorityThread wake s T New)"
proof -
  let ?p = "Priority (Threads s T)" and ?f = "\<lambda>t. t\<lparr>Priority := New\<rparr>"
  let ?s = "upd_thread s T ?f"
  note ok = restD(1) [OF r]
  note o = sched_okD [OF ok]
  have st: "State (Threads s T) = Running" "T \<noteq> NULL" using restD(2,4) [OF r] T(1) by simp_all
  have nq: "\<not> queued s T" using not_ready(1) [OF ok, of T] st by simp
  have nN: "NextThread s \<noteq> T" using o(6) st by auto
  have keep: "moves s ?s" if "\<And>q. KiDispatcherReadyListHead s q \<noteq> [] \<Longrightarrow> q \<le> top_priority ?s"
    by (rule movesI [OF r new_priority_ok [OF ok nq T(2)]]) (use that in simp_all)
  show ?thesis
  proof (cases "NextThread s = NULL \<and> New < ?p")
    case False
    then have e: "KiSetPriorityThread wake s T New = ?s" using T st by (auto simp: KiSetPriorityThread_def Let_def)
    have "top_priority s \<le> top_priority ?s" using False nN T(1) by (auto simp: top_priority_def)
    then show ?thesis unfolding e by (intro keep) (use o(4) le_trans in blast)
  next
    case True
    have top: "top_priority s = ?p" "top_priority ?s = New" using True T(1) by (simp_all add: top_priority_def)
    have p32: "?p < 32" using o(10) by (simp add: prio_ok_def)
    have qs: "queues_ok ?s"
      by (rule queues_okI) (use queues_okD [OF o(1)] nq in \<open>auto simp: queued_def\<close>)
    obtain s' t where f: "KiFindReadyThread ?s ?p (New + 1) = (s', t)" by (cases "KiFindReadyThread ?s ?p (New + 1)")
    have "found ?s (New + 1) ?p (s', t)" using KiFindReadyThread_found [OF qs p32, of "New + 1"] f True p32 by simp
    then show ?thesis
    proof (cases rule: found_cases)
      case 2
      have "q \<le> New" if "KiDispatcherReadyListHead s q \<noteq> []" for q
        using o(4) [OF that] top(1) 2(3) [of q] that by (simp add: not_less_eq_eq [symmetric]) (metis Suc_leI not_le)
      then show ?thesis using keep T st True f 2 top by (simp add: KiSetPriorityThread_def Let_def)
    next
      case (1 q)
      have t: "t \<in> set (KiDispatcherReadyListHead s q)" using 1(3) by simp
      have le: "i \<le> q" if "KiDispatcherReadyListHead s i \<noteq> []" for i
        using 1(6) [of i] o(4) [OF that] top(1) that by (auto simp: not_le intro: ccontr)
      let ?n = "(upd_thread (Dequeue s q t) t (\<lambda>x. x\<lparr>State := Standby\<rparr>))\<lparr>NextThread := t\<rparr>"
      let ?t = "upd_thread ?n T ?f"
      have Z: "NextThread s \<noteq> NULL \<Longrightarrow> NextThread s \<in> {}" using True by simp
      note nf = next_found [OF ok t le empty_subsetI Z]
      have tT: "t \<noteq> T" using dequeued(7) [OF ok t] st by auto
      have nqn: "\<not> queued ?n T" using nf(4) nq by blast
      have topn: "top_priority ?t = top_priority ?n" using tT nf(9) by (simp add: top_priority_def)
      have ok1: "sched_ok {} ?t" by (rule new_priority_ok [OF nf(1) nqn T(2)]; use sched_okD(4) [OF nf(1)] topn in simp)
      have e: "KiSetPriorityThread wake s T New = ?t"
        using T st True f 1(5) dequeued(5) [OF ok t] priority_commutes(2) [OF tT]
        by (simp add: KiSetPriorityThread_def Let_def priority_commutes(1))
      have "evolves {} s ?t" using dequeued(5,7) [OF ok t] o(5) t True by (auto simp: evolves_def)
      then show ?thesis using movesI [OF r ok1] e by simp
    qed
  qed
qed

lemma KiSetPriorityThread_moves:
  assumes r: "rest s" and T: "T \<noteq> NULL" "New < 32" "T = IdleThread s \<Longrightarrow> T = CurrentThread s"
  shows "moves s (KiSetPriorityThread wake s T New)"
proof -
  note o = sched_okD [OF restD(1) [OF r]]
  let ?s = "upd_thread s T (\<lambda>t. t\<lparr>Priority := New\<rparr>)"
  consider "New = Priority (Threads s T)" | "New \<noteq> Priority (Threads s T)" "State (Threads s T) = Ready" "\<not> ProcessReadyQueue (Threads s T)" |
    "New \<noteq> Priority (Threads s T)" "State (Threads s T) = Standby" | "New \<noteq> Priority (Threads s T)" "State (Threads s T) = Running" |
    "New \<noteq> Priority (Threads s T)" "State (Threads s T) \<notin> {Standby, Running}" "State (Threads s T) = Ready \<longrightarrow> ProcessReadyQueue (Threads s T)"
    by blast
  then show ?thesis
  proof cases
    case 1
    then show ?thesis using same_moves [OF r, of s] by (simp add: KiSetPriorityThread_def same_def)
  next
    case 2
    then show ?thesis by (intro priority_ready [OF r] T(2))
  next
    case 3
    then show ?thesis by (intro priority_standby [OF r] T(1,2))
  next
    case 4
    then have "T = CurrentThread s" using o(8) [of T] T(3) by auto
    then show ?thesis using 4(1) T(2) by (intro priority_running [OF r])
  next
    case 5
    have nq: "\<not> queued s T" using 5(3) not_ready(1) [OF restD(1) [OF r], of T] queues_okD(3) [OF o(1), of T] by (auto simp: queued_def)
    have ne: "T \<noteq> CurrentThread s" "T \<noteq> NextThread s" using restD(2) [OF r] o(6) 5(2) T(1) by auto
    have "moves s ?s" by (rule movesI [OF r new_priority_ok [OF restD(1) [OF r] nq T(2)]]) (use o(4) top_others [OF ne(2)] ne(1) in simp_all)
    moreover have "KiSetPriorityThread wake s T New = ?s"
      using 5 by (cases "State (Threads s T)") (simp_all add: KiSetPriorityThread_def Let_def)
    ultimately show ?thesis by simp
  qed
qed

section \<open>The end of a quantum\<close>

lemma find_same_moves:
  \<comment> \<open>another thread of the priority of the running thread is taken, if there is one\<close>
  assumes r: "rest s" and n: "NextThread s = NULL" and p: "p = Priority (Threads s (CurrentThread s))"
  shows "moves s (let (s, Next) = KiFindReadyThread s p p
    in if Next \<noteq> NULL then (upd_thread s Next (\<lambda>t. t\<lparr>State := Standby\<rparr>))\<lparr>NextThread := Next\<rparr> else s)"
proof -
  note ok = restD(1) [OF r]
  note o = sched_okD [OF ok]
  have p32: "p < 32" using o(10) p by (simp add: prio_ok_def)
  obtain s' t where f: "KiFindReadyThread s p p = (s', t)" by (cases "KiFindReadyThread s p p")
  have "found s p p (s', t)" using KiFindReadyThread_found [OF o(1) p32 p32] f by simp
  then show ?thesis
  proof (cases rule: found_cases)
    case 2
    then show ?thesis using same_moves [OF r, of s] f by (simp add: same_def)
  next
    case (1 q)
    have qp: "q = p" using 1(1,2) by simp
    have t: "t \<in> set (KiDispatcherReadyListHead s p)" using 1(3) qp by simp
    have le: "i \<le> p" if "KiDispatcherReadyListHead s i \<noteq> []" for i using o(4) [OF that] n p by (simp add: top_priority_def)
    have Z: "NextThread s \<noteq> NULL \<Longrightarrow> NextThread s \<in> {}" using n by simp
    note nf = next_found [OF ok t le empty_subsetI Z]
    let ?n = "(upd_thread (Dequeue s p t) t (\<lambda>x. x\<lparr>State := Standby\<rparr>))\<lparr>NextThread := t\<rparr>"
    have "evolves {} s ?n" using dequeued(5,7) [OF ok t] o(5) t n by (auto simp: evolves_def)
    then show ?thesis using movesI [OF r nf(1)] f 1(5) qp nf(9) by simp
  qed
qed

lemma KiQuantumEnd_moves:
  assumes r: "rest s"
  shows "moves s (KiQuantumEnd wake s)"
proof (cases "Quantum (Threads s (CurrentThread s)) \<le> 0")
  case False
  then show ?thesis using same_moves [OF r, of s] by (simp add: KiQuantumEnd_def same_def)
next
  case True
  let ?T = "CurrentThread s" and ?P = "Priority (Threads s (CurrentThread s))" and ?B = "BasePriority (Threads s (CurrentThread s))"
  let ?D = "PriorityDecrement (Threads s (CurrentThread s))"
  define s1 where "s1 = upd_thread s ?T (\<lambda>t. t\<lparr>Quantum := ThreadQuantum (Processes s (Process t))\<rparr>)"
  define s2 where "s2 = (if ?P < 16 then upd_thread s1 ?T (\<lambda>t. t\<lparr>PriorityDecrement := 0\<rparr>) else s1)"
  define New where "New = (if ?P < 16 then max (int ?P - ?D - 1) (int ?B) else int ?P)"
  have pr: "?P < 32" "?B < 32" "0 \<le> ?D" using sched_okD(10) [OF restD(1) [OF r], of ?T] by (simp_all add: prio_ok_def)
  have sm: "same s s2" by (simp add: s1_def s2_def same_def prio_ok_def)
  have s2: "CurrentThread s2 = ?T" "Priority (Threads s2 ?T) = ?P" using sm by (simp_all add: same_def)
  have r2: "rest s2" by (rule same_rest [OF r sm])
  have N: "nat New < 32" using pr by (auto simp: New_def)
  have e: "KiQuantumEnd wake s = (if int ?P \<noteq> New then KiSetPriorityThread wake s2 ?T (nat New)
      else if NextThread s2 = NULL then let (s, Next) = KiFindReadyThread s2 ?P ?P
        in if Next \<noteq> NULL then (upd_thread s Next (\<lambda>t. t\<lparr>State := Standby\<rparr>))\<lparr>NextThread := Next\<rparr> else s
      else upd_thread s2 ?T (\<lambda>t. t\<lparr>Preempted := False\<rparr>))"
    using True by (simp add: KiQuantumEnd_def Let_def New_def s2_def s1_def)
  have "moves s2 (KiSetPriorityThread wake s2 ?T (nat New))"
    by (rule KiSetPriorityThread_moves [OF r2 restD(4) [OF r] N]) (simp add: s2)
  moreover have "moves s2 (upd_thread s2 ?T (\<lambda>t. t\<lparr>Preempted := False\<rparr>))" by (rule same_moves [OF r2]) (simp add: same_def)
  ultimately have "moves s2 (KiQuantumEnd wake s)"
    unfolding e using find_same_moves [OF r2 _ s2(2) [symmetric, folded s2(1)]] s2 by simp
  then show ?thesis by (rule moves_trans [OF same_moves [OF r sm]])
qed

lemma KiDispatchInterrupt_rest:
  assumes "rest s" "CurrentThread s \<noteq> IdleThread s"
  shows "rest (KiDispatchInterrupt wake s)"
proof -
  let ?s = "s\<lparr>QuantumEnd := False\<rparr>"
  have sm: "moves s s" "moves s ?s" by (rule same_moves [OF assms(1)]; simp add: same_def)+
  have "rest ?s" using sm(2) by (simp add: moves_def)
  then have q: "moves s (KiQuantumEnd wake ?s)" by (intro moves_trans [OF sm(2)] KiQuantumEnd_moves)
  define t where "t = (if QuantumEnd s then KiQuantumEnd wake ?s else s)"
  have t: "moves s t" using q sm(1) by (simp add: t_def)
  then have "rest t" "CurrentThread t \<noteq> IdleThread t" using assms(2) evolvesD(1,2) [of "{}" s t] by (simp_all add: moves_def)
  then show ?thesis using SwitchToNext_rest [of t] by (simp add: KiDispatchInterrupt_def Let_def t_def [symmetric])
qed

end

end
