(* ===== verification/Sched_Balance.thy ===== *)
theory Sched_Balance
  imports Sched_Priority
begin

text \<open>
  The balance set manager: threads whose stack or process is in memory again, and threads that
  were ready for too long, are readied; the scans end and keep the scheduler at rest.
\<close>

section \<open>Readying a thread from a state at rest\<close>

lemma sched_ok_exempt: "sched_ok Y s \<Longrightarrow> Y \<subseteq> X \<Longrightarrow> sched_ok X s"
  unfolding sched_ok_def waits_ok_def by blast

lemma rest_via:
  assumes r: "rest s" and s': "CurrentThread s' = CurrentThread s" "IdleThread s' = IdleThread s" "NextThread s' = NextThread s"
    "KiIdleSummary s' = KiIdleSummary s" "\<And>x. State (Threads s' x) = State (Threads s x)" and t: "sched_ok {} t" "evolves {} s' t"
  shows "rest t" "CurrentThread t = CurrentThread s" "IdleThread t = IdleThread s"
proof -
  note r' = restD [OF r] and e = evolvesD [OF t(2)]
  show c: "CurrentThread t = CurrentThread s" "IdleThread t = IdleThread s" using e(1,2) s' by simp_all
  show "rest t"
  proof (rule restI [OF t(1)])
    show "State (Threads t (CurrentThread t)) = Running" "State (Threads t (IdleThread t)) = Running"
      unfolding c using e(3) r'(2,3) s'(5) by simp_all
    show "CurrentThread t \<noteq> NULL" "IdleThread t \<noteq> NULL" unfolding c by (rule r'(4,5))+
    show "NextThread t \<noteq> NULL \<or> KiIdleSummary t \<noteq> 0" if "CurrentThread t = IdleThread t"
      by (rule e(6)) (use r'(6) that c s' in simp)
    show "CurrentThread t = IdleThread t" if "KiIdleSummary t \<noteq> 0" using that e(7) r'(7) s'(4) c by force
  qed
qed

context swap_event
begin

lemma ready_moves:
  assumes r: "rest s0" "evolves {} s0 s" and ok: "sched_ok {T} s" and q: "\<not> queued s T" "unlinked s T" "T \<noteq> NULL" "\<not> ProcessReadyQueue (Threads s T)"
    and st: "State (Threads s T) \<noteq> Running" "State (Threads s T) \<noteq> Standby"
  shows "moves s0 (KiReadyThread wake s T)" "grows s (KiReadyThread wake s T)" "evolves {} s (KiReadyThread wake s T)"
proof -
  have n: "NextThread s \<noteq> T" using sched_okD(6) [OF ok] q(3) st(2) by auto
  have aw: "awake s" using restD(2) [OF r(1)] evolvesD(1,3) [OF r(2)] by (simp add: awake_def)
  have ok': "sched_ok {} (KiReadyThread wake s T)" by (rule KiReadyThread_ok [OF ok q(1,2) n q(3,4) aw])
  have "evolves {T} s (KiReadyThread wake s T)" by (rule KiReadyThread_evolves [OF ok q(1,2) n q(3,4) aw])
  then show ev: "evolves {} s (KiReadyThread wake s T)" by (rule evolves_drop) (use st in simp_all)
  show "moves s0 (KiReadyThread wake s T)" by (rule movesI [OF r(1) ok' evolves_trans [OF r(2) ev]])
  show "grows s (KiReadyThread wake s T)" by (rule KiReadyThread_grows [OF ok q(1,2) n q(3,4) aw])
qed

lemma StackInSwapped_moves:
  assumes r: "rest s" and T: "State (Threads s T) = Transition" "T \<noteq> NULL"
  shows "moves s (StackInSwapped wake s T)"
proof -
  let ?s = "upd_thread s T (\<lambda>t. t\<lparr>KernelStackResident := True\<rparr>)"
  have sm: "same s ?s" by (simp add: same_def prio_ok_def)
  have ok: "sched_ok {} ?s" by (rule same_ok [OF restD(1) [OF r] sm])
  show ?thesis unfolding StackInSwapped_def
    by (rule ready_moves [OF r same_evolves [OF sm] sched_ok_exempt [OF ok empty_subsetI]])
      (use not_ready [OF ok, of T] T in simp_all)
qed

section \<open>A process that is in memory again\<close>

lemma unlisted_ok:
  \<comment> \<open>the first thread of the ready list of a process is taken from it\<close>
  assumes ok: "sched_ok {} s" and l: "ReadyListHead (Processes s Proc) = T # others"
  defines "s' \<equiv> upd_thread (upd_process s Proc (\<lambda>p. p\<lparr>ReadyListHead := others\<rparr>)) T (\<lambda>t. t\<lparr>ProcessReadyQueue := False\<rparr>)"
  shows "sched_ok {T} s'" "\<not> queued s' T" "unlinked s' T" "T \<noteq> NULL" "\<not> ProcessReadyQueue (Threads s' T)" "State (Threads s' T) = Ready"
proof -
  note o = sched_okD [OF ok]
  note p = procs_okD [OF o(2)]
  have T: "T \<noteq> NULL" "ProcessReadyQueue (Threads s T)" "Process (Threads s T) = Proc" using p(2) [of T Proc] l by simp_all
  have st: "State (Threads s T) = Ready" by (rule p(3) [OF T(2)])
  have nq: "\<not> queued s T" using queues_okD(3) [OF o(1), of T] T(2) by (auto simp: queued_def)
  have d: "distinct (T # others)" using p(1) [of Proc] l by simp
  have only: "T \<notin> set (ReadyListHead (Processes s P))" if "P \<noteq> Proc" for P using p(2) [of T P] T(3) that by auto
  show "T \<noteq> NULL" "\<not> ProcessReadyQueue (Threads s' T)" "State (Threads s' T) = Ready" using T st by (simp_all add: s'_def)
  show "\<not> queued s' T" "unlinked s' T" using nq not_ready(3) [OF ok, of T] st by (simp_all add: queued_def unlinked_def s'_def)
  have e: "State (Threads s' x) = State (Threads s x)" "Priority (Threads s' x) = Priority (Threads s x)"
    "WaitBlockList (Threads s' x) = WaitBlockList (Threads s x)" "Process (Threads s' x) = Process (Threads s x)" for x by (simp_all add: s'_def)
  show "sched_ok {T} s'"
  proof (rule sched_okI)
    show "queues_ok s'"
      by (rule queues_ok_other [OF o(1) nq]) (simp_all add: s'_def)
    show "procs_ok s'"
    proof (rule procs_okI)
      show "distinct (ReadyListHead (Processes s' P))" for P using d p(1) [of P] by (simp add: s'_def)
      show "t \<noteq> NULL \<and> ProcessReadyQueue (Threads s' t) \<and> Process (Threads s' t) = P" if "t \<in> set (ReadyListHead (Processes s' P))" for P t
      proof -
        have "t \<in> set (ReadyListHead (Processes s P))" "t \<noteq> T" using that l d only [of P] by (auto simp: s'_def split: if_splits)
        then show ?thesis using p(2) [of t P] by (simp add: s'_def)
      qed
      show "State (Threads s' t) = Ready" if "ProcessReadyQueue (Threads s' t)" for t
        using p(3) [of t] that unfolding e by (simp add: s'_def split: if_splits)
    qed
    have "waits_ok {} s'" using o(3) unfolding waits_ok_def e by (simp add: s'_def)
    then show "waits_ok {T} s'" by (simp add: waits_ok_def)
    show "p \<le> top_priority s'" if "KiDispatcherReadyListHead s' p \<noteq> []" for p
    proof -
      have "top_priority s' = top_priority s" unfolding top_priority_def e by (simp add: s'_def)
      then show ?thesis using o(4) [of p] that by (simp add: s'_def)
    qed
    show "NextThread s' = NULL \<and> (\<forall>p. KiDispatcherReadyListHead s' p = [])" if "KiIdleSummary s' \<noteq> 0" using o(5) that by (simp add: s'_def)
    show "State (Threads s' (NextThread s')) = Standby" if "NextThread s' \<noteq> NULL" using o(6) that unfolding e by (simp add: s'_def)
    show "t = NextThread s'" if "t \<notin> insert NULL {T}" "State (Threads s' t) = Standby" for t using o(7) [of t] that unfolding e by (simp add: s'_def)
    show "t = CurrentThread s'" if "t \<notin> insert (IdleThread s') {T}" "State (Threads s' t) = Running" for t
      using o(8) [of t] that unfolding e by (simp add: s'_def)
    show "listed s' t" if "t \<notin> {T}" "State (Threads s' t) = Ready" for t
    proof -
      have "listed s t" using o(9) [of t] that unfolding e by simp
      then show ?thesis using that(1) l unfolding listed_def queued_def by (auto simp: s'_def split: if_splits)
    qed
    show "prio_ok (Threads s' t)" for t using o(10) [of t] by (auto simp: s'_def)
  qed
qed

lemma ReadyProcess_rest:
  assumes "rest s" "ProcessState (Processes s Proc) = ProcessInMemory"
  shows "\<exists>s'. ReadyProcess wake s Proc = Some s' \<and> rest s' \<and> CurrentThread s' = CurrentThread s \<and> IdleThread s' = IdleThread s \<and>
    ReadyListHead (Processes s' Proc) = []"
  using assms
proof (induction "length (ReadyListHead (Processes s Proc))" arbitrary: s)
  case 0
  then have "ReadyProcess wake s Proc = Some s" by (subst ReadyProcess.simps) simp
  then show ?case using 0 by simp
next
  case (Suc n)
  obtain T others where l: "ReadyListHead (Processes s Proc) = T # others" using Suc.hyps(2) by (cases "ReadyListHead (Processes s Proc)") auto
  let ?s = "upd_thread (upd_process s Proc (\<lambda>p. p\<lparr>ReadyListHead := others\<rparr>)) T (\<lambda>t. t\<lparr>ProcessReadyQueue := False\<rparr>)"
  let ?t = "KiReadyThread wake ?s T"
  note u = unlisted_ok [OF restD(1) [OF Suc.prems(1)] l]
  have n: "NextThread ?s \<noteq> T" using sched_okD(6) [OF u(1)] u(4,6) by auto
  have aw: "awake ?s" using restD(2) [OF Suc.prems(1)] by (auto simp: awake_def)
  have ev: "evolves {} ?s ?t"
    by (rule evolves_drop [OF KiReadyThread_evolves [OF u(1-3) n u(4,5) aw]]) (use u(6) in simp_all)
  have ok: "sched_ok {} ?t" by (rule KiReadyThread_ok [OF u(1-3) n u(4,5) aw])
  have st: "ProcessState (Processes ?t Proc) = ProcessInMemory" "ReadyListHead (Processes ?t Proc) = others"
    using evolvesD(8,9) [OF ev, of Proc] Suc.prems(2) by simp_all
  have r: "rest ?t" "CurrentThread ?t = CurrentThread s" "IdleThread ?t = IdleThread s"
    by (rule rest_via [OF Suc.prems(1) _ _ _ _ _ ok ev]; simp)+
  have e: "ReadyProcess wake s Proc = ReadyProcess wake ?t Proc" using l by (subst ReadyProcess.simps) (simp add: Let_def)
  show ?case unfolding e using Suc.hyps(1) [of ?t] Suc.hyps(2) l st r by simp
qed

lemma ProcessInSwapped_rest:
  assumes r: "rest s"
  shows "\<exists>s'. ProcessInSwapped wake s Proc = Some s' \<and> rest s' \<and> ReadyListHead (Processes s' Proc) = []"
proof -
  let ?s = "upd_process s Proc (\<lambda>p. p\<lparr>ProcessState := ProcessInMemory\<rparr>)"
  have "rest ?s" by (rule same_rest [OF r]) (simp add: same_def)
  from ReadyProcess_rest [OF this, of Proc] show ?thesis by (auto simp: ProcessInSwapped_def)
qed

lemma ProcessOutSwap_rest:
  assumes r: "rest s" and p: "ProcessState (Processes s Proc) \<noteq> ProcessInMemory"
  shows "\<exists>s'. ProcessOutSwap wake s Proc = Some s' \<and> rest s' \<and> ReadyListHead (Processes s' Proc) = []"
proof (cases "ReadyListHead (Processes s Proc) = []")
  case False
  then show ?thesis using ProcessInSwapped_rest [OF r, of Proc] by (simp add: ProcessOutSwap_def ProcessInSwapped_def)
next
  case True
  have "rest (upd_process s Proc (\<lambda>p. p\<lparr>ProcessState := ProcessOutOfMemory\<rparr>))" by (rule same_rest [OF r]) (simp add: same_def p)
  then show ?thesis using True by (simp add: ProcessOutSwap_def)
qed

section \<open>Threads that were ready for too long\<close>

definition keeps_queues :: "nat \<Rightarrow> sched \<Rightarrow> sched \<Rightarrow> bool" where
  \<comment> \<open>no ready queue but that of the priority \<open>i\<close> becomes empty\<close>
  "keeps_queues i s s' \<longleftrightarrow> (\<forall>q. q \<noteq> i \<longrightarrow> KiDispatcherReadyListHead s q \<noteq> [] \<longrightarrow> KiDispatcherReadyListHead s' q \<noteq> [])"

lemma keeps_queues_trans: "keeps_queues i s s' \<Longrightarrow> keeps_queues i s' s'' \<Longrightarrow> keeps_queues i s s''"
  by (simp add: keeps_queues_def)

lemma BoostThread_moves:
  assumes r: "rest s" and T: "T \<in> set (KiDispatcherReadyListHead s Index)" "Index \<le> 13"
  shows "moves s (BoostThread wake s Index T)" "keeps_queues Index s (BoostThread wake s Index T)"
proof -
  let ?d = "Dequeue s Index T"
  let ?f = "\<lambda>t. t\<lparr>PriorityDecrement := 14 - int (Priority t), DecrementCount := KiDecrementCount s, Priority := 14,
    Quantum := schar (ThreadQuantum (Processes s (Process t)) * 2)\<rparr>"
  let ?s = "upd_thread ?d T ?f"
  note ok = restD(1) [OF r]
  note d = dequeued [OF ok T(1)]
  have nC: "T \<noteq> CurrentThread s" using restD(2) [OF r] d(7) by auto
  have top: "top_priority ?s = top_priority ?d" by (rule top_others) (use d(4) nC in auto)
  have f: "?f (Threads ?d T) = (Threads ?d T)\<lparr>Priority := 14, PriorityDecrement := 14 - int Index, DecrementCount := KiDecrementCount s,
    Quantum := schar (ThreadQuantum (Processes s (Process (Threads s T))) * 2)\<rparr>" by (rule KTHREAD.equality) (simp_all add: d(8))
  have ok': "sched_ok {T} ?s"
    by (rule priority_ok [where f = ?f, OF d(1,2) f])
      (use d(8) T(2) top sched_okD(4) [OF d(1)] in \<open>simp_all\<close>)
  have T': "\<not> queued ?s T" "unlinked ?s T" "\<not> ProcessReadyQueue (Threads ?s T)" "State (Threads ?s T) = Ready"
    using d(2,3,6,7) by (simp_all add: queued_def unlinked_def)
  have ev: "evolves {} s ?s" by (simp add: evolves_def)
  have e: "BoostThread wake s Index T = KiReadyThread wake ?s T"
    by (simp add: BoostThread_def Let_def upd_thread_def)
  note m = ready_moves [OF r ev ok' T'(1,2) d(5) T'(3)]
  show "moves s (BoostThread wake s Index T)" unfolding e by (rule m(1)) (use T'(4) in simp_all)
  have "grows ?s (KiReadyThread wake ?s T)" by (rule m(2)) (use T'(4) in simp_all)
  then have "set (KiDispatcherReadyListHead s q) \<subseteq> set (KiDispatcherReadyListHead (KiReadyThread wake ?s T) q)" if "q \<noteq> Index" for q
    using that unfolding grows_def by (metis (no_types, lifting) queue_lists(3) upd_thread_simps(4))
  then show "keeps_queues Index s (BoostThread wake s Index T)" unfolding e keeps_queues_def by fastforce
qed

lemma ScanReadyList_moves:
  assumes "rest s" "Index \<le> 13" "Number \<noteq> 0 \<Longrightarrow> Entry < length (KiDispatcherReadyListHead s Index)"
  shows "moves s (fst (ScanReadyList wake Tick Index s Entry Number Count)) \<and>
    keeps_queues Index s (fst (ScanReadyList wake Tick Index s Entry Number Count))"
  using assms
proof (induction Number arbitrary: s Entry Count)
  case 0
  then show ?case using same_moves [OF 0(1), of s] by (simp add: same_def keeps_queues_def)
next
  case (Suc Number)
  let ?T = "KiDispatcherReadyListHead s Index ! Entry"
  define b where "b \<longleftrightarrow> 300 \<le> u32_sub Tick (WaitTime (Threads s ?T)) \<and> PriorityDecrement (Threads s ?T) = 0"
  define t where "t = (if b then BoostThread wake s Index ?T else s)"
  define C where "C = (if b then Count - 1 else Count)"
  define E where "E = (if b then Entry else Entry + 1)"
  have mem: "?T \<in> set (KiDispatcherReadyListHead s Index)" using Suc.prems(3) by simp
  have id: "moves s s" "keeps_queues Index s s" using same_moves [OF Suc.prems(1), of s] by (simp_all add: same_def keeps_queues_def)
  have t: "moves s t" "keeps_queues Index s t" using BoostThread_moves [OF Suc.prems(1) mem Suc.prems(2)] id by (simp_all add: t_def)
  have e: "ScanReadyList wake Tick Index s Entry (Suc Number) Count =
      (if E < length (KiDispatcherReadyListHead t Index) \<and> Number \<noteq> 0 \<and> C \<noteq> 0
       then ScanReadyList wake Tick Index t E Number C else (t, Number, C))"
    by (simp only: ScanReadyList.simps Let_def b_def [symmetric] t_def [symmetric] C_def [symmetric] E_def [symmetric])
  have "rest t" using t(1) by (simp add: moves_def)
  then show ?case using Suc.IH [of t E C] Suc.prems(2) t moves_trans keeps_queues_trans unfolding e by auto
qed

definition scan_ok :: "32 word \<Rightarrow> sched \<Rightarrow> bool" where
  \<comment> \<open>the priorities still to be scanned\<close>
  "scan_ok Summary s \<longleftrightarrow> (\<forall>i. bit Summary i \<longrightarrow> 1 \<le> i \<and> i \<le> 13 \<and> KiDispatcherReadyListHead s i \<noteq> [])"

definition scan_measure :: "32 word \<Rightarrow> nat \<Rightarrow> nat" where
  "scan_measure Summary Index =
     (let I = (if Index > 13 then 1 else Index)
      in 28 * card {i. bit Summary i} + (if \<exists>i\<ge>I. bit Summary i then 14 - I else 28 - I))"

lemma finite_bits: "finite {i. bit (w :: 32 word) i}"
  by (rule finite_subset [of _ "{..<32}"]) (auto dest: bit_imp_le_length)

lemma scan_clear:
  assumes "bit Summary I"
  shows "scan_measure (Summary XOR push_bit I 1) J < scan_measure Summary K"
proof -
  have b: "bit (Summary XOR push_bit I 1) i \<longleftrightarrow> bit Summary i \<and> i \<noteq> I" for i
    using assms bit_imp_le_length [OF assms] by (auto simp: bit_simps)
  then have "{i. bit (Summary XOR push_bit I 1) i} \<subset> {i. bit Summary i}" using assms by auto
  then have c: "card {i. bit (Summary XOR push_bit I 1) i} < card {i. bit Summary i}" by (rule psubset_card_mono [OF finite_bits])
  have "scan_measure (Summary XOR push_bit I 1) J \<le> 28 * card {i. bit (Summary XOR push_bit I 1) i} + 28"
    unfolding scan_measure_def Let_def by (auto intro: le_trans)
  also have "\<dots> \<le> 28 * card {i. bit Summary i}" using c by linarith
  also have "\<dots> < scan_measure Summary K" by (auto simp: scan_measure_def Let_def)
  finally show ?thesis .
qed

lemma scan_skip:
  assumes "scan_ok Summary s" "Summary \<noteq> 0" "\<not> bit Summary (if Index > 13 then 1 else Index)"
  shows "scan_measure Summary ((if Index > 13 then 1 else Index) + 1) < scan_measure Summary Index"
proof -
  define I where "I = (if Index > 13 then 1 else Index)"
  have I: "I \<le> 13" by (simp add: I_def)
  obtain i where i: "bit Summary i" using assms(2) bit_eq_iff [of Summary 0] by auto
  have i': "1 \<le> i" "i \<le> 13" using assms(1) i by (auto simp: scan_ok_def)
  have up: "(\<exists>j\<ge>I. bit Summary j) \<longleftrightarrow> (\<exists>j\<ge>Suc I. bit Summary j)" 
    using assms(3) unfolding I_def [symmetric] by (metis Suc_leD Suc_leI le_less)
  have no: "\<not> (\<exists>j\<ge>14. bit Summary j)" using assms(1) by (auto simp: scan_ok_def)
  have m: "scan_measure Summary Index = 28 * card {i. bit Summary i} + (if \<exists>j\<ge>I. bit Summary j then 14 - I else 28 - I)"
    unfolding scan_measure_def Let_def I_def ..
  show ?thesis
  proof (cases "I = 13")
    case True
    then have "\<not> (\<exists>j\<ge>I. bit Summary j)" using up no by simp
    moreover have "\<exists>j\<ge>1. bit Summary j" using i i' by auto
    ultimately show ?thesis using True m by (simp add: I_def [symmetric] scan_measure_def)
  next
    case False
    then have "scan_measure Summary (Suc I) = 28 * card {i. bit Summary i} + (if \<exists>j\<ge>Suc I. bit Summary j then 14 - Suc I else 28 - Suc I)"
      using I by (simp add: scan_measure_def)
    then show ?thesis using I False up m unfolding I_def [symmetric] by simp arith
  qed
qed

lemma ScanReadyQueues_moves:
  assumes "rest s" "scan_ok Summary s" "Summary \<noteq> 0"
  shows "\<exists>r. ScanReadyQueues wake Tick Summary s Index Number Count = Some r \<and> moves s (fst r)"
  using assms
proof (induction "scan_measure Summary Index" arbitrary: s Summary Index Number Count rule: less_induct)
  case less
  define I where "I = (if Index > 13 then 1 else Index)"
  define S where "S = (if bit Summary I then Summary XOR push_bit I 1 else Summary)"
  obtain t N C where t: "(if bit Summary I then ScanReadyList wake Tick I s 0 Number Count else (s, Number, Count)) = (t, N, C)"
    by (metis prod_cases3)
  have e: "ScanReadyQueues wake Tick Summary s Index Number Count =
      (if S \<noteq> 0 \<and> N \<noteq> 0 \<and> C \<noteq> 0 then ScanReadyQueues wake Tick S t (I + 1) N C else Some (t, I + 1, N, C))"
    by (subst ScanReadyQueues.simps) (simp add: Let_def I_def [symmetric] t S_def)
  have lt: "scan_measure S (I + 1) < scan_measure Summary Index"
    using scan_clear [of Summary I] scan_skip [OF less.prems(2,3), of Index] by (auto simp: S_def I_def [symmetric])
  have mt: "moves s t \<and> (\<forall>i. i \<noteq> I \<longrightarrow> KiDispatcherReadyListHead s i \<noteq> [] \<longrightarrow> KiDispatcherReadyListHead t i \<noteq> [])
      \<and> (bit Summary I \<or> t = s)"
  proof (cases "bit Summary I")
    case True
    then have "I \<le> 13" "KiDispatcherReadyListHead s I \<noteq> []" using less.prems(2) by (auto simp: scan_ok_def)
    then show ?thesis using ScanReadyList_moves [OF less.prems(1), of I Number 0 Tick Count] t True by (auto simp: keeps_queues_def)
  next
    case False
    then show ?thesis using t same_moves [OF less.prems(1), of s] by (simp add: same_def)
  qed
  have "scan_ok S t"
    using less.prems(2) mt unfolding scan_ok_def S_def by (auto simp: bit_simps split: if_splits)
  then have "S \<noteq> 0 \<Longrightarrow> \<exists>r. ScanReadyQueues wake Tick S t (I + 1) N C = Some r \<and> moves t (fst r)"
    using less.hyps [OF lt, of t N C] mt by (simp add: moves_def)
  then show ?case unfolding e using mt moves_trans by (auto split: if_splits)
qed

lemma KiScanReadyQueues_rest:
  assumes r: "rest s" and i: "OldIrql < 2 \<Longrightarrow> CurrentThread s \<noteq> IdleThread s"
  shows "\<exists>s'. KiScanReadyQueues wake s OldIrql junk = Some s' \<and> rest s'"
proof -
  define S where "S = KiReadySummary s AND (push_bit 14 1 - 2)"
  have "bit (push_bit 14 1 - 2 :: 32 word) j \<Longrightarrow> 1 \<le> j \<and> j \<le> 13" for j
  proof -
    assume b: "bit (push_bit 14 1 - 2 :: 32 word) j"
    have "(push_bit 14 1 - 2 :: 32 word) = push_bit 1 (mask 13)" by (simp add: mask_eq_exp_minus_1 push_bit_eq_mult)
    then have "bit (push_bit 1 (mask 13) :: 32 word) j" using b by metis
    then show "1 \<le> j \<and> j \<le> 13" unfolding bit_push_bit_iff bit_mask_iff by auto
  qed
  then have ok: "scan_ok S s"
    using queues_okD(1) [OF sched_okD(1) [OF restD(1) [OF r]]] unfolding scan_ok_def S_def bit_and_iff by blast
  have "moves s s" by (rule same_moves [OF r]) (simp add: same_def)
  then have "\<exists>q. (if S \<noteq> 0 then ScanReadyQueues wake (TickCountLow s) S s (KiReadyQueueIndex s) 16 10 else Some (s, junk)) = Some q \<and> moves s (fst q)"
    using ScanReadyQueues_moves [OF r ok] by (cases junk) simp
  then obtain t I N C where t: "(if S \<noteq> 0 then ScanReadyQueues wake (TickCountLow s) S s (KiReadyQueueIndex s) 16 10 else Some (s, junk)) = Some (t, I, N, C)"
      and m: "moves s t" by auto
  let ?u = "KiUnlockDispatcherDatabase wake t OldIrql"
  have "rest ?u"
    by (rule KiUnlockDispatcherDatabase_rest) (use m i evolvesD(1,2) [of "{}" s t] in \<open>simp_all add: moves_def\<close>)
  then have "rest (?u\<lparr>KiReadyQueueIndex := v\<rparr>)" for v by (rule same_rest) (simp add: same_def)
  then show ?thesis using t unfolding KiScanReadyQueues_def Let_def S_def by simp
qed

end

end
