(* ===== verification/Wait_Test.thy ===== *)
theory Wait_Test
  imports Wait_Model Sched_Balance
begin

text \<open>
  The end of a wait and the wait test: the wait test ends, every thread it takes from the wait
  lists is readied, and the invariant of the scheduler is kept.  The wait test on the swap event
  provides the interface \<open>swap_event\<close>.
\<close>

section \<open>What satisfying a wait changes\<close>

lemma same_refl [simp]: "same s s"
  by (simp add: same_def)

lemma same_trans: "same s s' \<Longrightarrow> same s' s'' \<Longrightarrow> same s s''"
  unfolding same_def by simp

lemma same_thread:
  assumes "State (f (Threads s t)) = State (Threads s t)" "Priority (f (Threads s t)) = Priority (Threads s t)"
    "WaitBlockList (f (Threads s t)) = WaitBlockList (Threads s t)" "ProcessReadyQueue (f (Threads s t)) = ProcessReadyQueue (Threads s t)"
    "Process (f (Threads s t)) = Process (Threads s t)" "BasePriority (f (Threads s t)) = BasePriority (Threads s t)"
    "PriorityDecrement (f (Threads s t)) = PriorityDecrement (Threads s t)"
  shows "same s (upd_thread s t f)"
  using assms by (simp add: same_def prio_ok_def)

lemma same_object: "WaitListHead (f (Objects s p)) = WaitListHead (Objects s p) \<Longrightarrow> same s (upd_object s p f)"
  by (simp add: same_def)

lemma same_mutant: "same s (KiWaitSatisfyMutant s Object Thread)"
  by (simp add: KiWaitSatisfyMutant_def Let_def same_def prio_ok_def)

lemma same_any: "same s (KiWaitSatisfyAny s Object Thread)"
  by (auto simp: KiWaitSatisfyAny_def intro!: same_object same_mutant)

lemma same_other: "same s (KiWaitSatisfyOther s Object)"
  by (auto simp: KiWaitSatisfyOther_def intro!: same_object)

lemma same_all: "same s (SatisfyAll s bs Thread)"
  by (induction bs arbitrary: s) (auto intro: same_trans [OF same_any])

lemma same_satisfy: "same s (KiWaitSatisfy s b bs)"
  by (simp add: KiWaitSatisfy_def same_all)

section \<open>A thread leaves the wait lists\<close>

definition unlink :: "sched \<Rightarrow> ptr \<Rightarrow> sched" where
  "unlink s T = s\<lparr>Objects := (\<lambda>p. (Objects s p)\<lparr>WaitListHead := filter (\<lambda>b. WbThread b \<noteq> T) (WaitListHead (Objects s p))\<rparr>)\<rparr>"

lemma unlink_ok:
  assumes ok: "sched_ok Y s"
  shows "sched_ok (insert T Y) (unlink s T)" "unlinked (unlink s T) T" "evolves {} s (unlink s T)"
proof -
  let ?s = "unlink s T"
  note o = sched_okD [OF ok]
  note w = waits_okD [OF o(3)]
  show "unlinked ?s T" by (simp add: unlinked_def unlink_def)
  show "evolves {} s ?s" by (auto simp: evolves_def unlink_def)
  have e: "queues_ok ?s = queues_ok s" "procs_ok ?s = procs_ok s" "top_priority ?s = top_priority s" "listed ?s t = listed s t" for t
    by (simp_all add: queues_ok_def procs_ok_def top_priority_def listed_def queued_def unlink_def)
  have wt: "waits_ok (insert T Y) ?s"
    by (rule waits_okI) (use w in \<open>auto simp: unlink_def\<close>)
  show "sched_ok (insert T Y) ?s"
    by (rule sched_okI; (unfold e)?) (use o wt in \<open>auto simp: unlink_def\<close>)
qed

lemma remove_blocks_frame [simp]:
  "Threads (RemoveWaitBlocks s bs) = Threads s" "Processes (RemoveWaitBlocks s bs) = Processes s"
  "KiDispatcherReadyListHead (RemoveWaitBlocks s bs) = KiDispatcherReadyListHead s" "KiReadySummary (RemoveWaitBlocks s bs) = KiReadySummary s"
  "KiIdleSummary (RemoveWaitBlocks s bs) = KiIdleSummary s" "NextThread (RemoveWaitBlocks s bs) = NextThread s"
  "CurrentThread (RemoveWaitBlocks s bs) = CurrentThread s" "IdleThread (RemoveWaitBlocks s bs) = IdleThread s"
  "Inserted (Objects (RemoveWaitBlocks s bs) p) = Inserted (Objects s p)" "SignalState (Objects (RemoveWaitBlocks s bs) p) = SignalState (Objects s p)"
  "HeaderType (Objects (RemoveWaitBlocks s bs) p) = HeaderType (Objects s p)"
  by (induction bs arbitrary: s) auto

lemma remove_blocks_lists:
  "distinct (WaitListHead (Objects s p)) \<Longrightarrow>
     WaitListHead (Objects (RemoveWaitBlocks s bs) p) = filter (\<lambda>b. \<not> (b \<in> set bs \<and> WbObject b = p)) (WaitListHead (Objects s p))"
proof (induction bs arbitrary: s)
  case (Cons b bs)
  let ?s = "upd_object s (WbObject b) (\<lambda>e. e\<lparr>WaitListHead := remove1 b (WaitListHead e)\<rparr>)"
  have l: "WaitListHead (Objects ?s p) = filter (\<lambda>x. \<not> (x = b \<and> WbObject x = p)) (WaitListHead (Objects s p))"
    using Cons.prems by (auto simp: distinct_remove1_removeAll removeAll_filter_not_eq intro!: filter_cong)
  have "distinct (WaitListHead (Objects ?s p))" unfolding l using Cons.prems by simp
  from Cons.IH [OF this] show ?case unfolding l RemoveWaitBlocks.simps filter_filter by (simp only:) (rule filter_cong, auto)
qed simp

lemma LeaveWait_same:
  assumes ok: "sched_ok Y s" and T: "State (Threads s T) = Waiting"
  shows "same (unlink s T) (LeaveWait s T)" "Threads (LeaveWait s T) = Threads s"
proof -
  note w = waits_okD [OF sched_okD(3) [OF ok]]
  have l: "WaitListHead (Objects (RemoveWaitBlocks s (WaitBlockList (Threads s T))) p) = filter (\<lambda>b. WbThread b \<noteq> T) (WaitListHead (Objects s p))" for p
    using w(2) [of _ p] w(3) [OF T] by (subst remove_blocks_lists [OF w(1)]) (auto intro!: filter_cong)
  have "WaitListHead (Objects (LeaveWait s T) p) = WaitListHead (Objects (RemoveWaitBlocks s (WaitBlockList (Threads s T))) p)" for p
    by (simp add: LeaveWait_def Let_def KiRemoveTreeTimer_def)
  then show "same (unlink s T) (LeaveWait s T)"
    unfolding same_def l by (simp add: LeaveWait_def Let_def KiRemoveTreeTimer_def unlink_def)
  show "Threads (LeaveWait s T) = Threads s" by (simp add: LeaveWait_def Let_def KiRemoveTreeTimer_def)
qed

section \<open>The priority after a wait\<close>

lemma UnwaitPriority_fields:
  "UnwaitPriority s Increment t = t\<lparr>Priority := Priority (UnwaitPriority s Increment t),
     PriorityDecrement := PriorityDecrement (UnwaitPriority s Increment t), DecrementCount := DecrementCount t,
     Quantum := Quantum (UnwaitPriority s Increment t)\<rparr>"
  by (rule KTHREAD.equality) (simp_all add: UnwaitPriority_def Let_def)

lemma schar_id [simp]: "- 128 \<le> x \<Longrightarrow> x < 128 \<Longrightarrow> schar x = x"
  by (simp add: schar_def)

lemma UnwaitPriority_bounds:
  assumes "prio_ok t"
  shows "Priority (UnwaitPriority s Increment t) < 32" "0 \<le> PriorityDecrement (UnwaitPriority s Increment t)"
    "PriorityDecrement (UnwaitPriority s Increment t) \<le> 127"
    "Priority t < 16 \<Longrightarrow> BasePriority t < 16 \<Longrightarrow> Priority (UnwaitPriority s Increment t) < 16"
    "16 \<le> Priority t \<Longrightarrow> Priority (UnwaitPriority s Increment t) = Priority t"
  using assms by (auto simp: UnwaitPriority_def Let_def prio_ok_def)

section \<open>Ending the wait of a thread\<close>

definition satisfiable :: "sched \<Rightarrow> KWAIT_BLOCK \<Rightarrow> bool" where
  \<comment> \<open>the object of the block being signalled, the wait can be satisfied\<close>
  "satisfiable s b \<longleftrightarrow> WbWaitType b = WaitAny \<or> OthersSignalled s (WbThread b) (tl (ring_from b (WaitBlockList (Threads s (WbThread b)))))"

definition satisfied :: "(sched \<Rightarrow> ptr \<Rightarrow> sched) \<Rightarrow> sched \<Rightarrow> KWAIT_BLOCK \<Rightarrow> int \<Rightarrow> sched" where
  \<comment> \<open>what the wait test does for a block whose wait can be satisfied\<close>
  "satisfied ready s b Increment =
     KiUnwaitThread ready (KiWaitSatisfy s b (WaitBlockList (Threads s (WbThread b)))) (WbThread b) (WbWaitKey b) Increment"

definition test_at :: "sched \<Rightarrow> ptr \<Rightarrow> nat \<Rightarrow> bool" where
  "test_at s Object k \<longleftrightarrow> SignalState (Objects s Object) > 0 \<and> k < length (WaitListHead (Objects s Object))"

lemma WaitTestLoop_step:
  "WaitTestLoop ready s Object Increment k =
     (let b = WaitListHead (Objects s Object) ! k
      in if test_at s Object k then
           if satisfiable s b then
             WaitTestLoop ready (if WbWaitType b = WaitAny \<and> WbObject b \<noteq> Object
               then KiUnwaitThread ready (KiWaitSatisfyAny s Object (WbThread b)) (WbThread b) (WbWaitKey b) Increment
               else satisfied ready s b Increment) Object Increment k
           else WaitTestLoop ready s Object Increment (k + 1)
         else Some s)"
proof -
  let ?b = "WaitListHead (Objects s Object) ! k"
  let ?bs = "WaitBlockList (Threads s (WbThread ?b))"
  have c: "(WbWaitType ?b \<noteq> WaitAny \<and> \<not> OthersSignalled s (WbThread ?b) (tl (ring_from ?b ?bs))) = (\<not> satisfiable s ?b)"
    by (simp only: satisfiable_def) blast
  have any: "KiUnwaitThread ready (if WbWaitType ?b \<noteq> WaitAny then KiWaitSatisfy s ?b ?bs else KiWaitSatisfyAny s Object (WbThread ?b))
      (WbThread ?b) (WbWaitKey ?b) Increment =
    (if WbWaitType ?b = WaitAny \<and> WbObject ?b \<noteq> Object
     then KiUnwaitThread ready (KiWaitSatisfyAny s Object (WbThread ?b)) (WbThread ?b) (WbWaitKey ?b) Increment
     else satisfied ready s ?b Increment)"
    by (cases "WbWaitType ?b = WaitAny"; cases "WbObject ?b = Object") (simp_all add: satisfied_def KiWaitSatisfy_def)
  show ?thesis
    by (subst WaitTestLoop.simps) (cases "satisfiable s ?b"; simp only: Let_def c any test_at_def [symmetric] simp_thms if_True if_False)
qed

context swap_event
begin

lemma KiUnwaitThread_ok:
  assumes ok: "sched_ok Y s" and aw: "awake s" and T: "State (Threads s T) = Waiting" "T \<noteq> NULL"
    and s': "s' = KiUnwaitThread (KiReadyThread wake) s T Status Increment"
  shows "sched_ok Y s'" "evolves {} s s'" "grows s s'" "unlinked s' T"
proof -
  define s1 where "s1 = upd_thread (s\<lparr>KeWaitReason := (KeWaitReason s)(WaitReason (Threads s T) := KeWaitReason s (WaitReason (Threads s T)) - 1)\<rparr>)
    T (\<lambda>t. t\<lparr>WaitStatus := WaitStatus t OR Status\<rparr>)"
  define s2 where "s2 = LeaveWait s1 T"
  define s3 where "s3 = upd_thread s2 T (UnwaitPriority s2 Increment)"
  have e: "s' = KiReadyThread wake s3 T" by (simp add: s' KiUnwaitThread_def Let_def s1_def s2_def s3_def)
  have sm1: "same s s1" by (simp add: s1_def same_def prio_ok_def)
  have ok1: "sched_ok Y s1" by (rule same_ok [OF ok sm1])
  have T1: "State (Threads s1 T) = Waiting" using T by (simp add: s1_def)
  note l = LeaveWait_same [OF ok1 T1, folded s2_def]
  note u = unlink_ok [OF ok1, of T]
  have ok2: "sched_ok (insert T Y) s2" by (rule same_ok [OF u(1) l(1)])
  have T2: "State (Threads s2 T) = Waiting" using T1 l(2) by simp
  have nq: "\<not> queued s2 T" "\<not> ProcessReadyQueue (Threads s2 T)" using not_ready [OF ok2, of T] T2 by simp_all
  have un: "unlinked s2 T" using u(2) l(1) by (simp add: unlinked_def same_def)
  have cur: "CurrentThread s2 = CurrentThread s" "State (Threads s2 (CurrentThread s)) = State (Threads s (CurrentThread s))"
    using l sm1 by (simp_all add: same_def unlink_def)
  have ne: "T \<noteq> CurrentThread s2" "T \<noteq> NextThread s2"
    using aw cur T2 sched_okD(6) [OF ok2] T(2) by (auto simp: awake_def)
  note pb = UnwaitPriority_bounds [OF sched_okD(10) [OF ok2, of T], of s2 Increment]
  have ok3: "sched_ok (insert T Y) s3" unfolding s3_def
    by (rule priority_ok [where f = "UnwaitPriority s2 Increment", OF ok2 nq(1) UnwaitPriority_fields pb(1-3)]) (use sched_okD(4) [OF ok2] top_others ne in simp)
  have ev3: "evolves {} s2 s3" unfolding s3_def by (rule priority_evolves [where f = "UnwaitPriority s2 Increment", OF UnwaitPriority_fields])
  have ev: "evolves {} s s3"
    by (rule evolves_trans [OF evolves_trans [OF evolves_trans [OF same_evolves [OF sm1] u(3)] same_evolves [OF l(1)]] ev3])
  have st3: "State (Threads s3 T) = Waiting" using T2 by (simp add: s3_def UnwaitPriority_def Let_def)
  have T3: "\<not> queued s3 T" "unlinked s3 T" "\<not> ProcessReadyQueue (Threads s3 T)"
    using nq un by (simp_all add: s3_def queued_def unlinked_def UnwaitPriority_def Let_def)
  have n3: "NextThread s3 \<noteq> T" using ne by (simp add: s3_def)
  have aw3: "awake s3" using aw cur ne(1) by (auto simp: awake_def s3_def)
  have gr: "grows s s3" using l(1) sm1 by (simp add: grows_def s3_def same_def unlink_def)
  show "sched_ok Y s'" unfolding e by (rule KiReadyThread_ok [OF ok3 T3(1,2) n3 T(2) T3(3) aw3])
  have "evolves {T} s3 s'" unfolding e by (rule KiReadyThread_evolves [OF ok3 T3(1,2) n3 T(2) T3(3) aw3])
  then have evr: "evolves {} s3 s'" by (rule evolves_drop) (use st3 in simp_all)
  then show "evolves {} s s'" by (rule evolves_trans [OF ev])
  show "grows s s'" unfolding e by (rule grows_trans [OF gr KiReadyThread_grows [OF ok3 T3(1,2) n3 T(2) T3(3) aw3]])
  show "unlinked s' T" using T3(2) evolvesD(10) [OF evr] unfolding unlinked_def by blast
qed

section \<open>The wait test ends\<close>

lemma unwait_shorter:
  assumes "sched_ok Y s" "sched_ok Y s'" "evolves {} s s'" "b \<in> set (WaitListHead (Objects s p))" "unlinked s' (WbThread b)"
  shows "length (WaitListHead (Objects s' p)) < length (WaitListHead (Objects s p))"
proof -
  have "distinct (WaitListHead (Objects s p))" "distinct (WaitListHead (Objects s' p))"
    using waits_okD(1) [OF sched_okD(3) [OF assms(1)]] waits_okD(1) [OF sched_okD(3) [OF assms(2)]] by blast+
  moreover have "set (WaitListHead (Objects s' p)) \<subset> set (WaitListHead (Objects s p))"
    using evolvesD(10) [OF assms(3), of p] assms(4,5) unfolding unlinked_def by blast
  ultimately show ?thesis using psubset_card_mono [OF List.finite_set] by (metis distinct_card)
qed

lemma satisfied_ok:
  assumes ok: "sched_ok Y s" and aw: "awake s" and b: "b \<in> set (WaitListHead (Objects s Object))" and s': "s' = satisfied (KiReadyThread wake) s b Increment"
  shows "sched_ok Y s'" "evolves {} s s'" "grows s s'" "awake s'" "unlinked s' (WbThread b)"
    "length (WaitListHead (Objects s' Object)) < length (WaitListHead (Objects s Object))"
proof -
  let ?T = "WbThread b"
  have T: "State (Threads s ?T) = Waiting" "?T \<noteq> NULL" using waits_okD(2) [OF sched_okD(3) [OF ok] b] by simp_all
  define s1 where "s1 = KiWaitSatisfy s b (WaitBlockList (Threads s ?T))"
  have sm: "same s s1" by (simp add: s1_def same_satisfy)
  have ok1: "sched_ok Y s1" by (rule same_ok [OF ok sm])
  have aw1: "awake s1" by (rule awake_evolves [OF aw same_evolves [OF sm, of "{}"]])
  have T1: "State (Threads s1 ?T) = Waiting" using T(1) sm by (simp add: same_def)
  note u = KiUnwaitThread_ok [OF ok1 aw1 T1 T(2), of s' "WbWaitKey b" Increment, unfolded s' satisfied_def s1_def [symmetric], OF refl, folded satisfied_def s1_def]
  show "sched_ok Y s'" "unlinked s' ?T" using u(1,4) by (simp_all add: s' satisfied_def s1_def)
  then have ok': "sched_ok Y s'" "unlinked s' ?T" .
  show ev: "evolves {} s s'" using evolves_trans [OF same_evolves [OF sm] u(2)] by (simp add: s' satisfied_def s1_def)
  show "grows s s'" using u(3) sm by (simp add: grows_def same_def s' satisfied_def s1_def)
  show "awake s'" by (rule awake_evolves [OF aw ev])
  show "length (WaitListHead (Objects s' Object)) < length (WaitListHead (Objects s Object))" by (rule unwait_shorter [OF ok ok'(1) ev b ok'(2)])
qed

lemma WaitTestLoop_rule:
  \<comment> \<open>\<open>P\<close> holds of the position in the wait list and the state at every test of the loop\<close>
  assumes skip: "\<And>k s. sched_ok Y s \<Longrightarrow> awake s \<Longrightarrow> P k s \<Longrightarrow> test_at s Object k \<Longrightarrow>
      \<not> satisfiable s (WaitListHead (Objects s Object) ! k) \<Longrightarrow> P (k + 1) s"
    and take: "\<And>k s. sched_ok Y s \<Longrightarrow> awake s \<Longrightarrow> P k s \<Longrightarrow> test_at s Object k \<Longrightarrow> satisfiable s (WaitListHead (Objects s Object) ! k) \<Longrightarrow>
      P k (satisfied (KiReadyThread wake) s (WaitListHead (Objects s Object) ! k) Increment)"
    and start: "sched_ok Y s" "awake s" "P k s"
  shows "\<exists>s' k'. WaitTestLoop (KiReadyThread wake) s Object Increment k = Some s' \<and> sched_ok Y s' \<and> awake s' \<and> P k' s' \<and> \<not> test_at s' Object k'"
  using start
proof (induction "length (WaitListHead (Objects s Object)) - k" arbitrary: s k rule: less_induct)
  case less
  let ?l = "WaitListHead (Objects s Object)"
  note ok = less.prems(1) and loop = WaitTestLoop_step [of "KiReadyThread wake" s Object Increment k]
  show ?case
  proof (cases "test_at s Object k")
    case False
    then have "WaitTestLoop (KiReadyThread wake) s Object Increment k = Some s" using loop by simp
    then show ?thesis using less.prems False by blast
  next
    case True
    let ?b = "?l ! k"
    have lt: "k < length ?l" using True by (simp add: test_at_def)
    then have b: "?b \<in> set ?l" by simp
    have o: "WbObject ?b = Object" using waits_okD(2) [OF sched_okD(3) [OF ok] b] by simp
    show ?thesis
    proof (cases "satisfiable s ?b")
      case c: False
      have e: "WaitTestLoop (KiReadyThread wake) s Object Increment k = WaitTestLoop (KiReadyThread wake) s Object Increment (k + 1)"
        using loop True c by simp
      show ?thesis unfolding e by (rule less.hyps) (use lt less.prems skip [OF less.prems True c] in simp_all)
    next
      case c: True
      let ?s = "satisfied (KiReadyThread wake) s ?b Increment"
      have e: "WaitTestLoop (KiReadyThread wake) s Object Increment k = WaitTestLoop (KiReadyThread wake) ?s Object Increment k"
        using loop True c o by simp
      note u = satisfied_ok [OF ok less.prems(2) b refl]
      have "length (WaitListHead (Objects ?s Object)) - k < length ?l - k" using u(6) [of Increment] lt by linarith
      then show ?thesis unfolding e by (rule less.hyps) (use u(1,4) take [OF less.prems True c] in auto)
    qed
  qed
qed

lemma WaitTestLoop_ok:
  assumes "sched_ok Y s" "awake s"
  shows "\<exists>s'. WaitTestLoop (KiReadyThread wake) s Object Increment k = Some s' \<and> sched_ok Y s' \<and> evolves {} s s' \<and> grows s s'"
proof -
  have "\<exists>s' k'. WaitTestLoop (KiReadyThread wake) s Object Increment k = Some s' \<and> sched_ok Y s' \<and> awake s' \<and> (evolves {} s s' \<and> grows s s') \<and> \<not> test_at s' Object k'"
  proof (rule WaitTestLoop_rule)
    fix k s'
    assume a: "sched_ok Y s'" "awake s'" "evolves {} s s' \<and> grows s s'" "test_at s' Object k"
    then have "WaitListHead (Objects s' Object) ! k \<in> set (WaitListHead (Objects s' Object))" by (simp add: test_at_def)
    note u = satisfied_ok [OF a(1,2) this refl]
    show "evolves {} s (satisfied (KiReadyThread wake) s' (WaitListHead (Objects s' Object) ! k) Increment) \<and>
        grows s (satisfied (KiReadyThread wake) s' (WaitListHead (Objects s' Object) ! k) Increment)"
      using evolves_trans [OF _ u(2)] grows_trans [OF _ u(3)] a(3) by blast
  qed (use assms in \<open>simp_all add: same_evolves grows_def\<close>)
  then show ?thesis by blast
qed

lemma KiWaitTest_ok:
  assumes "sched_ok Y s" "awake s"
  shows "\<exists>s'. KiWaitTest (KiReadyThread wake) s Object Increment = Some s' \<and> sched_ok Y s' \<and> evolves {} s s' \<and> grows s s'"
  unfolding KiWaitTest_def by (rule WaitTestLoop_ok [OF assms])

end

section \<open>The wait test on the swap event\<close>

lemma SwapWake_swap_event: "swap_event (SwapWake n)"
proof (induction n)
  case 0
  show ?case by unfold_locales (simp_all add: same_evolves grows_def)
next
  case (Suc n)
  have step: "sched_ok Y (SwapWake (Suc n) s) \<and> evolves {} s (SwapWake (Suc n) s) \<and> grows s (SwapWake (Suc n) s)"
    if "sched_ok Y s" "awake s" for Y s
    using swap_event.KiWaitTest_ok [OF Suc that, of "KiSwapEvent s" 10] by auto
  show ?case by unfold_locales (use step in blast)+
qed

interpretation swap: swap_event SwapEventTest
  by unfold_locales (auto simp: SwapEventTest_def intro: swap_event.wake_ok [OF SwapWake_swap_event]
    swap_event.wake_evolves [OF SwapWake_swap_event] swap_event.wake_grows [OF SwapWake_swap_event])

end
