(* ===== verification/Wait_Rest.thy ===== *)
theory Wait_Rest
  imports Wait_Services Wait_Test
begin

text \<open>
  The operations on dispatcher objects and the wait services take a state at rest to a state at
  rest; the operations that make a wait test return.
\<close>

section \<open>Ends of operations\<close>

definition low :: "sched \<Rightarrow> nat \<Rightarrow> bool" where
  \<comment> \<open>the idle thread does not run below \<open>DISPATCH_LEVEL\<close>\<close>
  "low s OldIrql \<longleftrightarrow> OldIrql < 2 \<longrightarrow> CurrentThread s \<noteq> IdleThread s"

lemma low_evolves: "low s OldIrql \<Longrightarrow> evolves X s s' \<Longrightarrow> low s' OldIrql"
  using evolvesD(1,2) [of X s s'] by (simp add: low_def)

lemma Unlock_rest: "rest s \<Longrightarrow> low s OldIrql \<Longrightarrow> rest (KiUnlockDispatcherDatabase SwapEventTest s OldIrql)"
  by (rule swap.KiUnlockDispatcherDatabase_rest) (simp_all add: low_def)

lemma Unlock_moves: "moves s s' \<Longrightarrow> low s OldIrql \<Longrightarrow> rest (KiUnlockDispatcherDatabase SwapEventTest s' OldIrql)"
  unfolding moves_def using Unlock_rest low_evolves by blast

lemma Release_moves: "moves s s' \<Longrightarrow> low s OldIrql \<Longrightarrow> rest (Release s' Wait OldIrql)"
  using Unlock_moves [of s s' OldIrql] same_rest [of s', OF _ same_thread, of "\<lambda>t. t\<lparr>WaitIrql := OldIrql\<rparr>"]
  by (cases Wait) (simp_all add: Release_def moves_def)

lemma rest_awake: "rest s \<Longrightarrow> awake s"
  using restD(2) [of s] by (simp add: awake_def)

lemma wait_test_moves:
  assumes "rest s"
  shows "\<exists>s'. KiWaitTest (KiReadyThread SwapEventTest) s Object Increment = Some s' \<and> moves s s'"
  using swap.KiWaitTest_ok [OF restD(1) [OF assms] rest_awake [OF assms]] movesI [OF assms] by blast

lemma test_if_moves:
  assumes "rest s"
  shows "\<exists>s'. (if c then KiWaitTest (KiReadyThread SwapEventTest) s Object Increment else Some s) = Some s' \<and> moves s s'"
  using wait_test_moves [OF assms] same_moves [OF assms same_refl] by simp

lemma moves_same: "moves s s' \<Longrightarrow> same s' s'' \<Longrightarrow> moves s s''"
  using moves_trans same_moves moves_def by blast

lemma same_first: "rest s \<Longrightarrow> same s s' \<Longrightarrow> (rest s' \<Longrightarrow> \<exists>s''. f = Some s'' \<and> moves s' s'') \<Longrightarrow> \<exists>s''. f = Some s'' \<and> moves s s''"
  using same_moves [of s s'] moves_trans unfolding moves_def by metis

section \<open>Events\<close>

lemma signal_state_same: "same s (upd_object s p (\<lambda>e. e\<lparr>SignalState := x\<rparr>))"
  by (rule same_object) simp

lemma SignalEvent_moves:
  assumes "rest s"
  shows "\<exists>s'. SignalEvent s Event Increment = Some s' \<and> moves s s'"
  using same_first [OF assms signal_state_same test_if_moves] same_moves [OF assms same_refl]
  by (simp add: SignalEvent_def Let_def)

lemma KeSetEvent_rest:
  assumes "rest s" "low s OldIrql"
  shows "\<exists>s'. KeSetEvent s Event Increment Wait OldIrql = Some (s', SignalState (Objects s Event)) \<and> rest s'"
proof -
  obtain s' where s': "SignalEvent s Event Increment = Some s'" "moves s s'" using SignalEvent_moves [OF assms(1)] by blast
  have "rest (upd_thread s' (CurrentThread s') (\<lambda>t. t\<lparr>WaitNext := True, WaitIrql := OldIrql\<rparr>))"
    by (rule same_rest [OF _ same_thread]) (use s'(2) in \<open>simp_all add: moves_def\<close>)
  then show ?thesis using s' Unlock_moves [OF s'(2) assms(2)] by (simp add: KeSetEvent_def)
qed

lemma KeResetEvent_rest: "rest s \<Longrightarrow> low s OldIrql \<Longrightarrow> rest (fst (KeResetEvent s Event OldIrql))"
  unfolding KeResetEvent_def fst_conv by (rule Unlock_moves [OF same_moves [OF _ signal_state_same]])

lemma wait_next_same: "same s (upd_thread s t (\<lambda>t. t\<lparr>WaitNext := w\<rparr>))"
  by (rule same_thread) simp_all

lemma KePulseEvent_rest:
  assumes "rest s" "low s OldIrql"
  shows "\<exists>s'. KePulseEvent s Event Increment Wait OldIrql = Some (s', SignalState (Objects s Event)) \<and> rest s'"
proof -
  let ?s = "upd_thread s (CurrentThread s) (\<lambda>t. t\<lparr>WaitNext := Wait\<rparr>)"
  let ?t = "if SignalState (Objects s Event) = 0 \<and> WaitListHead (Objects ?s Event) \<noteq> []
    then KiWaitTest (KiReadyThread SwapEventTest) (upd_object ?s Event (\<lambda>e. e\<lparr>SignalState := 1\<rparr>)) Event Increment else Some ?s"
  have r: "rest ?s" by (rule same_rest [OF assms(1) wait_next_same])
  have "\<exists>s'. ?t = Some s' \<and> moves ?s s'"
    using same_first [OF r signal_state_same wait_test_moves] same_moves [OF r same_refl] by (cases "SignalState (Objects s Event) = 0 \<and> WaitListHead (Objects ?s Event) \<noteq> []") auto
  then obtain s' where s': "?t = Some s'" "moves ?s s'" by blast
  have "moves s (upd_object s' Event (\<lambda>e. e\<lparr>SignalState := 0\<rparr>))"
    by (rule moves_same [OF moves_trans [OF same_moves [OF assms(1) wait_next_same] s'(2)] signal_state_same])
  from Release_moves [OF this assms(2)] show ?thesis using s'(1) by (simp add: KePulseEvent_def Let_def)
qed

lemma unwait_moves:
  assumes "rest s" "b \<in> set (WaitListHead (Objects s p))"
  shows "moves s (KiUnwaitThread (KiReadyThread SwapEventTest) s (WbThread b) Status Increment)"
proof -
  note w = waits_okD(2) [OF sched_okD(3) [OF restD(1) [OF assms(1)]] assms(2)]
  show ?thesis
    by (rule movesI [OF assms(1)]; rule swap.KiUnwaitThread_ok(1,2) [OF restD(1) [OF assms(1)] rest_awake [OF assms(1)] _ _ refl]) (use w in simp_all)
qed

lemma KeSetEventBoostPriority_rest:
  assumes "rest s" "low s OldIrql"
  shows "rest (fst (KeSetEventBoostPriority s Event OldIrql))"
proof (cases "WaitListHead (Objects s Event)")
  case Nil
  then show ?thesis using Unlock_moves [OF same_moves [OF assms(1) signal_state_same] assms(2)]
    by (simp add: KeSetEventBoostPriority_def Let_def)
next
  case (Cons b bs)
  let ?s = "upd_object (upd_object s Event (\<lambda>e. e\<lparr>SignalState := 1\<rparr>)) Event (\<lambda>e. e\<lparr>SignalState := 0\<rparr>)"
  have sm: "same s ?s" by (rule same_trans [OF signal_state_same signal_state_same])
  have "moves ?s (KiUnwaitThread (KiReadyThread SwapEventTest) ?s (WbThread b) 0 1)"
    by (rule unwait_moves [OF same_rest [OF assms(1) sm], of b Event]) (use Cons in simp)
  from Unlock_moves [OF moves_trans [OF same_moves [OF assms(1) sm] this] assms(2)] show ?thesis
    using Cons by (simp add: KeSetEventBoostPriority_def Let_def)
qed

section \<open>Semaphores and mutants\<close>

lemma KeReleaseSemaphore_rest:
  assumes "rest s" "low s OldIrql"
  shows "\<exists>s' r. KeReleaseSemaphore s Semaphore Increment Adjustment Wait OldIrql = Some (s', r) \<and> rest s'"
proof -
  let ?s = "upd_thread (upd_object s Semaphore (\<lambda>e. e\<lparr>SignalState := slong (SignalState (Objects s Semaphore) + Adjustment)\<rparr>))
    (CurrentThread s) (\<lambda>t. t\<lparr>WaitNext := Wait\<rparr>)"
  have sm: "same s ?s" by (rule same_trans [OF signal_state_same wait_next_same])
  obtain s' where s': "(if SignalState (Objects s Semaphore) = 0 \<and> WaitListHead (Objects ?s Semaphore) \<noteq> []
      then KiWaitTest (KiReadyThread SwapEventTest) ?s Semaphore Increment else Some ?s) = Some s'" "moves ?s s'"
    using test_if_moves [OF same_rest [OF assms(1) sm]] by blast
  have "rest (Release s' Wait OldIrql)" by (rule Release_moves [OF moves_trans [OF same_moves [OF assms(1) sm] s'(2)] assms(2)])
  moreover have "KeReleaseSemaphore s Semaphore Increment Adjustment Wait OldIrql =
      (let NewState = slong (SignalState (Objects s Semaphore) + Adjustment)
       in if NewState > Limit (Objects s Semaphore) \<or> NewState < SignalState (Objects s Semaphore)
          then Some (KiUnlockDispatcherDatabase SwapEventTest s OldIrql, Inl 0xC0000047)
          else Some (Release s' Wait OldIrql, Inr (SignalState (Objects s Semaphore))))"
    using s'(1) by (cases "SignalState (Objects s Semaphore) = 0 \<and> WaitListHead (Objects s Semaphore) \<noteq> []") (auto simp: KeReleaseSemaphore_def Let_def)
  ultimately show ?thesis using Unlock_rest [OF assms] by (simp add: Let_def)
qed

lemma DisownMutant_same: "same s (DisownMutant s Mutant Thread)"
  by (simp add: DisownMutant_def Let_def same_def prio_ok_def)

lemma KeReleaseMutant_rest:
  assumes "rest s" "low s OldIrql"
  shows "\<exists>s' r. KeReleaseMutant s Mutant Increment Abandon Wait OldIrql = Some (s', r) \<and> rest s'"
proof -
  let ?s = "upd_thread s (CurrentThread s) (\<lambda>t. t\<lparr>WaitNext := Wait\<rparr>)"
  let ?t = "upd_object ?s Mutant (\<lambda>m. if Abandon then m\<lparr>SignalState := 1, Abandoned := True\<rparr> else m\<lparr>SignalState := slong (SignalState m + 1)\<rparr>)"
  let ?d = "if SignalState (Objects s Mutant) \<le> 0 then DisownMutant ?t Mutant (CurrentThread s) else ?t"
  let ?u = "upd_object ?d Mutant (\<lambda>m. m\<lparr>OwnerThread := NULL\<rparr>)"
  let ?w = "if SignalState (Objects ?t Mutant) = 1 then if WaitListHead (Objects ?u Mutant) \<noteq> []
    then KiWaitTest (KiReadyThread SwapEventTest) ?u Mutant Increment else Some ?u else Some ?t"
  have st: "same s ?t" by (rule same_trans [OF wait_next_same same_object]) simp
  have tu: "same ?t ?u" using same_trans [OF DisownMutant_same same_object] same_object [of "\<lambda>m. m\<lparr>OwnerThread := NULL\<rparr>"] by simp
  note rt = same_rest [OF assms(1) st] and ru = same_rest [OF same_rest [OF assms(1) st] tu]
  have "\<exists>s'. ?w = Some s' \<and> moves ?t s'"
    using same_first [OF rt tu test_if_moves] same_moves [OF rt same_refl] by (cases "SignalState (Objects ?t Mutant) = 1") auto
  then obtain s' where s': "?w = Some s'" "moves ?t s'" by blast
  have "rest (Release s' Wait OldIrql)" by (rule Release_moves [OF moves_trans [OF same_moves [OF assms(1) st] s'(2)] assms(2)])
  then show ?thesis using s'(1) Unlock_moves [OF same_moves [OF assms(1) wait_next_same] assms(2)]
    unfolding KeReleaseMutant_def Let_def by auto
qed

section \<open>Timers\<close>

lemma table_same: "same s (s\<lparr>KiTimerTableListHead := L\<rparr>)"
  by (simp add: same_def)

lemma KiRemoveTreeTimer_same: "same s (KiRemoveTreeTimer s T)"
  unfolding KiRemoveTreeTimer_def by (rule same_trans [OF same_object table_same]) simp

lemma KiInsertTreeTimer_same: "same s (fst (KiInsertTreeTimer s T Interval now))"
proof -
  let ?s = "upd_object s T (\<lambda>t. t\<lparr>SignalState := 0, Inserted := True\<rparr>)"
  have s: "same s ?s" by (rule same_object) simp
  have over: "same s (upd_object ?s T (\<lambda>t. t\<lparr>SignalState := 1, Inserted := False\<rparr>))" by (rule same_trans [OF s same_object]) simp
  have due: "same s ((upd_object ?s T (\<lambda>t. t\<lparr>DueTime := d\<rparr>))\<lparr>KiTimerTableListHead := L\<rparr>)" for d L
    by (rule same_trans [OF s same_trans [OF same_object table_same]]) simp
  note sig = same_trans [OF due same_trans [OF KiRemoveTreeTimer_same signal_state_same]]
  show ?thesis unfolding KiInsertTreeTimer_def Let_def
    by (simp only: fst_conv over due sig split: if_split prod.split) simp
qed

lemma KeInsertQueueDpc_same: "same s (fst (KeInsertQueueDpc s Dpc))"
  by (simp add: KeInsertQueueDpc_def same_def Let_def)

lemma KeRemoveQueueDpc_same: "same s (fst (KeRemoveQueueDpc s Dpc))"
  by (simp add: KeRemoveQueueDpc_def same_def)

lemma KeCancelTimer_rest: "rest s \<Longrightarrow> low s OldIrql \<Longrightarrow> rest (fst (KeCancelTimer s T OldIrql))"
  unfolding KeCancelTimer_def fst_conv
  by (rule Unlock_moves [OF same_moves]) (simp_all add: KiRemoveTreeTimer_same)

lemma KeSetTimer_rest:
  assumes "rest s" "low s OldIrql"
  shows "\<exists>s'. KeSetTimer s T Due now Dpc OldIrql = Some (s', Inserted (Objects s T)) \<and> rest s'"
proof -
  let ?s = "upd_object (if Inserted (Objects s T) then KiRemoveTreeTimer s T else s) T (\<lambda>t. t\<lparr>TimerDpc := Dpc\<rparr>)"
  obtain s1 ok where i: "KiInsertTreeTimer ?s T Due now = (s1, ok)" by force
  have sm: "same s s1"
    using same_trans [OF _ same_trans [OF same_object KiInsertTreeTimer_same], of s "if Inserted (Objects s T) then KiRemoveTreeTimer s T else s"
        "\<lambda>t. t\<lparr>TimerDpc := Dpc\<rparr>" T T Due now] i KiRemoveTreeTimer_same by simp
  let ?d = "\<lambda>s. if TimerDpc (Objects s T) \<noteq> NULL then fst (KeInsertQueueDpc s (TimerDpc (Objects s T))) else s"
  obtain s2 where s2: "(if WaitListHead (Objects s1 T) \<noteq> [] then KiWaitTest (KiReadyThread SwapEventTest) s1 T 0 else Some s1) = Some s2" "moves s1 s2"
    using test_if_moves [OF same_rest [OF assms(1) sm]] by blast
  have d: "same s2 (?d s2)" by (simp add: KeInsertQueueDpc_same)
  note m = same_moves [OF assms(1) sm]
  note r = Unlock_moves [OF m assms(2)] Unlock_moves [OF moves_same [OF moves_trans [OF m s2(2)] d] assms(2)]
  show ?thesis using r s2(1) i unfolding KeSetTimer_def Let_def by (cases ok) simp_all
qed

lemma SignalTimer_moves:
  assumes "rest s" and routine: "\<And>d s. rest s \<Longrightarrow> moves s (routine d s)"
  shows "\<exists>s'. SignalTimer routine s T = Some s' \<and> moves s s'"
proof -
  let ?s = "upd_object (KiRemoveTreeTimer s T) T (\<lambda>t. t\<lparr>SignalState := 1\<rparr>)"
  have sm: "same s ?s" by (rule same_trans [OF KiRemoveTreeTimer_same signal_state_same])
  obtain s2 where s2: "(if WaitListHead (Objects ?s T) \<noteq> [] then KiWaitTest (KiReadyThread SwapEventTest) ?s T 0 else Some ?s) = Some s2" "moves ?s s2"
    using test_if_moves [OF same_rest [OF assms(1) sm]] by blast
  have m: "moves s s2" by (rule moves_trans [OF same_moves [OF assms(1) sm] s2(2)])
  then have "rest s2" by (simp add: moves_def)
  then have "moves s (routine d s2)" for d using moves_trans [OF m routine] by blast
  then show ?thesis using s2(1) m by (simp add: SignalTimer_def Let_def)
qed

section \<open>Queues\<close>

lemma queue_same: "WaitListHead (f (Objects s p)) = WaitListHead (Objects s p) \<Longrightarrow> rest s \<Longrightarrow> moves s (upd_object s p f)"
  using same_moves same_object by blast

lemma KiActivateWaiterQueue_moves:
  assumes "rest s"
  shows "moves s (KiActivateWaiterQueue s Queue)"
proof -
  let ?s = "upd_object s Queue (\<lambda>q. q\<lparr>CurrentCount := u32_sub (CurrentCount q) 1\<rparr>)" and ?l = "WaitListHead (Objects s Queue)"
  let ?t = "upd_object ?s Queue (\<lambda>q. q\<lparr>EntryListHead := tl (EntryListHead q), SignalState := slong (SignalState q - 1)\<rparr>)"
  have m: "moves s ?s" by (rule queue_same [OF _ assms]) simp
  then have "moves ?s ?t" by (intro queue_same) (simp_all add: moves_def)
  from moves_trans [OF m this] have t: "moves s ?t" .
  have "moves ?t (KiUnwaitThread (KiReadyThread SwapEventTest) ?t (WbThread (last ?l)) Status 0)" if "?l \<noteq> []" for Status
    by (rule unwait_moves [of _ "last ?l" Queue]) (use t that in \<open>simp_all add: moves_def\<close>)
  then show ?thesis using m moves_trans [OF t] by (simp add: KiActivateWaiterQueue_def Let_def)
qed

lemma ready_waiter:
  \<comment> \<open>a thread whose wait blocks have left the wait lists is made ready\<close>
  assumes r: "rest s" and ok: "sched_ok {T} s'" and un: "unlinked s' T" and T: "State (Threads s' T) = Waiting" "T \<noteq> NULL" and ev: "evolves {} s s'"
  shows "moves s (KiReadyThread SwapEventTest s' T)"
proof -
  have aw: "awake s'" by (rule awake_evolves [OF rest_awake [OF r] ev])
  have n: "NextThread s' \<noteq> T" using sched_okD(6) [OF ok] T by auto
  have q: "\<not> queued s' T" "\<not> ProcessReadyQueue (Threads s' T)" using not_ready [OF ok, of T] T by simp_all
  have ok': "sched_ok {T} s'" using ok .
  have "evolves {T} s' (KiReadyThread SwapEventTest s' T)" by (rule swap.KiReadyThread_evolves [OF ok' q(1) un n T(2) q(2) aw])
  then have "evolves {} s' (KiReadyThread SwapEventTest s' T)" by (rule evolves_drop) (use T in simp_all)
  from evolves_trans [OF ev this] show ?thesis
    by (rule movesI [OF r swap.KiReadyThread_ok [OF ok' q(1) un n T(2) q(2) aw]])
qed

definition lone_waiter :: "sched \<Rightarrow> ptr \<Rightarrow> bool" where
  \<comment> \<open>the last thread that waits on the queue waits on nothing else but its own timer\<close>
  "lone_waiter s Queue \<longleftrightarrow>
     (let b = last (WaitListHead (Objects s Queue)); T = WbThread b; L = WaitListHead (Objects s (Timer (Threads s T)))
      in list_all (\<lambda>x. x = b \<or> WbObject x = Timer (Threads s T)) (WaitBlockList (Threads s T)) \<and> Timer (Threads s T) \<noteq> Queue \<and>
         list_all (\<lambda>x. WbThread x = T) L \<and> (Inserted (Objects s (Timer (Threads s T))) \<or> L = []))"

lemma filter_last: "distinct xs \<Longrightarrow> xs \<noteq> [] \<Longrightarrow> (\<And>x. x \<in> set xs \<Longrightarrow> P x \<longleftrightarrow> x \<noteq> last xs) \<Longrightarrow> filter P xs = butlast xs"
  by (induction xs rule: rev_induct) (auto simp: filter_id_conv)

lemma lone_lists:
  assumes ok: "sched_ok X s" and l: "lone_waiter s Queue" "WaitListHead (Objects s Queue) \<noteq> []" and T: "T = WbThread (last (WaitListHead (Objects s Queue)))"
  shows "filter (\<lambda>b. WbThread b \<noteq> T) (WaitListHead (Objects s p)) =
    (if p = Queue then butlast (WaitListHead (Objects s p)) else if p = Timer (Threads s T) then [] else WaitListHead (Objects s p))"
proof -
  note w = waits_okD [OF sched_okD(3) [OF ok]]
  let ?b = "last (WaitListHead (Objects s Queue))"
  note l' = l(1) [unfolded lone_waiter_def Let_def, folded T, unfolded list_all_iff]
  have one: "x = ?b \<or> WbObject x = Timer (Threads s T)" if "x \<in> set (WaitListHead (Objects s p))" "WbThread x = T" for x p
    using w(2) [OF that(1)] that(2) l' by auto
  have b: "WbObject ?b = Queue" using w(2) [of ?b Queue] l(2) by simp
  consider "p = Queue" | "p = Timer (Threads s T)" "p \<noteq> Queue" | "p \<noteq> Timer (Threads s T)" "p \<noteq> Queue" by blast
  then show ?thesis
  proof cases
    case 1
    have "WbThread x \<noteq> T \<longleftrightarrow> x \<noteq> ?b" if "x \<in> set (WaitListHead (Objects s Queue))" for x
      using one [OF that] w(2) [OF that] l' T by auto
    then show ?thesis using 1 filter_last [OF w(1) l(2)] by simp
  next
    case 2
    then show ?thesis using l' by (auto simp: filter_empty_conv)
  next
    case 3
    then show ?thesis using one [of _ p] w(2) [of _ p] b by (auto simp: filter_id_conv)
  qed
qed

lemma GiveEntry_moves:
  assumes r: "rest s" and l: "lone_waiter s Queue" "WaitListHead (Objects s Queue) \<noteq> []"
  shows "moves s (GiveEntry s Queue Entry)"
proof -
  define T where "T = WbThread (last (WaitListHead (Objects s Queue)))"
  let ?X = "Timer (Threads s T)"
  note w = waits_okD(2) [OF sched_okD(3) [OF restD(1) [OF r]], of "last (WaitListHead (Objects s Queue))" Queue]
  have T: "State (Threads s T) = Waiting" "T \<noteq> NULL" using w l(2) by (simp_all add: T_def)
  define s1 where "s1 = upd_object s Queue (\<lambda>q. q\<lparr>WaitListHead := butlast (WaitListHead q)\<rparr>)"
  define s2 where "s2 = upd_thread (upd_object ((upd_thread (s1\<lparr>KeWaitReason := (KeWaitReason s1)(WrQueue := KeWaitReason s1 WrQueue - 1)\<rparr>)
      T (\<lambda>t. t\<lparr>WaitStatus := word_of_nat Entry\<rparr>))\<lparr>KiWaitInListHead := remove1 T (KiWaitInListHead s), KiWaitOutListHead := remove1 T (KiWaitOutListHead s)\<rparr>)
      Queue (\<lambda>q. q\<lparr>CurrentCount := u32 (CurrentCount q + 1)\<rparr>)) T (\<lambda>t. t\<lparr>WaitReason := 0\<rparr>)"
  define s3 where "s3 = (if Inserted (Objects s2 ?X) then KiRemoveTreeTimer (upd_object s2 ?X (\<lambda>t. t\<lparr>WaitListHead := []\<rparr>)) ?X else s2)"
  have e: "GiveEntry s Queue Entry = KiReadyThread SwapEventTest s3 T"
    by (simp add: GiveEntry_def Let_def s3_def s2_def s1_def T_def)
  note l' = l(1) [unfolded lone_waiter_def Let_def, folded T_def]
  have ins: "Inserted (Objects s2 ?X) = Inserted (Objects s ?X)" using l' by (simp add: s2_def s1_def)
  have lists: "WaitListHead (Objects s3 p) = filter (\<lambda>b. WbThread b \<noteq> T) (WaitListHead (Objects s p))" for p
    unfolding lone_lists [OF restD(1) [OF r] l T_def] using l' ins by (auto simp: s3_def s2_def s1_def KiRemoveTreeTimer_def)
  have "same (unlink s T) s3" using lists by (simp add: same_def unlink_def s3_def s2_def s1_def KiRemoveTreeTimer_def prio_ok_def)
  note sm = this
  note u = unlink_ok [OF restD(1) [OF r], of T]
  show ?thesis unfolding e
  proof (rule ready_waiter [OF r same_ok [OF u(1) sm] _ _ T(2) evolves_trans [OF u(3) same_evolves [OF sm]]])
    show "unlinked s3 T" using lists by (auto simp: unlinked_def)
    show "State (Threads s3 T) = Waiting" using T sm by (simp add: same_def unlink_def)
  qed
qed

lemma KiInsertQueue_moves:
  assumes r: "rest s" and l: "QueueWaiter s Queue \<Longrightarrow> lone_waiter s Queue"
  shows "moves s (fst (KiInsertQueue s Queue Entry))"
  using GiveEntry_moves [OF r l] queue_same [OF _ r] by (simp add: KiInsertQueue_def QueueWaiter_def)

lemma KeInsertQueue_rest:
  assumes "rest s" "low s OldIrql" "QueueWaiter s Queue \<Longrightarrow> lone_waiter s Queue"
  shows "rest (fst (KeInsertQueue s Queue Entry OldIrql))"
  using Unlock_moves [OF KiInsertQueue_moves [OF assms(1,3), of Entry] assms(2)] by (simp add: KeInsertQueue_def case_prod_beta)

lemma ForgetQueue_same: "same s (ForgetQueue s ts)"
proof (induction ts arbitrary: s)
  case (Cons t ts)
  show ?case unfolding ForgetQueue.simps by (rule same_trans [OF same_thread Cons.IH]) simp_all
qed simp

lemma KeRundownQueue_rest: "rest s \<Longrightarrow> low s OldIrql \<Longrightarrow> rest (fst (KeRundownQueue s Queue OldIrql))"
  unfolding KeRundownQueue_def Let_def fst_conv
  by (rule Unlock_moves [OF same_moves [OF _ same_trans [OF ForgetQueue_same same_object]]]) simp_all

section \<open>Waits\<close>

lemma AcquireForWait_same: "same s (AcquireForWait s OldIrql)"
  unfolding AcquireForWait_def by (rule same_thread) simp_all

lemma UnlockWait_moves:
  assumes "moves s s'" "CurrentThread s \<noteq> IdleThread s"
  shows "rest (UnlockWait s')"
  unfolding UnlockWait_def using assms evolvesD(1,2) [of "{}" s s'] by (intro Unlock_rest) (simp_all add: moves_def low_def)

lemma TestForAlertPending_same: "same s (fst (TestForAlertPending s Alert Mode))"
  by (simp add: TestForAlertPending_def Let_def same_thread)

lemma LinkBlocks_frame [simp]:
  "Threads (LinkBlocks s bs) = Threads s" "Processes (LinkBlocks s bs) = Processes s"
  "KiDispatcherReadyListHead (LinkBlocks s bs) = KiDispatcherReadyListHead s" "KiReadySummary (LinkBlocks s bs) = KiReadySummary s"
  "KiIdleSummary (LinkBlocks s bs) = KiIdleSummary s" "NextThread (LinkBlocks s bs) = NextThread s"
  "CurrentThread (LinkBlocks s bs) = CurrentThread s" "IdleThread (LinkBlocks s bs) = IdleThread s"
  "TickCountLow (LinkBlocks s bs) = TickCountLow s"
  "EntryListHead (Objects (LinkBlocks s bs) p) = EntryListHead (Objects s p)"
  "CurrentCount (Objects (LinkBlocks s bs) p) = CurrentCount (Objects s p)"
  "MaximumCount (Objects (LinkBlocks s bs) p) = MaximumCount (Objects s p)"
  "WaitListHead (Objects (LinkBlocks s bs) p) = WaitListHead (Objects s p) @ filter (\<lambda>b. WbObject b = p) bs"
  by (induction bs arbitrary: s) auto

lemma entered_ok:
  \<comment> \<open>the current thread waits with the wait blocks \<open>bs\<close>, or it is terminated\<close>
  assumes r: "rest s" and i: "CurrentThread s \<noteq> IdleThread s" and C: "C = CurrentThread s"
    and bs: "distinct bs" "\<And>b. b \<in> set bs \<Longrightarrow> WbThread b = C"
    and t: "Threads s' = (Threads s)(C := t)" "State t = Waiting \<and> WaitBlockList t = bs \<or> State t = Terminated \<and> bs = []" "Priority t = Priority (Threads s C)"
      "ProcessReadyQueue t = ProcessReadyQueue (Threads s C)" "prio_ok t"
    and lists: "\<And>p. WaitListHead (Objects s' p) = WaitListHead (Objects s p) @ filter (\<lambda>b. WbObject b = p) bs"
    and s': "Processes s' = Processes s" "KiDispatcherReadyListHead s' = KiDispatcherReadyListHead s" "KiReadySummary s' = KiReadySummary s"
      "KiIdleSummary s' = KiIdleSummary s" "NextThread s' = NextThread s" "CurrentThread s' = CurrentThread s" "IdleThread s' = IdleThread s"
  shows "sched_ok {} s'"
proof (rule sched_okI)
  note r' = restD [OF r]
  note o = sched_okD [OF r'(1)]
  note w = waits_okD [OF o(3)]
  have st: "State (Threads s C) = Running" "C \<noteq> NULL" using r'(2,4) C by simp_all
  have n: "\<not> queued s C" "\<not> ProcessReadyQueue (Threads s C)" and un: "unlinked s C" using not_ready [OF r'(1), of C] st by simp_all
  have un': "b \<notin> set (WaitListHead (Objects s p))" if "b \<in> set bs" for b p using un bs(2) [OF that] by (auto simp: unlinked_def)
  show "queues_ok s'" using o(1) n(1) s' t by (auto simp: queues_ok_def queued_def)
  show "procs_ok s'"
  proof (rule procs_okI)
    show "T \<noteq> NULL \<and> ProcessReadyQueue (Threads s' T) \<and> Process (Threads s' T) = P" if "T \<in> set (ReadyListHead (Processes s' P))" for P T
      using procs_okD(2) [OF o(2), of T P] that s' t n(2) by auto
  qed (use procs_okD(1,3) [OF o(2)] s' t n(2) in \<open>auto split: if_splits\<close>)
  show "waits_ok {} s'"
  proof (rule waits_okI)
    show "distinct (WaitListHead (Objects s' p))" for p using lists w(1) bs(1) un' by auto
    show "WbObject b = p \<and> WbThread b \<noteq> NULL \<and> State (Threads s' (WbThread b)) = Waiting \<and> b \<in> set (WaitBlockList (Threads s' (WbThread b)))"
      if b: "b \<in> set (WaitListHead (Objects s' p))" for p b
    proof (cases "b \<in> set bs")
      case True
      then show ?thesis using b un' lists bs(2) [OF True] t st(2) by auto
    next
      case False
      then have "b \<in> set (WaitListHead (Objects s p))" using b lists by auto
      then show ?thesis using w(2) [of b p] un t st by (auto simp: unlinked_def)
    qed
    show "WbThread b = T \<and> (T \<notin> {} \<longrightarrow> b \<in> set (WaitListHead (Objects s' (WbObject b))))"
      if "State (Threads s' T) = Waiting" "b \<in> set (WaitBlockList (Threads s' T))" for T b
      using that w(3) [of T b] t lists bs(2) by (cases "T = C") auto
  qed
  have pr: "Priority (Threads s' T) = Priority (Threads s T)" for T using t by simp
  show "p \<le> top_priority s'" if "KiDispatcherReadyListHead s' p \<noteq> []" for p
    using o(4) [of p] that s' pr by (simp add: top_priority_def split: if_splits)
  show "listed s' T" if "T \<notin> {}" "State (Threads s' T) = Ready" for T
    using that o(9) [of T] s' t by (cases "T = C") (auto simp: listed_def queued_def split: if_splits)
  show "T = CurrentThread s'" if "T \<notin> insert (IdleThread s') {}" "State (Threads s' T) = Running" for T
    using that o(8) [of T] s' t by (cases "T = C") auto
  show "T = NextThread s'" if "T \<notin> insert NULL {}" "State (Threads s' T) = Standby" for T
    using that o(7) [of T] s' t by (cases "T = C") auto
  show "State (Threads s' (NextThread s')) = Standby" if "NextThread s' \<noteq> NULL"
    using that o(6) s' t st by auto
  show "prio_ok (Threads s' T)" for T using o(10) t by simp
  show "NextThread s' = NULL \<and> (\<forall>p. KiDispatcherReadyListHead s' p = [])" if "KiIdleSummary s' \<noteq> 0" using o(5) that s' by simp
qed

lemma EnterWait_rest:
  assumes r: "rest s" and i: "CurrentThread s \<noteq> IdleThread s" and C: "C = CurrentThread s"
    and bs: "distinct bs" "\<And>b. b \<in> set bs \<Longrightarrow> WbThread b = C"
    and sm: "same (LinkBlocks (upd_thread s C (\<lambda>t. t\<lparr>WaitBlockList := bs\<rparr>)) bs) s'"
  shows "rest (EnterWait s' Reason Mode Alert)"
proof -
  let ?l = "LinkBlocks (upd_thread s C (\<lambda>t. t\<lparr>WaitBlockList := bs\<rparr>)) bs"
  let ?w = "\<lambda>s. (upd_thread (s\<lparr>KeWaitReason := (KeWaitReason s)(Reason := KeWaitReason s Reason + 1)\<rparr>) C
    (\<lambda>t. t\<lparr>Alertable := Alert, WaitMode := Mode, WaitReason := Reason, WaitTime := TickCountLow s, State := Waiting\<rparr>))\<lparr>KiWaitInListHead := KiWaitInListHead s @ [C]\<rparr>"
  have ok: "sched_ok {} (?w ?l)"
    by (rule entered_ok [OF r i C bs, where t = "(Threads s C)\<lparr>WaitBlockList := bs, Alertable := Alert, WaitMode := Mode,
          WaitReason := Reason, WaitTime := TickCountLow s, State := Waiting\<rparr>"]) (use sched_okD(10) [OF restD(1) [OF r], of C] in \<open>simp_all add: prio_ok_def upd_thread_def\<close>)
  have "same (?w ?l) (?w s')" using sm by (simp add: same_def prio_ok_def)
  then have ok': "sched_ok {} (?w s')" by (rule same_ok [OF ok])
  have c: "CurrentThread s' = C" "IdleThread s' = IdleThread s" "KiIdleSummary s' = KiIdleSummary s" using sm C by (simp_all add: same_def)
  have idle: "State (Threads s' (IdleThread s)) = Running" using sm i C restD(3) [OF r] by (simp add: same_def)
  have "rest (SwitchFrom SwapEventTest (?w s') (CurrentThread (?w s')))"
    by (rule swap.select_rest [OF ok']) (use c idle i C restD(5,7) [OF r] in auto)
  then show ?thesis using c by (simp add: EnterWait_def Let_def)
qed

definition quiet :: "sched \<Rightarrow> bool" where
  \<comment> \<open>the queue that the current thread takes entries from, if there is one, is empty\<close>
  "quiet s \<longleftrightarrow> WaitQueue (Threads s (CurrentThread s)) = NULL \<or> EntryListHead (Objects s (WaitQueue (Threads s (CurrentThread s)))) = []"

lemma LeaveQueue_same: "quiet s \<Longrightarrow> same s (LeaveQueue s)"
  by (auto simp: LeaveQueue_def quiet_def KiActivateWaiterQueue_def Let_def intro: same_object)

lemma BlockOn_rest:
  assumes "rest s" "CurrentThread s \<noteq> IdleThread s" "distinct bs" "\<And>b. b \<in> set bs \<Longrightarrow> WbThread b = CurrentThread s" "quiet s"
  shows "rest (BlockOn s bs Reason Mode Alert)"
  unfolding BlockOn_def by (rule EnterWait_rest [OF assms(1,2) refl assms(3,4) LeaveQueue_same]) (use assms(5) in \<open>simp_all add: quiet_def\<close>)

definition private_timer :: "sched \<Rightarrow> bool" where
  \<comment> \<open>no thread waits on the timer of the current thread\<close>
  "private_timer s \<longleftrightarrow> WaitListHead (Objects s (Timer (Threads s (CurrentThread s)))) = []"

lemma timer_reset:
  assumes "private_timer s"
  shows "same s (fst (KiInsertTreeTimer (upd_object s (Timer (Threads s (CurrentThread s))) (\<lambda>t. t\<lparr>WaitListHead := []\<rparr>)) T Interval now))"
  by (rule same_trans [OF same_object KiInsertTreeTimer_same]) (use assms in \<open>simp add: private_timer_def\<close>)

lemma TestForAlertPending_frame [simp]:
  "Objects (fst (TestForAlertPending s Alert Mode)) = Objects s" "CurrentThread (fst (TestForAlertPending s Alert Mode)) = CurrentThread s"
  "IdleThread (fst (TestForAlertPending s Alert Mode)) = IdleThread s"
  "Timer (Threads (fst (TestForAlertPending s Alert Mode)) t) = Timer (Threads s t)"
  "WaitQueue (Threads (fst (TestForAlertPending s Alert Mode)) t) = WaitQueue (Threads s t)"
  "KernelStackResident (Threads (fst (TestForAlertPending s Alert Mode)) t) = KernelStackResident (Threads s t)"
  "BasePriority (Threads (fst (TestForAlertPending s Alert Mode)) t) = BasePriority (Threads s t)"
  "Priority (Threads (fst (TestForAlertPending s Alert Mode)) t) = Priority (Threads s t)"
  "Process (Threads (fst (TestForAlertPending s Alert Mode)) t) = Process (Threads s t)"
  "Processes (fst (TestForAlertPending s Alert Mode)) = Processes s" "NextThread (fst (TestForAlertPending s Alert Mode)) = NextThread s"
  by (simp_all add: TestForAlertPending_def Let_def)

lemma KiInsertTreeTimer_frame [simp]:
  "Threads (fst (KiInsertTreeTimer s T Interval now)) = Threads s" "CurrentThread (fst (KiInsertTreeTimer s T Interval now)) = CurrentThread s"
  "IdleThread (fst (KiInsertTreeTimer s T Interval now)) = IdleThread s"
  "Processes (fst (KiInsertTreeTimer s T Interval now)) = Processes s" "NextThread (fst (KiInsertTreeTimer s T Interval now)) = NextThread s"
  "EntryListHead (Objects (fst (KiInsertTreeTimer s T Interval now)) p) = EntryListHead (Objects s p)"
  by (simp_all add: KiInsertTreeTimer_def KiRemoveTreeTimer_def Let_def split: prod.split)

lemma WaitTimer_same: "private_timer s \<Longrightarrow> same s (fst (WaitTimer s Timeout now))"
  using timer_reset [of s] by (auto simp: WaitTimer_def Let_def case_prod_beta split: option.split)

lemma WaitTimer_frame:
  "WaitTimer s Timeout now = (s', x) \<Longrightarrow> CurrentThread s' = CurrentThread s \<and> IdleThread s' = IdleThread s \<and> (quiet s \<longrightarrow> quiet s') \<and>
     (\<forall>tb. x = Some tb \<longrightarrow> list_all (\<lambda>b. WbThread b = CurrentThread s \<and> WbWaitKey b = 258) tb \<and> distinct tb)"
  by (auto simp: WaitTimer_def Let_def case_prod_beta quiet_def split: option.splits if_splits)

lemma WaitBlocks_rest:
  assumes r: "rest s" and i: "CurrentThread s \<noteq> IdleThread s" and q: "quiet s" "private_timer s"
    and bs: "distinct bs" "\<And>b. b \<in> set bs \<Longrightarrow> WbThread b = CurrentThread s \<and> WbWaitKey b \<noteq> 258"
  shows "rest (fst (WaitBlocks s bs Reason Mode Alert Timeout now))"
proof -
  obtain s1 a where a: "TestForAlertPending s Alert Mode = (s1, a)" by force
  obtain s2 x where w: "WaitTimer s1 Timeout now = (s2, x)" by force
  have sm1: "same s s1" using TestForAlertPending_same [of s Alert Mode] a by simp
  have c1: "CurrentThread s1 = CurrentThread s" "IdleThread s1 = IdleThread s" "quiet s1" "private_timer s1"
    using TestForAlertPending_frame [of s Alert Mode] a q by (simp_all add: quiet_def private_timer_def)
  have sm2: "same s1 s2" using WaitTimer_same [OF c1(4), of Timeout now] w by simp
  note f = WaitTimer_frame [OF w, unfolded list_all_iff]
  note r1 = same_rest [OF r sm1] and r2 = same_rest [OF same_rest [OF r sm1] sm2]
  have "rest (BlockOn s2 (bs @ tb) Reason Mode Alert)" if "x = Some tb" for tb
  proof (rule BlockOn_rest [OF r2])
    show "distinct (bs @ tb)" using bs f that by auto
    show "WbThread b = CurrentThread s2" if "b \<in> set (bs @ tb)" for b using that bs f \<open>x = Some tb\<close> c1 by auto
  qed (use f c1 i in simp_all)
  then show ?thesis
    using UnlockWait_moves [OF same_moves [OF r1 same_refl]] UnlockWait_moves [OF same_moves [OF r2 same_refl]] f c1 i a w
    by (simp add: WaitBlocks_def split: option.split)
qed

end
