(* ===== verification/Wait_Static.thy ===== *)
theory Wait_Static
  imports Wait_Services Wait_Test
begin

text \<open>
  What the dispatcher never changes: the type of an object, the limit of a semaphore, the maximum
  of a queue, the timer, the process and the base priority of a thread.  Readying threads puts no
  timer on a list of the timer table.
\<close>

definition static :: "sched \<Rightarrow> sched \<Rightarrow> bool" where
  "static s s' \<longleftrightarrow> KiSwapEvent s' = KiSwapEvent s \<and>
     (\<forall>x. Timer (Threads s' x) = Timer (Threads s x) \<and> WaitBlockList (Threads s' x) = WaitBlockList (Threads s x) \<and>
        BasePriority (Threads s' x) = BasePriority (Threads s x) \<and> Process (Threads s' x) = Process (Threads s x)) \<and>
     (\<forall>p. HeaderType (Objects s' p) = HeaderType (Objects s p) \<and> Limit (Objects s' p) = Limit (Objects s p) \<and>
        MaximumCount (Objects s' p) = MaximumCount (Objects s p)) \<and>
     (\<forall>i. length (KiTimerTableListHead s' i) \<le> length (KiTimerTableListHead s i))"

lemma static_refl [simp]: "static s s"
  by (simp add: static_def)

lemma static_trans: "static s s' \<Longrightarrow> static s' s'' \<Longrightarrow> static s s''"
  unfolding static_def using order_trans by metis

lemma static_thread [simp]:
  assumes "Timer (f (Threads s t)) = Timer (Threads s t)" "WaitBlockList (f (Threads s t)) = WaitBlockList (Threads s t)"
    "BasePriority (f (Threads s t)) = BasePriority (Threads s t)" "Process (f (Threads s t)) = Process (Threads s t)"
  shows "static s (upd_thread s t f)" "static z s \<Longrightarrow> static z (upd_thread s t f)"
  using assms by (simp_all add: static_def)

lemma static_object [simp]:
  assumes "HeaderType (f (Objects s p)) = HeaderType (Objects s p)" "Limit (f (Objects s p)) = Limit (Objects s p)"
    "MaximumCount (f (Objects s p)) = MaximumCount (Objects s p)"
  shows "static s (upd_object s p f)" "static z s \<Longrightarrow> static z (upd_object s p f)"
  using assms by (simp_all add: static_def)

lemma static_process [simp]: "static z s \<Longrightarrow> static z (upd_process s p f)"
  by (simp add: static_def upd_process_def)

lemma static_fields [simp]:
  assumes "static z s"
  shows "static z (s\<lparr>KiProcessInSwapListHead := a\<rparr>)" "static z (s\<lparr>KiStackInSwapListHead := b\<rparr>)" "static z (s\<lparr>KiIdleSummary := c\<rparr>)"
    "static z (s\<lparr>NextThread := d\<rparr>)" "static z (s\<lparr>KeWaitReason := e\<rparr>)" "static z (s\<lparr>KiWaitInListHead := g\<rparr>)" "static z (s\<lparr>KiWaitOutListHead := h\<rparr>)"
    "static z (QueueTail s p t)" "static z (QueueHead s p t)" "static z (Dequeue s p t)"
    "static z (s\<lparr>CurrentThread := j\<rparr>)" "static z (s\<lparr>DispatchInterrupt := k\<rparr>)" "static z (s\<lparr>QuantumEnd := k\<rparr>)"
  using assms by (simp_all add: static_def QueueTail_def QueueHead_def Dequeue_def Let_def)

lemma SignalSwapEvent_static:
  assumes "\<And>s. static s (wake s)" "static z s"
  shows "static z (SignalSwapEvent wake s)"
proof -
  let ?s = "upd_object s (KiSwapEvent s) (\<lambda>e. e\<lparr>SignalState := 1\<rparr>)"
  have "static z ?s" using assms(2) by simp
  then show ?thesis using static_trans [OF _ assms(1), of z ?s] by (simp add: SignalSwapEvent_def Let_def)
qed

lemma KiReadyThread_static:
  assumes wake: "\<And>s. static s (wake s)"
  shows "static s (KiReadyThread wake s T)"
proof -
  have out: "static s (KiReadyThread wake s T)" if "\<not> resident s T" for s T
    using that SignalSwapEvent_static [OF wake]
    by (subst KiReadyThread.simps, unfold Let_def starts_def [symmetric]) (simp add: resident_def starts_def)
  have queue: "static s (KiReadyThread wake s T)" if "resident s T" "KiIdleSummary s = 0" "Priority (Threads s T) \<le> top_priority s" for s T
    unfolding ready_queue [OF that] by (simp add: starts_def)
  have plain: "static s (KiReadyThread wake s T)" if h: "NextThread s = NULL \<or> Priority (Threads s T) \<le> top_priority s" for s T
  proof -
    consider "\<not> resident s T" | "resident s T" "KiIdleSummary s \<noteq> 0" |
      "resident s T" "KiIdleSummary s = 0" "Priority (Threads s T) \<le> top_priority s" |
      "resident s T" "KiIdleSummary s = 0" "NextThread s = NULL" "Priority (Threads s (CurrentThread s)) < Priority (Threads s T)"
      using h by (cases "resident s T"; cases "KiIdleSummary s = 0"; cases "NextThread s = NULL"; cases "Priority (Threads s T) \<le> top_priority s")
        (auto simp: top_priority_def)
    then show ?thesis
    proof cases
      case 4
      then show ?thesis unfolding ready_preempt [OF 4] by (simp add: starts_def)
    qed (simp_all add: out queue ready_idle starts_def)
  qed
  show ?thesis
  proof (cases "resident s T \<and> KiIdleSummary s = 0 \<and> NextThread s \<noteq> NULL \<and> top_priority s < Priority (Threads s T)")
    case False
    then show ?thesis using plain [of s T] out [of s T] by (cases "resident s T"; cases "KiIdleSummary s = 0") (auto simp: ready_idle starts_def)
  next
    case True
    let ?s = "upd_thread ((upd_thread (starts s T) (NextThread s) (\<lambda>t. t\<lparr>Preempted := True\<rparr>))\<lparr>NextThread := T\<rparr>) T (\<lambda>t. t\<lparr>State := Standby\<rparr>)"
    have lt: "Priority (Threads s (NextThread s)) < Priority (Threads s T)" using True by (simp add: top_priority_def split: if_splits)
    have "static ?s (KiReadyThread wake ?s (NextThread s))" by (rule plain) (use lt in \<open>auto simp: top_priority_def\<close>)
    moreover have "static s ?s" by (simp add: starts_def)
    ultimately show ?thesis using ready_displace [of s T wake] True lt static_trans by metis
  qed
qed

lemma satisfy_static:
  "static s (KiWaitSatisfyMutant s Object Thread)" "static s (KiWaitSatisfyOther s Object)" "static s (KiWaitSatisfyAny s Object Thread)"
  by (simp_all add: KiWaitSatisfyMutant_def KiWaitSatisfyOther_def KiWaitSatisfyAny_def Let_def)

lemma SatisfyAll_static: "static s (SatisfyAll s bs Thread)"
  by (induction bs arbitrary: s) (auto intro: static_trans satisfy_static)

lemma KiWaitSatisfy_static: "static s (KiWaitSatisfy s b bs)"
  by (simp add: KiWaitSatisfy_def SatisfyAll_static)

lemma RemoveWaitBlocks_static: "static s (RemoveWaitBlocks s bs)"
proof (induction bs arbitrary: s)
  case (Cons b bs)
  show ?case unfolding RemoveWaitBlocks.simps by (rule static_trans [OF static_object(1) Cons.IH]) simp_all
qed simp

lemma KiRemoveTreeTimer_static: "static s (KiRemoveTreeTimer s T)"
  by (simp add: KiRemoveTreeTimer_def static_def length_remove1)

lemma LeaveWait_static: "static s (LeaveWait s T)"
proof -
  have l: "static s ((RemoveWaitBlocks s (WaitBlockList (Threads s T)))\<lparr>KiWaitInListHead := a, KiWaitOutListHead := b\<rparr>)" for a b
    by (simp add: RemoveWaitBlocks_static)
  from this static_trans [OF this KiRemoveTreeTimer_static] show ?thesis by (simp add: LeaveWait_def Let_def)
qed

lemma KiUnwaitThread_static:
  assumes "\<And>s t. static s (ready s t)"
  shows "static s (KiUnwaitThread ready s T Status Increment)"
proof -
  have u: "Timer (UnwaitPriority s i t) = Timer t" "WaitBlockList (UnwaitPriority s i t) = WaitBlockList t"
    "BasePriority (UnwaitPriority s i t) = BasePriority t" "Process (UnwaitPriority s i t) = Process t" for s i t
    by (simp_all add: UnwaitPriority_def Let_def)
  show ?thesis unfolding KiUnwaitThread_def Let_def
    by (rule static_trans [OF static_thread(2) assms]) (auto simp: u intro: static_trans [OF _ LeaveWait_static])
qed

lemma WaitTestLoop_static:
  assumes "WaitTestLoop ready s Object Increment k = Some s'" "\<And>s t. static s (ready s t)"
  shows "static s s'"
proof -
  have "(\<forall>s t. static s (ready s t)) \<longrightarrow> static s s'"
  proof (rule WaitTestLoop.raw_induct [where P = "\<lambda>ready s Object Increment k s'. (\<forall>s t. static s (ready s t)) \<longrightarrow> static s s'", OF _ assms(1)], rule impI)
    fix loop :: "(sched \<Rightarrow> ptr \<Rightarrow> sched) \<Rightarrow> sched \<Rightarrow> ptr \<Rightarrow> int \<Rightarrow> nat \<Rightarrow> sched option" and ready and s s' :: sched and Object Increment k
    let ?b = "WaitListHead (Objects s Object) ! k"
    let ?bs = "WaitBlockList (Threads s (WbThread ?b))"
    let ?s = "if WbWaitType ?b \<noteq> WaitAny then KiWaitSatisfy s ?b ?bs else KiWaitSatisfyAny s Object (WbThread ?b)"
    assume IH: "\<And>ready s Object Increment k s'. loop ready s Object Increment k = Some s' \<Longrightarrow> (\<forall>s t. static s (ready s t)) \<longrightarrow> static s s'"
      and e: "(if SignalState (Objects s Object) > 0 \<and> k < length (WaitListHead (Objects s Object)) then
          let WaitBlock = WaitListHead (Objects s Object) ! k; Thread = WbThread WaitBlock; bs = WaitBlockList (Threads s Thread)
          in if WbWaitType WaitBlock \<noteq> WaitAny \<and> \<not> OthersSignalled s Thread (tl (ring_from WaitBlock bs))
             then loop ready s Object Increment (k + 1)
             else let s = (if WbWaitType WaitBlock \<noteq> WaitAny then KiWaitSatisfy s WaitBlock bs else KiWaitSatisfyAny s Object Thread)
                  in loop ready (KiUnwaitThread ready s Thread (WbWaitKey WaitBlock) Increment) Object Increment k
          else Some s) = Some s'" and r: "\<forall>s t. static s (ready s t)"
    have "static s ?s" by (simp add: KiWaitSatisfy_static satisfy_static)
    then have u: "static s (KiUnwaitThread ready ?s (WbThread ?b) (WbWaitKey ?b) Increment)"
      by (rule static_trans [OF _ KiUnwaitThread_static [of ready, OF r [rule_format]]])
    let ?c = "SignalState (Objects s Object) > 0 \<and> k < length (WaitListHead (Objects s Object))"
    let ?o = "WbWaitType ?b \<noteq> WaitAny \<and> \<not> OthersSignalled s (WbThread ?b) (tl (ring_from ?b ?bs))"
    consider "\<not> ?c" | "?c" "?o" | "?c" "\<not> ?o" by blast
    then show "static s s'"
    proof cases
      case 1
      then have "s' = s" using e by (simp only: if_False option.inject)
      then show ?thesis by simp
    next
      case 2
      then have "loop ready s Object Increment (k + 1) = Some s'" using e by (simp only: Let_def if_True simp_thms)
      then show ?thesis using IH r by blast
    next
      case 3
      then have "loop ready (KiUnwaitThread ready ?s (WbThread ?b) (WbWaitKey ?b) Increment) Object Increment k = Some s'"
        using e by (simp only: Let_def if_True if_False simp_thms)
      then have "static (KiUnwaitThread ready ?s (WbThread ?b) (WbWaitKey ?b) Increment) s'" using IH r by blast
      with u show ?thesis by (rule static_trans)
    qed
  qed
  then show ?thesis using assms(2) by blast
qed

lemma KiWaitTest_static: "(\<And>s t. static s (ready s t)) \<Longrightarrow> KiWaitTest ready s Object Increment = Some s' \<Longrightarrow> static s s'"
  unfolding KiWaitTest_def by (erule WaitTestLoop_static)

lemma SwapWake_static: "static s (SwapWake n s)"
proof (induction n arbitrary: s)
  case (Suc n)
  have "static s x" if "KiWaitTest (KiReadyThread (SwapWake n)) s (KiSwapEvent s) 10 = Some x" for x
    using that by (rule KiWaitTest_static [rotated]) (rule KiReadyThread_static [OF Suc.IH])
  then show ?case by (simp split: option.split)
qed simp

lemma swap_static: "static s (SwapEventTest s)" "static s (KiReadyThread SwapEventTest s T)"
proof -
  show s: "static s (SwapEventTest s)" for s by (simp add: SwapEventTest_def SwapWake_static)
  show "static s (KiReadyThread SwapEventTest s T)" by (rule KiReadyThread_static [OF s])
qed

lemma unwait_static: "static s (KiUnwaitThread (KiReadyThread SwapEventTest) s T Status Increment)"
  by (rule KiUnwaitThread_static [OF swap_static(2)])

lemma test_static: "KiWaitTest (KiReadyThread SwapEventTest) s Object Increment = Some s' \<Longrightarrow> static s s'"
  by (rule KiWaitTest_static [OF swap_static(2)])

lemma KiActivateWaiterQueue_static: "static s (KiActivateWaiterQueue s Queue)"
  unfolding KiActivateWaiterQueue_def Let_def by (auto intro!: static_trans [OF _ unwait_static])

end
