(* ===== verification/Wait_Services_Rest.thy ===== *)
theory Wait_Services_Rest
  imports Wait_Rest Wait_Static
begin

text \<open>
  The wait services and the expiration of timers keep the scheduler at rest: a pass of
  \<open>KeWaitForSingleObject\<close>, \<open>KeWaitForMultipleObjects\<close>, \<open>KeDelayExecutionThread\<close> and
  \<open>KeRemoveQueue\<close> ends at rest, whether the thread returns, retries or gives up its processor.
\<close>

section \<open>Giving up the rest of a quantum\<close>

lemma yield_switch:
  \<comment> \<open>\<open>KiSwapContext\<close> readies the current thread before the switch, \<open>SwitchToNext\<close> after it\<close>
  assumes "KiIdleSummary s = 0" "resident s C" "C = CurrentThread s" "N = NextThread s" "N \<noteq> NULL" "N \<noteq> C"
    "Priority (Threads s C) \<le> Priority (Threads s N)"
  shows "KiSwapContext wake (upd_thread ((upd_thread s N (\<lambda>t. t\<lparr>State := x\<rparr>))\<lparr>NextThread := NULL\<rparr>) C (\<lambda>t. t\<lparr>Preempted := False\<rparr>)) N True =
    SwitchToNext wake (upd_thread s C (\<lambda>t. t\<lparr>Preempted := False\<rparr>))"
proof -
  let ?a = "upd_thread ((upd_thread s N (\<lambda>t. t\<lparr>State := x\<rparr>))\<lparr>NextThread := NULL\<rparr>) C (\<lambda>t. t\<lparr>Preempted := False\<rparr>)"
  let ?b = "(upd_thread s C (\<lambda>t. t\<lparr>Preempted := False\<rparr>))\<lparr>NextThread := NULL, CurrentThread := N\<rparr>"
  have a: "KiReadyThread wake ?a C = QueueTail (upd_thread (starts ?a C) C (\<lambda>t. t\<lparr>State := Ready\<rparr>)) (Priority (Threads s C)) C"
    by (subst ready_queue) (use assms in \<open>simp_all add: resident_def top_priority_def\<close>)
  have b: "KiReadyThread wake ?b C = QueueTail (upd_thread (starts ?b C) C (\<lambda>t. t\<lparr>State := Ready\<rparr>)) (Priority (Threads s C)) C"
    by (subst ready_queue) (use assms in \<open>simp_all add: resident_def top_priority_def\<close>)
  have "KiSwapContext wake ?a N True = SwapContext ((KiReadyThread wake ?a C)\<lparr>CurrentThread := N\<rparr>) N"
    using assms(3,4) by (simp add: KiSwapContext_def)
  moreover have "SwitchToNext wake (upd_thread s C (\<lambda>t. t\<lparr>Preempted := False\<rparr>)) = SwapContext (KiReadyThread wake ?b C) N"
    using assms(3,4) by (simp add: SwitchToNext_def Let_def)
  ultimately show ?thesis unfolding a b using assms(6)
    by (simp add: SwapContext_def QueueTail_def starts_def upd_thread_def fun_upd_twist)
qed

definition yields :: "sched \<Rightarrow> bool" where
  \<comment> \<open>what holds of the running thread when it calls \<open>KeDelayExecutionThread\<close>\<close>
  "yields s \<longleftrightarrow> NextThread s = NULL \<and> CurrentThread s \<noteq> IdleThread s \<and> resident s (CurrentThread s) \<and>
     (Priority (Threads s (CurrentThread s)) < 16 \<longrightarrow>
      BasePriority (Threads s (CurrentThread s)) \<le> Priority (Threads s (CurrentThread s)))"

lemma next_yields:
  \<comment> \<open>the switch to the next thread that ends \<open>DelayYield\<close>\<close>
  assumes r: "rest s" and C: "C = CurrentThread s" "resident s C" "C \<noteq> IdleThread s" and N: "N = NextThread s" "N \<noteq> NULL"
    "Priority (Threads s C) \<le> Priority (Threads s N)"
    and s': "s' = upd_thread ((upd_thread s N (\<lambda>t. t\<lparr>State := x\<rparr>))\<lparr>NextThread := NULL\<rparr>) C (\<lambda>t. t\<lparr>Preempted := False\<rparr>)"
  shows "rest (KiSwapContext SwapEventTest s' N True)"
proof -
  note o = sched_okD [OF restD(1) [OF r]]
  let ?p = "upd_thread s C (\<lambda>t. t\<lparr>Preempted := False\<rparr>)"
  have rp: "rest ?p" by (rule same_rest [OF r same_thread]) simp_all
  have "N \<noteq> C" using o(6) N restD(2) [OF r] C(1) by auto
  moreover have "KiIdleSummary s = 0" using o(5) N by auto
  ultimately have "KiSwapContext SwapEventTest s' N True = SwitchToNext SwapEventTest ?p"
    unfolding s' by (intro yield_switch) (use C N in auto)
  then show ?thesis using swap.SwitchToNext_rest [OF rp] C N by simp
qed

lemma standby_undone:
  assumes "State (Threads s N) = x"
  shows "(upd_thread ((upd_thread s N (\<lambda>t. t\<lparr>State := y\<rparr>))\<lparr>NextThread := N\<rparr>) N (\<lambda>t. t\<lparr>State := x\<rparr>))\<lparr>NextThread := NULL\<rparr> = s\<lparr>NextThread := NULL\<rparr>"
proof -
  have "(Threads s N)\<lparr>State := x\<rparr> = Threads s N" by (rule KTHREAD.equality) (use assms in simp_all)
  then show ?thesis by (simp add: upd_thread_def)
qed

lemma yield_found:
  \<comment> \<open>another thread of the same priority\<close>
  assumes r: "rest s" and y: "yields s" and P: "P = Priority (Threads s (CurrentThread s))"
    and f: "KiFindReadyThread s P P = (s1, N)" "N \<noteq> NULL"
  shows "rest (KiSwapContext SwapEventTest (upd_thread (s1\<lparr>NextThread := NULL\<rparr>) (CurrentThread s) (\<lambda>t. t\<lparr>Preempted := False\<rparr>)) N True)"
proof -
  note ok = restD(1) [OF r]
  have p32: "P < 32" using sched_okD(10) [OF ok] P by (simp add: prio_ok_def)
  have n: "NextThread s = NULL" using y by (simp add: yields_def)
  have "found s P P (s1, N)" using KiFindReadyThread_found [OF sched_okD(1) [OF ok] p32 p32] f by simp
  then obtain q where q: "P \<le> q" "q \<le> P" "N \<in> set (KiDispatcherReadyListHead s q)" "s1 = Dequeue s q N"
    using f(2) by (cases rule: found_cases) auto
  let ?n = "(upd_thread s1 N (\<lambda>t. t\<lparr>State := Standby\<rparr>))\<lparr>NextThread := N\<rparr>"
  have rn: "rest ?n" using swap.find_same_moves [OF r n P] f by (simp add: moves_def)
  note d = dequeued [OF ok q(3)]
  have st: "State (Threads s1 N) = Ready" using d(7) q(4) by simp
  have ne: "CurrentThread s \<noteq> N" using d(7) restD(2) [OF r] by auto
  have "KiSwapContext SwapEventTest (upd_thread (s1\<lparr>NextThread := NULL\<rparr>) (CurrentThread s) (\<lambda>t. t\<lparr>Preempted := False\<rparr>)) N True =
      KiSwapContext SwapEventTest (upd_thread ((upd_thread ?n N (\<lambda>t. t\<lparr>State := Ready\<rparr>))\<lparr>NextThread := NULL\<rparr>)
        (CurrentThread s) (\<lambda>t. t\<lparr>Preempted := False\<rparr>)) N True"
    unfolding standby_undone [OF st] by (rule refl)
  also have "rest \<dots>"
  proof (rule next_yields [OF rn, of "CurrentThread s" N _ Ready])
    show "resident ?n (CurrentThread s)" using y q(4) ne by (simp add: yields_def resident_def)
    show "CurrentThread s \<noteq> IdleThread ?n" using y q(4) by (simp add: yields_def)
    show "Priority (Threads ?n (CurrentThread s)) \<le> Priority (Threads ?n N)" using d(8) q(1,4) P ne by simp
  qed (use f(2) q(4) in simp_all)
  finally show ?thesis .
qed

lemma state_idem: "State (Threads s N) = x \<Longrightarrow> upd_thread s N (\<lambda>t. t\<lparr>State := x\<rparr>) = s"
  by (auto simp: upd_thread_def intro!: sched.equality ext KTHREAD.equality)

lemma lowered_yields:
  \<comment> \<open>the running thread falls to its base priority \<open>B\<close>\<close>
  assumes r: "rest s" and C: "C = CurrentThread s" "resident s C" "C \<noteq> IdleThread s" "NextThread s = NULL"
    and B: "B < Priority (Threads s C)" and s1: "s1 = KiSetPriorityThread SwapEventTest s C B"
  shows "rest s1" "CurrentThread s1 = C" "IdleThread s1 = IdleThread s"
    "NextThread s1 \<noteq> NULL \<Longrightarrow> rest (KiSwapContext SwapEventTest (upd_thread (s1\<lparr>NextThread := NULL\<rparr>) C (\<lambda>t. t\<lparr>Preempted := False\<rparr>)) (NextThread s1) True)"
    "NextThread s1 = NULL \<Longrightarrow> KiFindReadyThread s1 (Priority (Threads s C)) (Priority (Threads s C)) = (s1, NULL)"
proof -
  note ok = restD(1) [OF r]
  note o = sched_okD [OF ok]
  let ?P = "Priority (Threads s C)" and ?s = "upd_thread s C (\<lambda>t. t\<lparr>Priority := B\<rparr>)"
  have run: "State (Threads s C) = Running" "C \<noteq> NULL" using restD(2,4) [OF r] C by simp_all
  have P: "?P < 32" using o(10) by (simp add: prio_ok_def)
  have "moves s s1" unfolding s1 by (rule swap.KiSetPriorityThread_moves [OF r run(2)]) (use B P C in simp_all)
  then show rest: "rest s1" and c: "CurrentThread s1 = C" and i: "IdleThread s1 = IdleThread s" using evolvesD(1,2) C(1) by (auto simp: moves_def)
  have q: "queues_ok ?s" using o(1) run by (auto simp: queues_ok_def)
  obtain f t where f: "KiFindReadyThread ?s ?P (B + 1) = (f, t)" by force
  have e: "s1 = (if t \<noteq> NULL then (upd_thread f t (\<lambda>t. t\<lparr>State := Standby\<rparr>))\<lparr>NextThread := t\<rparr> else f)"
    using B run C(4) f by (simp add: s1 KiSetPriorityThread_def Let_def)
  have fd: "found ?s (B + 1) ?P (f, t)" using KiFindReadyThread_found [OF q P, of "B + 1"] f B P by simp
  show "KiFindReadyThread s1 ?P ?P = (s1, NULL)" if n: "NextThread s1 = NULL"
    using fd
  proof (cases rule: found_cases)
    case (1 p)
    then have "t \<noteq> NULL" using queues_okD(3) [OF q] by blast
    then show ?thesis using n e by simp
  next
    case 2
    then have s: "s1 = ?s" using e by simp
    have "found s1 ?P ?P (KiFindReadyThread s1 ?P ?P)" unfolding s by (rule KiFindReadyThread_found [OF q P P])
    then show ?thesis using 2(3) [of ?P] B s by (auto simp: found_def)
  qed
  show "rest (KiSwapContext SwapEventTest (upd_thread (s1\<lparr>NextThread := NULL\<rparr>) C (\<lambda>t. t\<lparr>Preempted := False\<rparr>)) (NextThread s1) True)"
    if n: "NextThread s1 \<noteq> NULL"
    using fd
  proof (cases rule: found_cases)
    case (1 p)
    have tC: "t \<noteq> C" using queues_okD(3) [OF q 1(3)] run by auto
    have t: "Priority (Threads s1 t) = p" "Threads s1 C = (Threads s C)\<lparr>Priority := B\<rparr>" "Processes s1 = Processes s" "NextThread s1 = t" "t \<noteq> NULL"
      using queues_okD(3) [OF q 1(3)] tC e 1(5) by simp_all
    have st: "State (Threads s1 (NextThread s1)) = Standby" using sched_okD(6) [OF restD(1) [OF rest] n] .
    have le: "Priority (Threads s1 C) \<le> Priority (Threads s1 (NextThread s1))" "resident s1 C" using t 1(1) C(2) by (simp_all add: resident_def)
    show ?thesis
      by (rule next_yields [OF rest _ le(2) _ _ n le(1), where x = Standby]) (simp_all only: c i C(3) state_idem [OF st] simp_thms)
  next
    case 2
    then show ?thesis using n e C(4) by simp
  qed
qed

lemma DelayYield_rest:
  assumes r: "rest s" and y: "yields s"
  shows "rest (fst (DelayYield s))"
proof -
  define C where "C = CurrentThread s"
  define P where "P = Priority (Threads s C)"
  define B where "B = BasePriority (Threads s C)"
  have y': "NextThread s = NULL" "C \<noteq> IdleThread s" "resident s C" "P < 16 \<Longrightarrow> B \<le> P" using y by (simp_all add: yields_def C_def P_def B_def)
  show ?thesis
  proof (cases "P < 16 \<and> P \<noteq> B")
    case False
    obtain s1 N where f: "KiFindReadyThread s P P = (s1, N)" by force
    have e: "DelayYield s = (if N \<noteq> NULL then (KiSwapContext SwapEventTest (upd_thread (s1\<lparr>NextThread := NULL\<rparr>) C (\<lambda>t. t\<lparr>Preempted := False\<rparr>)) N True, Blocks)
        else (UnlockWait (s1\<lparr>NextThread := N\<rparr>), Returns 258))"
      using False f y'(1) by (auto simp: DelayYield_def Let_def C_def P_def B_def)
    show ?thesis
    proof (cases "N = NULL")
      case True
      have "P < 32" using sched_okD(10) [OF restD(1) [OF r]] P_def by (simp add: prio_ok_def)
      then have "found s P P (s1, N)" using KiFindReadyThread_found [OF sched_okD(1) [OF restD(1) [OF r]]] f by metis
      then have "s1 = s" using True dequeued(5) [OF restD(1) [OF r]] by (cases rule: found_cases) auto
      moreover have "s\<lparr>NextThread := NULL\<rparr> = s" using y'(1) by simp
      ultimately show ?thesis using e True UnlockWait_moves [OF same_moves [OF r same_refl]] y'(2) C_def by simp
    next
      case False
      then show ?thesis using e yield_found [OF r y _ f] by (simp add: C_def P_def)
    qed
  next
    case True
    let ?s = "upd_thread s C (\<lambda>t. t\<lparr>PriorityDecrement := 0\<rparr>)"
    define s1 where "s1 = KiSetPriorityThread SwapEventTest ?s C B"
    have rs: "rest ?s" by (rule same_rest [OF r]) (simp add: same_def prio_ok_def)
    have lt: "B < Priority (Threads ?s C)" using True y'(4) by (simp add: P_def)
    note l = lowered_yields [OF rs _ _ _ _ lt s1_def]
    have l': "rest s1" "CurrentThread s1 = C" "IdleThread s1 = IdleThread s"
      "NextThread s1 \<noteq> NULL \<Longrightarrow> rest (KiSwapContext SwapEventTest (upd_thread (s1\<lparr>NextThread := NULL\<rparr>) C (\<lambda>t. t\<lparr>Preempted := False\<rparr>)) (NextThread s1) True)"
      "NextThread s1 = NULL \<Longrightarrow> KiFindReadyThread s1 P P = (s1, NULL)"
      using l y'(1-3) by (simp_all add: C_def P_def resident_def)
    have "DelayYield s = (if NextThread s1 = NULL then (UnlockWait (s1\<lparr>NextThread := NULL\<rparr>), Returns 258)
        else (KiSwapContext SwapEventTest (upd_thread (s1\<lparr>NextThread := NULL\<rparr>) C (\<lambda>t. t\<lparr>Preempted := False\<rparr>)) (NextThread s1) True, Blocks))"
      using True l'(5) by (auto simp: DelayYield_def Let_def C_def P_def B_def s1_def)
    moreover have "rest (UnlockWait (s1\<lparr>NextThread := NULL\<rparr>))" if "NextThread s1 = NULL"
    proof -
      have "s1\<lparr>NextThread := NULL\<rparr> = s1" using that by simp
      then show ?thesis using UnlockWait_moves [OF same_moves [OF l'(1) same_refl]] l'(2,3) y'(2) by simp
    qed
    ultimately show ?thesis using l'(4) by simp
  qed
qed

section \<open>The wait services\<close>

lemma wait_frame [simp]:
  "CurrentThread (AcquireForWait s OldIrql) = CurrentThread s" "IdleThread (AcquireForWait s OldIrql) = IdleThread s"
  "Objects (AcquireForWait s OldIrql) = Objects s" "NextThread (AcquireForWait s OldIrql) = NextThread s"
  "quiet (AcquireForWait s OldIrql) = quiet s" "private_timer (AcquireForWait s OldIrql) = private_timer s"
  "quiet (upd_thread s t (\<lambda>t. t\<lparr>WaitStatus := x\<rparr>)) = quiet s" "private_timer (upd_thread s t (\<lambda>t. t\<lparr>WaitStatus := x\<rparr>)) = private_timer s"
  by (simp_all add: AcquireForWait_def quiet_def private_timer_def)

lemma wait_status_same: "same s (upd_thread s t (\<lambda>t. t\<lparr>WaitStatus := x\<rparr>))"
  by (rule same_thread) simp_all

definition may_wait :: "sched \<Rightarrow> bool" where
  \<comment> \<open>what holds of the running thread when it calls a wait service\<close>
  "may_wait s \<longleftrightarrow> CurrentThread s \<noteq> IdleThread s \<and> quiet s \<and> private_timer s"

lemma may_wait_frame [simp]:
  "may_wait (AcquireForWait s OldIrql) = may_wait s" "may_wait (upd_thread s t (\<lambda>t. t\<lparr>WaitStatus := x\<rparr>)) = may_wait s"
  by (simp_all add: may_wait_def)

lemma UnlockWait_same: "rest s \<Longrightarrow> may_wait s \<Longrightarrow> same s s' \<Longrightarrow> rest (UnlockWait s')"
  by (rule UnlockWait_moves [of s s', OF same_moves]) (simp_all add: may_wait_def)

lemma SingleWaitPass_rest:
  assumes "rest s" "may_wait s"
  shows "rest (fst (SingleWaitPass s Object Reason Mode Alert Timeout now))"
proof -
  let ?s = "upd_thread s (CurrentThread s) (\<lambda>t. t\<lparr>WaitStatus := 0\<rparr>)"
  have r: "rest ?s" by (rule same_rest [OF assms(1) wait_status_same])
  note u = UnlockWait_same [OF r]
  have "rest (fst (WaitBlocks ?s [\<lparr>WbThread = CurrentThread s, WbObject = Object, WbWaitKey = 0, WbWaitType = WaitAny\<rparr>] Reason Mode Alert Timeout now))"
    by (rule WaitBlocks_rest [OF r]) (use assms(2) in \<open>simp_all add: may_wait_def\<close>)
  then show ?thesis
    using UnlockWait_same [OF assms same_refl] u [OF _ same_refl] u [OF _ same_mutant] u [OF _ same_other] assms(2)
    by (auto simp: SingleWaitPass_def Let_def)
qed

lemma KeWaitForSingleObject_rest:
  "rest s \<Longrightarrow> may_wait s \<Longrightarrow> rest (fst (KeWaitForSingleObject s Object Reason Mode Alert Timeout now OldIrql))"
  unfolding KeWaitForSingleObject_def by (rule SingleWaitPass_rest [OF same_rest [OF _ AcquireForWait_same]]) simp_all

lemma WaitScanAny_rest:
  assumes "rest s" "may_wait s"
  shows "WaitScanAny s Index os = Some (s', x) \<Longrightarrow> rest s'"
proof (induction os arbitrary: Index)
  case (Cons Object os)
  note u = UnlockWait_same [OF assms]
  show ?case using Cons u [OF same_refl] u [OF same_mutant] u [OF same_other] by (auto simp: Let_def split: if_splits)
qed simp

lemma MultipleBlocks_ok:
  "length os + Index \<le> 64 \<Longrightarrow> distinct (MultipleBlocks Thread Type Index os) \<and>
     (\<forall>b \<in> set (MultipleBlocks Thread Type Index os). WbThread b = Thread \<and> (\<exists>i. i < 64 \<and> Index \<le> i \<and> WbWaitKey b = word_of_nat i))"
proof (induction os arbitrary: Index)
  case (Cons Object os)
  have inj: "(word_of_nat Index :: 32 word) \<noteq> word_of_nat i" if "i < 64" "Suc Index \<le> i" for i
    using that by (simp add: word_of_nat_eq_iff take_bit_eq_mod)
  have "\<lparr>WbThread = Thread, WbObject = Object, WbWaitKey = word_of_nat Index, WbWaitType = Type\<rparr> \<notin> set (MultipleBlocks Thread Type (Suc Index) os)"
    using Cons.IH [of "Suc Index"] Cons.prems inj by auto
  moreover have "\<exists>i < 64. Index \<le> i \<and> (word_of_nat Index :: 32 word) = word_of_nat i" using Cons.prems by (intro exI [of _ Index]) simp
  ultimately show ?case using Cons.IH [of "Suc Index"] Cons.prems by (auto dest!: Suc_leD)
qed simp

lemma MultipleWaitPass_rest:
  assumes "rest s" "may_wait s" "length os \<le> 64"
  shows "rest (fst (MultipleWaitPass s os Type Reason Mode Alert Timeout now))"
proof -
  let ?s = "upd_thread s (CurrentThread s) (\<lambda>t. t\<lparr>WaitStatus := 0\<rparr>)" and ?bs = "MultipleBlocks (CurrentThread s) Type 0 os"
  have r: "rest ?s" by (rule same_rest [OF assms(1) wait_status_same])
  have w: "may_wait ?s" using assms(2) by simp
  note m = MultipleBlocks_ok [of os 0 "CurrentThread s" Type]
  have key: "(word_of_nat i :: 32 word) \<noteq> 258" if "i < 64" for i
    using that word_of_nat_eq_iff [of i 258, where 'a = 32] by (simp add: take_bit_eq_mod)
  have "rest (fst (WaitBlocks ?s ?bs Reason Mode Alert Timeout now))"
    by (rule WaitBlocks_rest [OF r]) (use assms(2,3) m key in \<open>auto simp: may_wait_def\<close>)
  moreover have "rest (fst x)" if "WaitScanAny ?s 0 os = Some x" for x using WaitScanAny_rest [OF r w, of 0 os "fst x" "snd x"] that by simp
  ultimately show ?thesis
    using UnlockWait_same [OF assms(1,2) same_refl] UnlockWait_same [OF r w same_refl] UnlockWait_same [OF r w same_satisfy]
    by (auto simp: MultipleWaitPass_def Let_def split: WAIT_TYPE.split option.split bool.split)
qed

lemma KeWaitForMultipleObjects_rest:
  assumes "rest s" "may_wait s"
  shows "rest (fst (KeWaitForMultipleObjects s os Type Reason Mode Alert Timeout now array OldIrql))"
proof -
  have r: "rest (AcquireForWait s OldIrql)" by (rule same_rest [OF assms(1) AcquireForWait_same])
  show ?thesis using r MultipleWaitPass_rest [OF r, of os] assms(2) by (simp add: KeWaitForMultipleObjects_def Let_def)
qed

lemma DelayPass_rest:
  assumes r: "rest s" and w: "may_wait s" and y: "yields s"
  shows "rest (fst (DelayPass s Mode Alert Interval now))"
proof -
  obtain s1 a where a: "TestForAlertPending s Alert Mode = (s1, a)" by force
  let ?T = "Timer (Threads s1 (CurrentThread s))" and ?s = "upd_thread s1 (CurrentThread s) (\<lambda>t. t\<lparr>WaitStatus := 0\<rparr>)"
  obtain s2 ok where i: "KiInsertTreeTimer (upd_object ?s ?T (\<lambda>t. t\<lparr>WaitListHead := []\<rparr>)) ?T Interval now = (s2, ok)" by force
  have sm1: "same s s1" using TestForAlertPending_same [of s Alert Mode] a by simp
  have c1: "CurrentThread s1 = CurrentThread s" "IdleThread s1 = IdleThread s" "may_wait ?s"
    using TestForAlertPending_frame [of s Alert Mode] a w by (simp_all add: may_wait_def quiet_def private_timer_def)
  have sm2: "same s s2"
    using same_trans [OF same_trans [OF sm1 wait_status_same] timer_reset [of ?s ?T Interval now]] i c1 by (simp add: may_wait_def)
  have c2: "CurrentThread s2 = CurrentThread s" "IdleThread s2 = IdleThread s" "quiet s2"
    using KiInsertTreeTimer_frame [of "upd_object ?s ?T (\<lambda>t. t\<lparr>WaitListHead := []\<rparr>)" ?T Interval now] i c1 by (auto simp: may_wait_def quiet_def)
  have r2: "rest s2" by (rule same_rest [OF r sm2])
  have f2: "Threads s2 = Threads ?s" "Processes s2 = Processes s1" "NextThread s2 = NextThread s1"
    using KiInsertTreeTimer_frame [of "upd_object ?s ?T (\<lambda>t. t\<lparr>WaitListHead := []\<rparr>)" ?T Interval now] i by simp_all
  have y2: "yields s2" using y TestForAlertPending_frame [of s Alert Mode] a f2 c2 by (simp add: yields_def resident_def)
  have "rest (BlockOn s2 [\<lparr>WbThread = CurrentThread s, WbObject = ?T, WbWaitKey = 0, WbWaitType = WaitAny\<rparr>] 4 Mode Alert)"
    by (rule BlockOn_rest [OF r2]) (use c2 w in \<open>simp_all add: may_wait_def\<close>)
  then show ?thesis using UnlockWait_same [OF r w same_refl] UnlockWait_same [OF r w sm1] DelayYield_rest [OF r2 y2] a i
    by (simp add: DelayPass_def Let_def split: option.split)
qed

lemma KeDelayExecutionThread_rest:
  assumes "rest s" "may_wait s" "yields s"
  shows "rest (fst (KeDelayExecutionThread s Mode Alert Interval now OldIrql))"
  unfolding KeDelayExecutionThread_def
proof (rule DelayPass_rest [OF same_rest [OF assms(1) AcquireForWait_same]])
  show "yields (AcquireForWait s OldIrql)" using assms(3) by (simp add: yields_def resident_def AcquireForWait_def)
qed (use assms(2) in simp)

section \<open>Taking an entry from a queue\<close>

lemma private_timer_moves:
  assumes "private_timer s" "evolves X s s'" "static s s'"
  shows "private_timer s'"
  using assms(1,3) evolvesD(1) [OF assms(2)] evolvesD(10) [OF assms(2), of "Timer (Threads s (CurrentThread s))"]
  by (simp add: private_timer_def static_def)

lemma JoinQueue_moves:
  assumes r: "rest s"
  shows "moves s (JoinQueue s Queue)" "static s (JoinQueue s Queue)"
proof -
  let ?C = "CurrentThread s" and ?O = "WaitQueue (Threads s (CurrentThread s))"
  let ?a = "upd_thread s ?C (\<lambda>t. t\<lparr>WaitQueue := Queue\<rparr>)"
  let ?b = "upd_object ?a ?O (\<lambda>q. q\<lparr>ThreadListHead := remove1 ?C (ThreadListHead q)\<rparr>)"
  let ?c = "if ?O \<noteq> NULL then KiActivateWaiterQueue ?b ?O else ?a"
  have a: "moves s ?a" by (rule same_moves [OF r same_thread]) simp_all
  then have b: "moves s ?b" by (rule moves_same [OF _ same_object]) simp
  have "moves ?b (KiActivateWaiterQueue ?b ?O)" by (rule KiActivateWaiterQueue_moves) (use b in \<open>simp add: moves_def\<close>)
  then have c: "moves s ?c" using a moves_trans [OF b] by simp
  have "static s ?c" using static_trans [OF _ KiActivateWaiterQueue_static, of s ?b] by simp
  then show "static s (JoinQueue s Queue)" by (simp add: JoinQueue_def Let_def)
  have "moves s (upd_object ?c Queue (\<lambda>q. q\<lparr>ThreadListHead := ThreadListHead q @ [?C]\<rparr>))" by (rule moves_same [OF c same_object]) simp
  moreover have "moves s (upd_object ?a Queue (\<lambda>q. q\<lparr>CurrentCount := u32_sub (CurrentCount q) 1\<rparr>))" by (rule moves_same [OF a same_object]) simp
  ultimately show "moves s (JoinQueue s Queue)" by (auto simp: JoinQueue_def Let_def)
qed

lemma RemoveQueuePass_rest:
  assumes r: "rest s" and i: "CurrentThread s \<noteq> IdleThread s" and t: "private_timer s"
  shows "rest (fst (RemoveQueuePass s Queue Mode Timeout now))"
proof -
  let ?C = "CurrentThread s" and ?s = "upd_thread s (CurrentThread s) (\<lambda>t. t\<lparr>WaitStatus := 0\<rparr>)"
  obtain s2 x where w: "WaitTimer ?s Timeout now = (s2, x)" by force
  have sm: "same s s2" using same_trans [OF wait_status_same WaitTimer_same [of ?s Timeout now]] w t by simp
  note f = WaitTimer_frame [OF w, unfolded list_all_iff]
  have u: "rest (UnlockWait (upd_object s' Queue g))" if "same s s'" "WaitListHead (g (Objects s' Queue)) = WaitListHead (Objects s' Queue)" for s' g
    by (rule UnlockWait_moves [OF same_moves [OF r same_trans [OF that(1) same_object]] i]) (rule that(2))
  have u': "rest (UnlockWait (upd_object (upd_object s Queue f) Queue g))"
    if "\<And>q. WaitListHead (f q) = WaitListHead q" "\<And>q. WaitListHead (g q) = WaitListHead q" for f g
    by (rule u [OF same_object]) (use that in simp_all)
  have "rest (EnterWait (LinkBlocks (upd_thread s2 ?C (\<lambda>t. t\<lparr>WaitBlockList := b # tb\<rparr>)) (b # tb)) WrQueue Mode False)"
    if x: "x = Some tb" and b: "b = \<lparr>WbThread = ?C, WbObject = Queue, WbWaitKey = 0, WbWaitType = WaitAny\<rparr>" for tb b
  proof (rule EnterWait_rest [OF same_rest [OF r sm] _ _ _ _ same_refl])
    show "distinct (b # tb)" using f x b by auto
    show "WbThread y = ?C" if "y \<in> set (b # tb)" for y using that f x b by auto
  qed (use f i in simp_all)
  note block = this [OF _ refl]
  show ?thesis
    using u [OF same_refl] u [OF sm] u' block w
    by (auto simp: RemoveQueuePass_def Let_def split: option.split)
qed

lemma KeRemoveQueue_rest:
  assumes "rest s" "CurrentThread s \<noteq> IdleThread s" "private_timer s"
  shows "rest (fst (KeRemoveQueue s Queue Mode Timeout now OldIrql))"
proof -
  let ?a = "AcquireForWait s OldIrql"
  have r: "rest ?a" by (rule same_rest [OF assms(1) AcquireForWait_same])
  note j = JoinQueue_moves [OF r, of Queue]
  have e: "evolves {} ?a (JoinQueue ?a Queue)" and rj: "rest (JoinQueue ?a Queue)" using j(1) by (simp_all add: moves_def)
  show ?thesis unfolding KeRemoveQueue_def
    by (rule RemoveQueuePass_rest [OF rj _ private_timer_moves [OF _ e j(2)]]) (use assms evolvesD(1,2) [OF e] in simp_all)
qed

section \<open>The expiration of timers\<close>

definition routine_ok :: "(ptr \<Rightarrow> sched \<Rightarrow> sched) \<Rightarrow> bool" where
  \<comment> \<open>a deferred routine runs at \<open>DISPATCH_LEVEL\<close>: it does not switch threads, it leaves the scheduler
    at rest, and it puts no timer on the local list of the expired timers\<close>
  "routine_ok routine \<longleftrightarrow> (\<forall>d s. rest s \<longrightarrow> moves s (routine d s) \<and>
     length (KiTimerTableListHead (routine d s) 128) \<le> length (KiTimerTableListHead s 128))"

lemma SignalTimer_shorter:
  assumes "SignalTimer routine s T = Some s'" "T \<in> set (KiTimerTableListHead s 128)" "routine_ok routine" "rest s"
  shows "length (KiTimerTableListHead s' 128) < length (KiTimerTableListHead s 128)"
proof -
  let ?s = "upd_object (KiRemoveTreeTimer s T) T (\<lambda>t. t\<lparr>SignalState := 1\<rparr>)"
  have r: "rest ?s" by (rule same_rest [OF assms(4) same_trans [OF KiRemoveTreeTimer_same signal_state_same]])
  obtain s2 where s2: "(if WaitListHead (Objects ?s T) \<noteq> [] then KiWaitTest (KiReadyThread SwapEventTest) ?s T 0 else Some ?s) = Some s2"
      "s' = (if TimerDpc (Objects s2 T) \<noteq> NULL then routine (TimerDpc (Objects s2 T)) s2 else s2)"
    using assms(1) by (auto simp: SignalTimer_def Let_def split: option.splits)
  have "static ?s s2" using s2(1) test_static by (auto split: if_splits)
  then have a: "length (KiTimerTableListHead s2 128) \<le> length (KiTimerTableListHead ?s 128)" by (simp add: static_def)
  have r2: "rest s2" using test_if_moves [OF r, of "WaitListHead (Objects ?s T) \<noteq> []" T 0] unfolding s2(1) by (auto simp: moves_def)
  have "length (KiTimerTableListHead ?s 128) < length (KiTimerTableListHead s 128)"
    using assms(2) length_pos_if_in_set [OF assms(2)] by (simp add: KiRemoveTreeTimer_def length_remove1)
  then show ?thesis using a s2(2) assms(3) r2 unfolding routine_ok_def by (auto intro: le_less_trans order_trans)
qed

lemma SignalTimers_moves:
  assumes "rest s" "routine_ok routine"
  shows "\<exists>s'. SignalTimers routine s = Some s' \<and> moves s s'"
  using assms(1)
proof (induction "length (KiTimerTableListHead s 128)" arbitrary: s rule: less_induct)
  case less
  show ?case
  proof (cases "KiTimerTableListHead s 128")
    case Nil
    then show ?thesis using same_moves [OF less.prems same_refl] by (subst SignalTimers.simps) simp
  next
    case (Cons T Ts)
    have "\<And>d s. rest s \<Longrightarrow> moves s (routine d s)" using assms(2) by (simp add: routine_ok_def)
    then obtain s1 where s1: "SignalTimer routine s T = Some s1" "moves s s1" using SignalTimer_moves [OF less.prems] by blast
    have "length (KiTimerTableListHead s1 128) < length (KiTimerTableListHead s 128)"
      by (rule SignalTimer_shorter [OF s1(1) _ assms(2) less.prems]) (simp add: Cons)
    then obtain s' where "SignalTimers routine s1 = Some s'" "moves s1 s'" using less.hyps [of s1] s1(2) by (auto simp: moves_def)
    then show ?thesis using moves_trans [OF s1(2)] s1(1) Cons by (subst SignalTimers.simps) simp
  qed
qed

lemma ExpireLists_same: "same s (ExpireLists Current s Index n)"
proof (induction n arbitrary: s Index)
  case (Suc n)
  show ?case unfolding ExpireLists.simps Let_def case_prod_beta by (rule same_trans [OF table_same Suc.IH])
qed simp

lemma KiTimerExpiration_moves:
  assumes "rest s" "routine_ok routine"
  shows "\<exists>s'. KiTimerExpiration routine s Hand = Some s' \<and> moves s s'"
  unfolding KiTimerExpiration_def Let_def
  by (rule same_first [OF assms(1) same_trans [OF table_same ExpireLists_same] SignalTimers_moves [OF _ assms(2)]])

end
