(* ===== verification/Thread_Rest.thy ===== *)
theory Thread_Rest
  imports Thread_Services Wait_Services_Rest Sched_Balance
begin

text \<open>
  The operations on thread and APC objects take a state at rest to a state at rest.
\<close>

section \<open>Priorities and alerts\<close>

lemma KeReadyThread_rest:
  assumes r: "rest s" and T: "State (Threads s T) = Initialized" "T \<noteq> NULL" and low: "low s OldIrql"
  shows "rest (KeReadyThread s T OldIrql)"
proof -
  note ok = restD(1) [OF r] and ex = sched_ok_exempt [OF restD(1) [OF r] empty_subsetI, of "{T}"]
  have "moves s (KiReadyThread SwapEventTest s T)"
    by (rule swap.ready_moves(1) [OF r same_evolves [OF same_refl] ex]) (use not_ready [OF ok, of T] T in simp_all)
  then show ?thesis unfolding KeReadyThread_def by (rule Unlock_moves [OF _ low])
qed

lemma quantum_same: "same s (upd_thread s T (\<lambda>t. t\<lparr>Quantum := q t\<rparr>))"
  by (rule same_thread) simp_all

lemma KeSetPriorityThread_rest:
  assumes r: "rest s" and T: "T \<noteq> NULL" "New < 32" "T = IdleThread s \<longrightarrow> T = CurrentThread s" and low: "low s OldIrql"
  shows "rest (fst (KeSetPriorityThread s T New OldIrql))"
proof -
  let ?s = "upd_thread s T (\<lambda>t. t\<lparr>Quantum := ThreadQuantum (Processes s (Process t)), DecrementCount := 0, PriorityDecrement := 0\<rparr>)"
  have sm: "same s ?s" by (simp add: same_def prio_ok_def)
  have "moves ?s (KiSetPriorityThread SwapEventTest ?s T New)"
    by (rule swap.KiSetPriorityThread_moves [OF same_rest [OF r sm] T(1,2)]) (use T(3) in simp)
  from Unlock_moves [OF moves_trans [OF same_moves [OF r sm] this] low] show ?thesis by (simp add: KeSetPriorityThread_def Let_def)
qed

lemma KiBoostPriorityThread_moves:
  assumes r: "rest s" and T: "T \<noteq> NULL" "T = IdleThread s \<longrightarrow> T = CurrentThread s"
  shows "moves s (KiBoostPriorityThread s T Increment)"
proof -
  let ?s = "upd_thread s T (\<lambda>t. t\<lparr>Quantum := ThreadQuantum (Processes s (Process t))\<rparr>)"
  have "moves ?s (KiSetPriorityThread SwapEventTest ?s T New)" if "New < 32" for New
    by (rule swap.KiSetPriorityThread_moves [OF same_rest [OF r quantum_same] T(1) that]) (use T(2) in simp)
  note m = moves_trans [OF same_moves [OF r quantum_same] this]
  have "(if 16 \<le> (x :: int) then 15 else nat x) < 32" for x by auto
  from m [OF this] show ?thesis using same_moves [OF r same_refl] by (simp add: KiBoostPriorityThread_def Let_def)
qed

lemma KeBoostPriorityThread_rest:
  "rest s \<Longrightarrow> T \<noteq> NULL \<Longrightarrow> T = IdleThread s \<longrightarrow> T = CurrentThread s \<Longrightarrow> low s OldIrql \<Longrightarrow> rest (KeBoostPriorityThread s T Increment OldIrql)"
  unfolding KeBoostPriorityThread_def using Unlock_moves [OF KiBoostPriorityThread_moves] Unlock_rest by simp

lemma unwait_thread_moves:
  assumes "rest s" "State (Threads s T) = Waiting" "T \<noteq> NULL"
  shows "moves s (KiUnwaitThread (KiReadyThread SwapEventTest) s T Status Increment)"
  by (rule movesI [OF assms(1)]; rule swap.KiUnwaitThread_ok(1,2) [OF restD(1) [OF assms(1)] rest_awake [OF assms(1)] assms(2,3) refl])

lemma alerted_same: "same s (upd_thread s T (\<lambda>t. t\<lparr>Alerted := (Alerted t)(m := b)\<rparr>))"
  by (rule same_thread) simp_all

lemma AlertThread_moves: "rest s \<Longrightarrow> T \<noteq> NULL \<Longrightarrow> moves s (AlertThread s T m)"
  using unwait_thread_moves same_moves [OF _ alerted_same] by (simp add: AlertThread_def Let_def)

lemma KeAlertThread_rest: "rest s \<Longrightarrow> T \<noteq> NULL \<Longrightarrow> low s OldIrql \<Longrightarrow> rest (fst (KeAlertThread s T m OldIrql))"
  using Unlock_moves [OF AlertThread_moves] Unlock_rest by (simp add: KeAlertThread_def Let_def)

lemma KeTestAlertThread_same: "same s (fst (KeTestAlertThread s m))"
  using alerted_same by (simp add: KeTestAlertThread_def Let_def same_thread)

section \<open>APC objects\<close>

lemma upd_apc_same: "same s (upd_apc s p f)"
  by (simp add: upd_apc_def same_def)

lemma upd_apc_list_same: "same s (upd_apc_list s T c m f)"
  unfolding upd_apc_list_def by (rule same_thread) simp_all

lemma LinkApc_same: "same s (LinkApc x s a)"
  using same_trans [OF same_thread upd_apc_list_same, of "\<lambda>t. t\<lparr>UserApcPending := True\<rparr>"] by (simp add: LinkApc_def Let_def upd_apc_list_same)

lemma KiInsertQueueApc_moves:
  assumes r: "rest s" and T: "ApcThread (Apcs s a) \<noteq> NULL"
  shows "moves s (fst (KiInsertQueueApc x s a Increment))"
proof (cases "ApcInserted (Apcs s a)")
  case True
  then show ?thesis using same_moves [OF r same_refl] by (simp add: KiInsertQueueApc_def)
next
  case False
  let ?T = "ApcThread (Apcs s a)" and ?s = "upd_apc (LinkApc x s a) a (\<lambda>a. a\<lparr>ApcInserted := True\<rparr>)"
  have sm: "same s ?s" by (rule same_trans [OF LinkApc_same upd_apc_same])
  have k: "same s (upd_thread ?s ?T (\<lambda>t. t\<lparr>KernelApcPending := True\<rparr>))" "same s (upd_thread ?s ?T (\<lambda>t. t\<lparr>UserApcPending := True\<rparr>))"
    by (rule same_trans [OF sm same_thread]; simp)+
  have i: "same s ((upd_thread ?s ?T (\<lambda>t. t\<lparr>KernelApcPending := True\<rparr>))\<lparr>ApcInterrupt := True\<rparr>)"
    by (rule same_trans [OF k(1)]) (simp add: same_def)
  have u: "moves s (KiUnwaitThread (KiReadyThread SwapEventTest) s' ?T Status Increment)"
    if "same s s'" "State (Threads ?s ?T) = Waiting" for s' Status
    using moves_trans [OF same_moves [OF r that(1)] unwait_thread_moves [OF same_rest [OF r that(1)] _ T]] that sm by (simp add: same_def)
  note m = same_moves [OF r sm] same_moves [OF r k(1)] same_moves [OF r i] u [OF k(1)] u [OF k(2)]
  show ?thesis using False m by (simp add: KiInsertQueueApc_def Let_def)
qed

lemma KeInsertQueueApc_rest:
  "rest s \<Longrightarrow> ApcThread (Apcs s a) \<noteq> NULL \<Longrightarrow> low s OldIrql \<Longrightarrow> rest (fst (KeInsertQueueApc x s a Increment OldIrql))"
  using Unlock_moves [OF KiInsertQueueApc_moves, of s a OldIrql x Increment] Unlock_rest by (simp add: KeInsertQueueApc_def Let_def case_prod_beta)

lemma KeRemoveQueueApc_rest:
  assumes r: "rest s" and low: "low s OldIrql"
  shows "rest (fst (KeRemoveQueueApc s a OldIrql))"
proof -
  let ?T = "ApcThread (Apcs s a)" and ?m = "ApcModeOf (Apcs s a)"
  let ?s = "\<lambda>c. upd_apc_list (upd_apc s a (\<lambda>a. a\<lparr>ApcInserted := False\<rparr>)) ?T c ?m (remove1 a)"
  let ?f = "\<lambda>c t. if \<not> c then t\<lparr>SavedApcPending := (SavedApcPending t)(?m := False)\<rparr>
    else if ?m = KernelMode then t\<lparr>KernelApcPending := False\<rparr> else t\<lparr>UserApcPending := False\<rparr>"
  have a: "same s (?s c)" for c by (rule same_trans [OF upd_apc_same upd_apc_list_same])
  have b: "same s (upd_thread (?s c) ?T (?f c))" for c by (rule same_trans [OF a same_thread]) simp_all
  show ?thesis unfolding KeRemoveQueueApc_def Let_def fst_conv
    by (rule Unlock_moves [OF same_moves [OF r] low]) (simp only: a b same_refl simp_thms split: if_split)
qed

lemma ApcsFlushed_same: "same s (ApcsFlushed s as)"
proof (induction as arbitrary: s)
  case (Cons a as)
  show ?case unfolding ApcsFlushed.simps by (rule same_trans [OF upd_apc_same Cons.IH])
qed simp

lemma KeFlushQueueApc_rest: "rest s \<Longrightarrow> low s OldIrql \<Longrightarrow> rest (fst (KeFlushQueueApc s T m OldIrql))"
  unfolding KeFlushQueueApc_def Let_def fst_conv by (rule Unlock_moves [OF same_moves [OF _ ApcsFlushed_same]])

lemma queueable_same: "same s (upd_thread s T (\<lambda>t. t\<lparr>ApcQueueable := b\<rparr>))"
  by (rule same_thread) simp_all

lemma ApcQueuing_rest:
  assumes "rest s" "low s OldIrql"
  shows "rest (fst (KeDisableApcQueuingThread s T OldIrql))" "rest (fst (KeEnableApcQueuingThread s T OldIrql))"
  unfolding KeDisableApcQueuingThread_def KeEnableApcQueuingThread_def fst_conv
  by (rule Unlock_moves [OF same_moves [OF assms(1) queueable_same] assms(2)])+

lemma KeLeaveCriticalRegion_rest:
  assumes r: "rest s" and low: "low s OldIrql"
  shows "rest (KeLeaveCriticalRegion s OldIrql)"
proof -
  let ?s = "upd_thread s (CurrentThread s) (\<lambda>t. t\<lparr>KernelApcDisable := KernelApcDisable t + 1\<rparr>)"
  have a: "same s ?s" by (rule same_thread) simp_all
  have b: "same s ((upd_thread ?s (CurrentThread s) (\<lambda>t. t\<lparr>KernelApcPending := True\<rparr>))\<lparr>ApcInterrupt := True\<rparr>)"
    by (rule same_trans [OF a]) (simp add: same_def prio_ok_def)
  show ?thesis using same_rest [OF r a] Unlock_moves [OF same_moves [OF r b] low] by (simp add: KeLeaveCriticalRegion_def Let_def)
qed

section \<open>Suspending and resuming\<close>

lemma KeSuspendThread_rest:
  assumes r: "rest s" and T: "ApcThread (Apcs s (SuspendApc (Threads s T))) \<noteq> NULL" and low: "low s OldIrql"
  shows "rest (fst (KeSuspendThread x s T OldIrql))"
proof -
  let ?s = "upd_thread s T (\<lambda>t. t\<lparr>SuspendCount := SuspendCount t + 1\<rparr>)"
  let ?a = "SuspendApc (Threads s T)"
  have sm: "same s ?s" by (rule same_thread) simp_all
  have "moves ?s (fst (KiInsertQueueApc x ?s ?a 0))"
    by (rule KiInsertQueueApc_moves [OF same_rest [OF r sm]]) (use T in \<open>simp add: upd_thread_def\<close>)
  then have m: "moves s (fst (KiInsertQueueApc x ?s ?a 0))" by (rule moves_trans [OF same_moves [OF r sm]])
  have "moves s (upd_object (fst (KiInsertQueueApc x ?s ?a 0)) p (\<lambda>e. e\<lparr>SignalState := slong (SignalState e - 1)\<rparr>))" for p
    by (rule moves_same [OF m same_object]) simp
  from m this have u: "rest (KiUnlockDispatcherDatabase SwapEventTest (fst (KiInsertQueueApc x ?s ?a 0)) OldIrql)"
    "\<And>p. rest (KiUnlockDispatcherDatabase SwapEventTest (upd_object (fst (KiInsertQueueApc x ?s ?a 0)) p (\<lambda>e. e\<lparr>SignalState := slong (SignalState e - 1)\<rparr>)) OldIrql)"
    using Unlock_moves [OF _ low] by blast+
  show ?thesis using u Unlock_rest [OF r low] Unlock_moves [OF same_moves [OF r sm] low]
    by (simp add: KeSuspendThread_def Let_def case_prod_beta)
qed

lemma SignalSuspend_moves:
  assumes "rest s"
  shows "\<exists>s'. SignalSuspend s T = Some s' \<and> moves s s'"
  unfolding SignalSuspend_def Let_def by (rule same_first [OF assms same_object wait_test_moves]) simp_all

lemma ResumeThread_moves:
  assumes "rest s"
  shows "\<exists>s'. ResumeThread s T = Some s' \<and> moves s s'"
proof -
  let ?s = "upd_thread s T (\<lambda>t. t\<lparr>SuspendCount := SuspendCount t - 1\<rparr>)"
  have sm: "same s ?s" by (rule same_thread) simp_all
  show ?thesis using same_first [OF assms sm SignalSuspend_moves, of T] same_moves [OF assms sm] same_moves [OF assms same_refl]
    by (simp add: ResumeThread_def Let_def)
qed

lemma KeResumeThread_rest:
  assumes "rest s" "low s OldIrql"
  shows "\<exists>s'. KeResumeThread s T OldIrql = Some (s', SuspendCount (Threads s T)) \<and> rest s'"
  using ResumeThread_moves [OF assms(1), of T] Unlock_moves [OF _ assms(2)] by (auto simp: KeResumeThread_def)

lemma KeAlertResumeThread_rest:
  assumes "rest s" "T \<noteq> NULL" "low s OldIrql"
  shows "\<exists>s' n. KeAlertResumeThread s T OldIrql = Some (s', n) \<and> rest s'"
proof -
  let ?s = "if Alerted (Threads s T) KernelMode then s else AlertThread s T KernelMode"
  have m: "moves s ?s" using AlertThread_moves [OF assms(1,2)] same_moves [OF assms(1) same_refl] by simp
  then have "rest ?s" by (simp only: moves_def)
  then obtain s' where "ResumeThread ?s T = Some s'" "moves ?s s'" using ResumeThread_moves by blast
  then show ?thesis using Unlock_moves [OF moves_trans [OF m] assms(3)] by (simp only: KeAlertResumeThread_def Let_def option.case) blast
qed

lemma KeForceResumeThread_rest:
  assumes "rest s" "low s OldIrql"
  shows "\<exists>s' n. KeForceResumeThread s T OldIrql = Some (s', n) \<and> rest s'"
proof -
  let ?s = "upd_thread s T (\<lambda>t. t\<lparr>FreezeCount := 0, SuspendCount := 0\<rparr>)"
  have sm: "same s ?s" by (rule same_thread) simp_all
  from same_first [OF assms(1) sm SignalSuspend_moves, of T] show ?thesis
    using Unlock_moves [OF _ assms(2)] Unlock_rest [OF assms] by (auto simp: KeForceResumeThread_def Let_def)
qed

section \<open>The end of a thread\<close>

lemma AbandonMutants_moves:
  assumes "AbandonMutants s T = Some x"
  shows "rest s \<longrightarrow> (\<forall>s'. x = Inr s' \<longrightarrow> moves s s')"
proof (rule AbandonMutants.raw_induct [where P = "\<lambda>s T x. rest s \<longrightarrow> (\<forall>s'. x = Inr s' \<longrightarrow> moves s s')", OF _ assms], intro impI allI)
  fix loop :: "sched \<Rightarrow> ptr \<Rightarrow> (ptr + sched) option" and s T x s'
  assume IH: "\<And>s T x. loop s T = Some x \<Longrightarrow> rest s \<longrightarrow> (\<forall>s'. x = Inr s' \<longrightarrow> moves s s')" and r: "rest s" and x: "x = Inr s'"
    and e: "(case MutantListHead (Threads s T) of
        [] \<Rightarrow> Some (Inr s)
      | Mutant # ms \<Rightarrow>
          if ApcDisable (Objects s Mutant) \<noteq> 0 then Some (Inl Mutant)
          else
            let s = upd_thread s T (\<lambda>t. t\<lparr>MutantListHead := ms\<rparr>);
                s = upd_object s Mutant (\<lambda>m. m\<lparr>SignalState := 1, Abandoned := True, OwnerThread := NULL\<rparr>)
            in (case (if WaitListHead (Objects s Mutant) \<noteq> [] then KiWaitTest (KiReadyThread SwapEventTest) s Mutant 1 else Some s) of
                  None \<Rightarrow> None
                | Some s \<Rightarrow> loop s T)) = Some x"
  show "moves s s'"
  proof (cases "MutantListHead (Threads s T)")
    case Nil
    then show ?thesis using e x same_moves [OF r same_refl] by simp
  next
    case (Cons m ms)
    let ?s = "upd_object (upd_thread s T (\<lambda>t. t\<lparr>MutantListHead := ms\<rparr>)) m (\<lambda>m. m\<lparr>SignalState := 1, Abandoned := True, OwnerThread := NULL\<rparr>)"
    have sm: "same s ?s" by (rule same_trans [OF same_thread same_object]) simp_all
    obtain s1 where s1: "(if WaitListHead (Objects ?s m) \<noteq> [] then KiWaitTest (KiReadyThread SwapEventTest) ?s m 1 else Some ?s) = Some s1" "moves ?s s1"
      using test_if_moves [OF same_rest [OF r sm]] by blast
    have d: "ApcDisable (Objects s m) = 0" using e x Cons by (cases "ApcDisable (Objects s m) = 0") simp_all
    have l: "loop s1 T = Some (Inr s')" using e [unfolded Cons x] d s1(1) by (simp only: list.case Let_def if_False simp_thms option.case)
    have m1: "moves s s1" by (rule moves_trans [OF same_moves [OF r sm] s1(2)])
    then have "rest s1" by (simp add: moves_def)
    then show ?thesis using IH [OF l] moves_trans [OF m1] by blast
  qed
qed

lemma KeRundownThread_rest:
  assumes "KeRundownThread s OldIrql = Some (Inr s')" "rest s" "low s OldIrql"
  shows "rest s'"
proof -
  obtain s1 where s1: "AbandonMutants s (CurrentThread s) = Some (Inr s1)" "s' = KiUnlockDispatcherDatabase SwapEventTest s1 OldIrql"
    using assms(1) by (auto simp: KeRundownThread_def split: option.splits sum.splits)
  have "moves s s1" using AbandonMutants_moves [OF s1(1)] assms(2) by blast
  then show ?thesis unfolding s1(2) by (rule Unlock_moves [OF _ assms(3)])
qed

lemma ReapThread_moves:
  assumes r: "rest s" and l: "QueueWaiter s W \<longrightarrow> lone_waiter s W"
  shows "moves s (ReapThread s W i)"
proof -
  let ?s = "s\<lparr>PsReaperListHead := PsReaperListHead s @ [CurrentThread s]\<rparr>" and ?t = "s\<lparr>PsReaperListHead := PsReaperListHead s @ [CurrentThread s], PsReaperActive := True\<rparr>"
  have a: "same s ?s" and b: "same s ?t" by (simp_all add: same_def)
  have "moves ?t (fst (KiInsertQueue ?t W i))"
    by (rule KiInsertQueue_moves [OF same_rest [OF r b]]) (use l in \<open>simp add: QueueWaiter_def lone_waiter_def\<close>)
  then show ?thesis using moves_trans [OF same_moves [OF r b]] same_moves [OF r a] by (simp add: ReapThread_def Let_def)
qed

lemma process_ok:
  \<comment> \<open>the invariant does not read the state of a process\<close>
  assumes "sched_ok X s" "\<And>P. ReadyListHead (Processes s' P) = ReadyListHead (Processes s P)" "Threads s' = Threads s" "Objects s' = Objects s"
    "KiDispatcherReadyListHead s' = KiDispatcherReadyListHead s" "KiReadySummary s' = KiReadySummary s" "KiIdleSummary s' = KiIdleSummary s"
    "NextThread s' = NextThread s" "CurrentThread s' = CurrentThread s" "IdleThread s' = IdleThread s"
  shows "sched_ok X s'"
proof -
  have "queues_ok s' = queues_ok s" "procs_ok s' = procs_ok s" "waits_ok X s' = waits_ok X s" "top_priority s' = top_priority s"
    "\<And>t. listed s' t = listed s t"
    using assms(2-) by (simp_all add: queues_ok_def procs_ok_def waits_ok_def top_priority_def listed_def queued_def)
  then show ?thesis using assms by (simp add: sched_ok_def)
qed

lemma OutSwapIfLast_ok:
  assumes ok: "sched_ok {} s" and aw: "awake s"
  shows "sched_ok {} (OutSwapIfLast s P)" "\<And>x. State (Threads (OutSwapIfLast s P) x) = Running \<Longrightarrow> State (Threads s x) = Running"
    "State (Threads s (IdleThread s)) = Running \<Longrightarrow> State (Threads (OutSwapIfLast s P) (IdleThread s)) = Running"
    "CurrentThread (OutSwapIfLast s P) = CurrentThread s" "IdleThread (OutSwapIfLast s P) = IdleThread s"
    "KiIdleSummary s = 0 \<Longrightarrow> KiIdleSummary (OutSwapIfLast s P) = 0"
proof -
  let ?a = "upd_process s P (\<lambda>p. p\<lparr>StackCount := (StackCount p + 65535) mod 65536\<rparr>)"
  let ?b = "(upd_process ?a P (\<lambda>p. p\<lparr>ProcessState := ProcessInTransition\<rparr>))\<lparr>KiProcessOutSwapListHead := KiProcessOutSwapListHead ?a @ [P]\<rparr>"
  have oka: "sched_ok {} ?a" by (rule process_ok [OF ok]) simp_all
  have okb: "sched_ok {} ?b" by (rule process_ok [OF ok]) simp_all
  have awb: "awake ?b" using aw by (simp add: awake_def)
  note u = swap.signal_ok [OF okb awb]
  note e = evolvesD [OF u(2)]
  show "sched_ok {} (OutSwapIfLast s P)" using oka u(1) by (simp add: OutSwapIfLast_def Let_def)
  show "\<And>x. State (Threads (OutSwapIfLast s P) x) = Running \<Longrightarrow> State (Threads s x) = Running" using e(12) by (simp add: OutSwapIfLast_def Let_def split: if_splits)
  show "State (Threads s (IdleThread s)) = Running \<Longrightarrow> State (Threads (OutSwapIfLast s P) (IdleThread s)) = Running"
    using e(3) by (simp add: OutSwapIfLast_def Let_def)
  show "CurrentThread (OutSwapIfLast s P) = CurrentThread s" "IdleThread (OutSwapIfLast s P) = IdleThread s"
    "KiIdleSummary s = 0 \<Longrightarrow> KiIdleSummary (OutSwapIfLast s P) = 0"
    using e(1,2,7) by (simp_all add: OutSwapIfLast_def Let_def)
qed

lemma terminated_rest:
  assumes r: "rest s" and i: "CurrentThread s \<noteq> IdleThread s" and C: "C = CurrentThread s"
  shows "rest (SwitchFrom SwapEventTest (OutSwapIfLast (upd_thread s C (\<lambda>t. t\<lparr>State := Terminated\<rparr>)) P) C)"
proof -
  let ?s = "upd_thread s C (\<lambda>t. t\<lparr>State := Terminated\<rparr>)" and ?t = "OutSwapIfLast (upd_thread s C (\<lambda>t. t\<lparr>State := Terminated\<rparr>)) P"
  have ok: "sched_ok {} ?s"
    by (rule entered_ok [OF r i C, where bs = "[]" and t = "(Threads s C)\<lparr>State := Terminated\<rparr>"])
      (use sched_okD(10) [OF restD(1) [OF r], of C] in \<open>simp_all add: upd_thread_def\<close>)
  have aw: "awake ?s" using C by (simp add: awake_def)
  note u = OutSwapIfLast_ok [OF ok aw, of P]
  have cur: "CurrentThread ?t = C" "IdleThread ?t = IdleThread s" using u(4,5) C by simp_all
  have "rest (SwitchFrom SwapEventTest ?t (CurrentThread ?t))"
  proof (rule swap.select_rest [OF u(1)])
    show "State (Threads ?t (CurrentThread ?t)) \<noteq> Running" using u(2) [of C] cur by auto
    show "State (Threads ?t (IdleThread ?t)) = Running" using u(3) cur(2) i C restD(3) [OF r] by simp
    show "IdleThread ?t \<noteq> NULL" using cur restD(5) [OF r] by simp
    have "KiIdleSummary s = 0" using restD(7) [OF r] i by auto
    then show "KiIdleSummary ?t = 0" using u(6) by simp
  qed
  then show ?thesis using cur(1) by simp
qed

lemma KeTerminateThread_rest:
  assumes r: "rest s" and i: "CurrentThread s \<noteq> IdleThread s" and l: "QueueWaiter s W \<longrightarrow> lone_waiter s W"
  shows "\<exists>s'. KeTerminateThread s Increment W item = Some s' \<and> rest s'"
proof -
  define C where "C = CurrentThread s"
  define a where "a = ReapThread s W item"
  define Q where "Q = WaitQueue (Threads a C)"
  define q where "q = upd_object a Q (\<lambda>q. q\<lparr>ThreadListHead := remove1 C (ThreadListHead q)\<rparr>)"
  define b where "b = upd_object (if Q \<noteq> NULL then KiActivateWaiterQueue q Q else a) C (\<lambda>e. e\<lparr>SignalState := 1\<rparr>)"
  have ma: "moves s a" unfolding a_def by (rule ReapThread_moves [OF r l])
  have mq: "moves s q" unfolding q_def by (rule moves_same [OF ma same_object]) simp
  then have "moves q (KiActivateWaiterQueue q Q)" by (intro KiActivateWaiterQueue_moves) (simp add: moves_def)
  from moves_trans [OF mq this] have "moves s (if Q \<noteq> NULL then KiActivateWaiterQueue q Q else a)" using ma by simp
  then have mb: "moves s b" unfolding b_def by (rule moves_same [OF _ signal_state_same])
  then have rb: "rest b" by (simp add: moves_def)
  obtain c where c: "(if WaitListHead (Objects b C) \<noteq> [] then KiWaitTest (KiReadyThread SwapEventTest) b C Increment else Some b) = Some c" "moves b c"
    using test_if_moves [OF rb] by blast
  let ?P = "Process (Threads s C)"
  define d where "d = upd_process c ?P (\<lambda>p. p\<lparr>ProcessThreads := remove1 C (ProcessThreads p)\<rparr>)"
  have md: "moves s d" unfolding d_def by (rule moves_same [OF moves_trans [OF mb c(2)]]) (simp add: same_def)
  then have "rest d" "CurrentThread d = C" "IdleThread d = IdleThread s" using evolvesD(1,2) by (auto simp: moves_def C_def)
  then have "rest (SwitchFrom SwapEventTest (OutSwapIfLast (upd_thread d C (\<lambda>t. t\<lparr>State := Terminated\<rparr>)) ?P) C)"
    using i C_def by (intro terminated_rest) simp_all
  moreover have "KeTerminateThread s Increment W item =
      Some (SwitchFrom SwapEventTest (OutSwapIfLast (upd_thread d C (\<lambda>t. t\<lparr>State := Terminated\<rparr>)) ?P) C)"
    unfolding KeTerminateThread_def Let_def C_def [symmetric] a_def [symmetric] Q_def [symmetric] q_def [symmetric] b_def [symmetric] c(1) option.case
      d_def [symmetric] by (rule refl)
  ultimately show ?thesis by blast
qed

end
