(* ===== verification/Clock.thy ===== *)
theory Clock
  imports Wait_Test Wait_Services
begin

text \<open>
  The clock interrupt (\<open>KE/I386/CLOCKINT.ASM\<close>): the times, the check for expired timers, the
  accounting of run time and the decrement of the quantum.  The polling of the debugger is left out.
\<close>

record clock =
  KiTickOffset :: int
  KeTimeAdjustment :: nat
  KeMaximumIncrement :: nat
  TickCountHigh :: nat
  KiTimerExpireDpc :: ptr \<comment> \<open>the address of the DPC object\<close>
  TimerExpireHand :: nat \<comment> \<open>its \<open>SystemArgument1\<close>\<close>
  InterruptCount :: nat
  PrcbKernelTime :: nat
  PrcbUserTime :: nat
  PrcbDpcTime :: nat
  PrcbInterruptTime :: nat
  ThreadKernelTime :: "ptr \<Rightarrow> nat"
  ThreadUserTime :: "ptr \<Rightarrow> nat"
  ProcessKernelTime :: "ptr \<Rightarrow> nat"
  ProcessUserTime :: "ptr \<Rightarrow> nat"

definition ChargeTime :: "clock \<Rightarrow> sched \<Rightarrow> MODE \<Rightarrow> nat \<Rightarrow> clock" where
  \<comment> \<open>the interrupted mode, and the interrupt request level before the interrupt\<close>
  "ChargeTime c s PreviousMode OldIrql =
     (let T = CurrentThread s; P = Process (Threads s T);
          inc = (\<lambda>f x. f(x := u32 (f x + 1)));
          c = c\<lparr>InterruptCount := u32 (InterruptCount c + 1)\<rparr>
      in if PreviousMode = UserMode then
           c\<lparr>PrcbUserTime := u32 (PrcbUserTime c + 1), ThreadUserTime := inc (ThreadUserTime c) T, ProcessUserTime := inc (ProcessUserTime c) P\<rparr>
         else let c = c\<lparr>PrcbKernelTime := u32 (PrcbKernelTime c + 1)\<rparr>
              in if OldIrql > 2 then c\<lparr>PrcbInterruptTime := u32 (PrcbInterruptTime c + 1)\<rparr>
                 else if OldIrql = 2 \<and> IsExecutingDpc s then c\<lparr>PrcbDpcTime := u32 (PrcbDpcTime c + 1)\<rparr>
                 else c\<lparr>ThreadKernelTime := inc (ThreadKernelTime c) T, ProcessKernelTime := inc (ProcessKernelTime c) P\<rparr>)"

definition ChargeQuantum :: "sched \<Rightarrow> sched" where
  \<comment> \<open>the comparison is that of the subtraction, before the result is cut to a byte\<close>
  "ChargeQuantum s =
     (let T = CurrentThread s; q = Quantum (Threads s T);
          s = upd_thread s T (\<lambda>t. t\<lparr>Quantum := schar (q - 1)\<rparr>)
      in if q - 1 > 0 then s else s\<lparr>QuantumEnd := True, DispatchInterrupt := True\<rparr>)"

definition KeUpdateRunTime :: "clock \<Rightarrow> sched \<Rightarrow> MODE \<Rightarrow> nat \<Rightarrow> clock \<times> sched" where
  "KeUpdateRunTime c s PreviousMode OldIrql = (ChargeTime c s PreviousMode OldIrql, ChargeQuantum s)"

definition HandExpired :: "sched \<Rightarrow> nat \<Rightarrow> bool" where
  \<comment> \<open>the first timer of the list under the hand is due\<close>
  "HandExpired s Hand =
     (case KiTimerTableListHead s (Hand mod 128) of [] \<Rightarrow> False | T # _ \<Rightarrow> DueTime (Objects s T) \<le> InterruptTime s)"

definition QueueTimerExpire :: "clock \<Rightarrow> sched \<Rightarrow> nat \<Rightarrow> clock \<times> sched" where
  "QueueTimerExpire c s Hand =
     (let D = KiTimerExpireDpc c
      in if DpcQueued s D then (c, s)
         else (c\<lparr>TimerExpireHand := Hand\<rparr>,
               s\<lparr>DpcListHead := DpcListHead s @ [D], DpcQueued := (DpcQueued s)(D := True), DispatchInterrupt := True\<rparr>))"

definition AdvanceTime :: "clock \<Rightarrow> sched \<Rightarrow> nat \<Rightarrow> clock \<times> sched" where
  "AdvanceTime c s Increment =
     (let s = s\<lparr>InterruptTime := (InterruptTime s + Increment) mod 2 ^ 64\<rparr>;
          Tick = TickCountLow s;
          full = \<not> KiTickOffset c > int Increment;
          c = c\<lparr>KiTickOffset := slong (KiTickOffset c - int Increment)\<rparr>
      in if full
         then (c\<lparr>TickCountHigh := (if u32 (Tick + 1) = 0 then u32 (TickCountHigh c + 1) else TickCountHigh c)\<rparr>,
               s\<lparr>SystemTime := s64 (SystemTime s + int (KeTimeAdjustment c)), TickCountLow := u32 (Tick + 1)\<rparr>)
         else (c, s))"

definition CheckTimers :: "clock \<Rightarrow> sched \<Rightarrow> nat \<Rightarrow> bool \<Rightarrow> clock \<times> sched" where
  \<comment> \<open>\<open>Tick\<close> is the tick count before the interrupt; at a full tick the next list is looked at, too\<close>
  "CheckTimers c s Tick full =
     (if HandExpired s Tick then QueueTimerExpire c s Tick
      else if full \<and> HandExpired s (Tick + 1) then QueueTimerExpire c s (u32 (Tick + 1))
      else (c, s))"

definition KeUpdateSystemTime :: "clock \<Rightarrow> sched \<Rightarrow> nat \<Rightarrow> MODE \<Rightarrow> nat \<Rightarrow> clock \<times> sched" where
  \<comment> \<open>\<open>Increment\<close> is the time since the last interrupt\<close>
  "KeUpdateSystemTime c s Increment PreviousMode OldIrql =
     (let Tick = TickCountLow s;
          full = \<not> KiTickOffset c > int Increment;
          (c, s) = AdvanceTime c s Increment;
          (c, s) = CheckTimers c s Tick full
      in if KiTickOffset c > 0 then (c\<lparr>InterruptCount := u32 (InterruptCount c + 1)\<rparr>, s)
         else KeUpdateRunTime (c\<lparr>KiTickOffset := slong (KiTickOffset c + int (KeMaximumIncrement c))\<rparr>) s PreviousMode OldIrql)"

lemma ChargeQuantum_same: "same s (ChargeQuantum s)"
  by (simp add: ChargeQuantum_def Let_def same_def prio_ok_def)

lemma AdvanceTime_same: "same s (snd (AdvanceTime c s Increment))"
  by (simp add: AdvanceTime_def Let_def same_def)

lemma CheckTimers_same: "same s (snd (CheckTimers c s Tick full))"
  by (simp add: CheckTimers_def QueueTimerExpire_def Let_def same_def)

lemma KeUpdateSystemTime_same: "same s (snd (KeUpdateSystemTime c s Increment PreviousMode OldIrql))"
proof -
  obtain c1 s1 where a: "AdvanceTime c s Increment = (c1, s1)" by (cases "AdvanceTime c s Increment")
  obtain c2 s2 where b: "CheckTimers c1 s1 (TickCountLow s) (\<not> KiTickOffset c > int Increment) = (c2, s2)"
    by (cases "CheckTimers c1 s1 (TickCountLow s) (\<not> KiTickOffset c > int Increment)")
  have "same s s2" using AdvanceTime_same [of s c Increment] CheckTimers_same [of s1 c1] a b by (metis same_trans snd_conv)
  then show ?thesis using same_trans [OF _ ChargeQuantum_same]
    by (simp only: KeUpdateSystemTime_def KeUpdateRunTime_def Let_def a b case_prod_conv snd_conv if_distrib if_split) simp
qed

end
