(* ===== verification/Dispatcher.thy ===== *)
theory Dispatcher
  imports Thread_Rest Clock
begin

text \<open>
  The dispatcher as a transition system: a step is what runs while the dispatcher lock is held.
  Every state that is reached from the end of \<open>KiInitializeKernel\<close> is at rest.
\<close>

section \<open>The start\<close>

definition KiInitializeKernel :: "sched \<Rightarrow> ptr \<Rightarrow> sched" where
  \<comment> \<open>what the initialization of the initial processor does to the dispatcher database; \<open>Thread\<close> is
    the idle thread, and no other thread is created before its priority falls to zero\<close>
  "KiInitializeKernel s Thread =
     (let s = upd_thread s Thread (\<lambda>t. t\<lparr>Priority := 31, State := Running, WaitIrql := 2\<rparr>);
          s = s\<lparr>CurrentThread := Thread, NextThread := NULL, IdleThread := Thread\<rparr>;
          s = upd_thread s Thread (\<lambda>t. t\<lparr>Quantum := ThreadQuantum (Processes s (Process t)), DecrementCount := 0, PriorityDecrement := 0\<rparr>);
          s = KiSetPriorityThread SwapEventTest s Thread 0
      in if NextThread s = NULL then s\<lparr>KiIdleSummary := SetMember 0 (KiIdleSummary s)\<rparr> else s)"

definition blank :: "sched \<Rightarrow> bool" where
  \<comment> \<open>the dispatcher database as the loader leaves it: empty lists, no thread\<close>
  "blank s \<longleftrightarrow> KiReadySummary s = 0 \<and> KiIdleSummary s = 0 \<and> (\<forall>p. KiDispatcherReadyListHead s p = []) \<and>
     (\<forall>P. ReadyListHead (Processes s P) = []) \<and> (\<forall>p. WaitListHead (Objects s p) = []) \<and>
     (\<forall>t. State (Threads s t) = Initialized \<and> \<not> ProcessReadyQueue (Threads s t) \<and> prio_ok (Threads s t))"

lemma KiInitializeKernel_rest:
  assumes b: "blank s" and T: "T \<noteq> NULL"
  shows "rest (KiInitializeKernel s T)" "KiIdleSummary (KiInitializeKernel s T) \<noteq> 0"
proof -
  let ?s = "KiInitializeKernel s T"
  have f: "KiFindReadyThread x 31 1 = (x, NULL)" if "KiReadySummary x = 0" for x
    using that by (simp add: KiFindReadyThread_def FindReadyLoop.simps)
  note b' = b [unfolded blank_def]
  note d = KiInitializeKernel_def KiSetPriorityThread_def Let_def upd_thread_def f SetMember_def
  have T': "State (Threads ?s T) = Running" "\<not> ProcessReadyQueue (Threads ?s T)" "prio_ok (Threads ?s T)" and o: "\<And>x. x \<noteq> T \<Longrightarrow> Threads ?s x = Threads s x"
    and l: "KiDispatcherReadyListHead ?s = (\<lambda>p. [])" "KiReadySummary ?s = 0" "Processes ?s = Processes s" "Objects ?s = Objects s"
      "NextThread ?s = NULL" "CurrentThread ?s = T" "IdleThread ?s = T" and i: "KiIdleSummary ?s \<noteq> 0"
    using b' f by (simp_all add: d prio_ok_def fun_eq_iff)
  show "KiIdleSummary ?s \<noteq> 0" by (rule i)
  have st: "State (Threads ?s x) = (if x = T then Running else Initialized)" "\<not> ProcessReadyQueue (Threads ?s x)" for x
    using T' o b' by (cases "x = T"; simp)+
  have pr: "prio_ok (Threads ?s x)" for x using T' o b' by (cases "x = T") simp_all
  have "sched_ok {} ?s"
  proof (rule sched_okI)
    show "queues_ok ?s" using l by (simp add: queues_ok_def)
    show "procs_ok ?s" using l b' st by (simp add: procs_ok_def)
    show "waits_ok {} ?s" using l b' st by (simp add: waits_ok_def)
  qed (use l st pr in \<open>auto split: if_splits\<close>)
  then show "rest ?s" using l st i T by (intro restI) simp_all
qed

section \<open>Steps\<close>

definition fresh :: "sched \<Rightarrow> ptr \<Rightarrow> bool" where
  \<comment> \<open>an object that may be initialized: no thread waits on it\<close>
  "fresh s p \<longleftrightarrow> WaitListHead (Objects s p) = []"

inductive dispatcher_step :: "sched \<Rightarrow> sched \<Rightarrow> bool" where
  clock: "KeUpdateSystemTime c s inc mode irql = (c', s') \<Longrightarrow> dispatcher_step s s'" |
  interrupt: "CurrentThread s \<noteq> IdleThread s \<Longrightarrow> dispatcher_step s (KiDispatchInterrupt SwapEventTest s)" |
  idle: "CurrentThread s = IdleThread s \<Longrightarrow> dispatcher_step s (KiIdleLoop SwapEventTest s)" |
  init_event: "fresh s p \<Longrightarrow> dispatcher_step s (KeInitializeEvent s p ty st)" |
  init_semaphore: "fresh s p \<Longrightarrow> dispatcher_step s (KeInitializeSemaphore s p c l)" |
  init_mutant: "fresh s p \<Longrightarrow> dispatcher_step s (KeInitializeMutant s p ow)" |
  init_mutex: "fresh s p \<Longrightarrow> dispatcher_step s (KeInitializeMutex s p)" |
  init_timer: "fresh s p \<Longrightarrow> dispatcher_step s (KeInitializeTimer s p)" |
  init_queue: "fresh s p \<Longrightarrow> dispatcher_step s (KeInitializeQueue s p n)" |
  clear_event: "dispatcher_step s (KeClearEvent s p)" |
  reset_event: "low s irql \<Longrightarrow> KeResetEvent s p irql = (s', x) \<Longrightarrow> dispatcher_step s s'" |
  set_event: "low s irql \<Longrightarrow> KeSetEvent s p i w irql = Some (s', x) \<Longrightarrow> dispatcher_step s s'" |
  pulse_event: "low s irql \<Longrightarrow> KePulseEvent s p i w irql = Some (s', x) \<Longrightarrow> dispatcher_step s s'" |
  boost_event: "low s irql \<Longrightarrow> KeSetEventBoostPriority s p irql = (s', y) \<Longrightarrow> dispatcher_step s s'" |
  release_semaphore: "low s irql \<Longrightarrow> KeReleaseSemaphore s p i a w irql = Some (s', r) \<Longrightarrow> dispatcher_step s s'" |
  release_mutant: "low s irql \<Longrightarrow> KeReleaseMutant s p i b w irql = Some (s', r) \<Longrightarrow> dispatcher_step s s'" |
  set_timer: "low s irql \<Longrightarrow> KeSetTimer s p d now dpc irql = Some (s', b) \<Longrightarrow> dispatcher_step s s'" |
  cancel_timer: "low s irql \<Longrightarrow> KeCancelTimer s p irql = (s', b) \<Longrightarrow> dispatcher_step s s'" |
  expire_timers: "routine_ok routine \<Longrightarrow> KiTimerExpiration routine s hand = Some s' \<Longrightarrow> dispatcher_step s s'" |
  insert_dpc: "KeInsertQueueDpc s d = (s', b) \<Longrightarrow> dispatcher_step s s'" |
  remove_dpc: "KeRemoveQueueDpc s d = (s', b) \<Longrightarrow> dispatcher_step s s'" |
  insert_queue: "low s irql \<Longrightarrow> (QueueWaiter s p \<longrightarrow> lone_waiter s p) \<Longrightarrow> KeInsertQueue s p e irql = (s', x) \<Longrightarrow> dispatcher_step s s'" |
  remove_queue: "CurrentThread s \<noteq> IdleThread s \<Longrightarrow> private_timer s \<Longrightarrow> KeRemoveQueue s p m to now irql = (s', r) \<Longrightarrow> dispatcher_step s s'" |
  rundown_queue: "low s irql \<Longrightarrow> KeRundownQueue s p irql = (s', e) \<Longrightarrow> dispatcher_step s s'" |
  wait_single: "may_wait s \<Longrightarrow> KeWaitForSingleObject s p reason m al to now irql = (s', r) \<Longrightarrow> dispatcher_step s s'" |
  wait_multiple: "may_wait s \<Longrightarrow> KeWaitForMultipleObjects s os ty reason m al to now arr irql = (s', r) \<Longrightarrow> dispatcher_step s s'" |
  delay: "may_wait s \<Longrightarrow> yields s \<Longrightarrow> KeDelayExecutionThread s m al i now irql = (s', r) \<Longrightarrow> dispatcher_step s s'" |
  stack_in: "State (Threads s t) = Transition \<Longrightarrow> t \<noteq> NULL \<Longrightarrow> dispatcher_step s (StackInSwapped SwapEventTest s t)" |
  process_in: "ProcessInSwapped SwapEventTest s P = Some s' \<Longrightarrow> dispatcher_step s s'" |
  process_out: "ProcessState (Processes s P) \<noteq> ProcessInMemory \<Longrightarrow> ProcessOutSwap SwapEventTest s P = Some s' \<Longrightarrow> dispatcher_step s s'" |
  scan: "low s irql \<Longrightarrow> KiScanReadyQueues SwapEventTest s irql junk = Some s' \<Longrightarrow> dispatcher_step s s'" |
  ready_thread: "State (Threads s t) = Initialized \<Longrightarrow> t \<noteq> NULL \<Longrightarrow> low s irql \<Longrightarrow> dispatcher_step s (KeReadyThread s t irql)" |
  set_priority: "t \<noteq> NULL \<Longrightarrow> new < 32 \<Longrightarrow> (t = IdleThread s \<longrightarrow> t = CurrentThread s) \<Longrightarrow> low s irql \<Longrightarrow>
    KeSetPriorityThread s t new irql = (s', old) \<Longrightarrow> dispatcher_step s s'" |
  boost_priority: "t \<noteq> NULL \<Longrightarrow> (t = IdleThread s \<longrightarrow> t = CurrentThread s) \<Longrightarrow> low s irql \<Longrightarrow> dispatcher_step s (KeBoostPriorityThread s t i irql)" |
  alert: "t \<noteq> NULL \<Longrightarrow> low s irql \<Longrightarrow> KeAlertThread s t m irql = (s', b) \<Longrightarrow> dispatcher_step s s'" |
  test_alert: "KeTestAlertThread s m = (s', b) \<Longrightarrow> dispatcher_step s s'" |
  init_apc: "dispatcher_step s (KeInitializeApc s a t env k n m)" |
  insert_apc: "ApcThread (Apcs s a) \<noteq> NULL \<Longrightarrow> low s irql \<Longrightarrow> KeInsertQueueApc x s a i irql = (s', b) \<Longrightarrow> dispatcher_step s s'" |
  remove_apc: "low s irql \<Longrightarrow> KeRemoveQueueApc s a irql = (s', b) \<Longrightarrow> dispatcher_step s s'" |
  flush_apc: "low s irql \<Longrightarrow> KeFlushQueueApc s t m irql = (s', p) \<Longrightarrow> dispatcher_step s s'" |
  disable_apc: "low s irql \<Longrightarrow> KeDisableApcQueuingThread s t irql = (s', b) \<Longrightarrow> dispatcher_step s s'" |
  enable_apc: "low s irql \<Longrightarrow> KeEnableApcQueuingThread s t irql = (s', b) \<Longrightarrow> dispatcher_step s s'" |
  leave_region: "low s irql \<Longrightarrow> dispatcher_step s (KeLeaveCriticalRegion s irql)" |
  suspend: "ApcThread (Apcs s (SuspendApc (Threads s t))) \<noteq> NULL \<Longrightarrow> low s irql \<Longrightarrow> KeSuspendThread x s t irql = (s', r) \<Longrightarrow> dispatcher_step s s'" |
  resume: "low s irql \<Longrightarrow> KeResumeThread s t irql = Some (s', n) \<Longrightarrow> dispatcher_step s s'" |
  alert_resume: "t \<noteq> NULL \<Longrightarrow> low s irql \<Longrightarrow> KeAlertResumeThread s t irql = Some (s', n) \<Longrightarrow> dispatcher_step s s'" |
  force_resume: "low s irql \<Longrightarrow> KeForceResumeThread s t irql = Some (s', n) \<Longrightarrow> dispatcher_step s s'" |
  rundown_thread: "low s irql \<Longrightarrow> KeRundownThread s irql = Some (Inr s') \<Longrightarrow> dispatcher_step s s'" |
  terminate: "CurrentThread s \<noteq> IdleThread s \<Longrightarrow> (QueueWaiter s w \<longrightarrow> lone_waiter s w) \<Longrightarrow>
    KeTerminateThread s i w item = Some s' \<Longrightarrow> dispatcher_step s s'"

inductive reachable :: "sched \<Rightarrow> bool" where
  start: "blank s \<Longrightarrow> T \<noteq> NULL \<Longrightarrow> reachable (KiInitializeKernel s T)" |
  step: "reachable s \<Longrightarrow> dispatcher_step s s' \<Longrightarrow> reachable s'"

lemma init_same:
  assumes "fresh s p"
  shows "same s (KeInitializeEvent s p ty st)" "same s (KeInitializeSemaphore s p c l)" "same s (KeInitializeMutant s p ow)"
    "same s (KeInitializeMutex s p)" "same s (KeInitializeTimer s p)" "same s (KeInitializeQueue s p n)" "same s (KeClearEvent s p)"
  using assms by (simp_all add: fresh_def KeInitializeEvent_def KeInitializeSemaphore_def KeInitializeMutant_def KeInitializeMutex_def
      KeInitializeTimer_def KeInitializeQueue_def KeClearEvent_def Let_def same_def prio_ok_def)

lemma step_rest:
  assumes "dispatcher_step s s'" "rest s"
  shows "rest s'"
  using assms
proof (induction rule: dispatcher_step.induct)
  case (clock c s inc mode irql c' s')
  then show ?case using same_rest [OF _ KeUpdateSystemTime_same, of s c inc mode irql] by simp
next
  case (interrupt s)
  then show ?case using swap.KiDispatchInterrupt_rest by blast
next
  case (idle s)
  then show ?case using swap.KiIdleLoop_rest by blast
next
  case (init_event s p ty st)
  then show ?case using same_rest init_same(1) by blast
next
  case (init_semaphore s p c l)
  then show ?case using same_rest init_same(2) by blast
next
  case (init_mutant s p ow)
  then show ?case using same_rest init_same(3) by blast
next
  case (init_mutex s p)
  then show ?case using same_rest init_same(4) by blast
next
  case (init_timer s p)
  then show ?case using same_rest init_same(5) by blast
next
  case (init_queue s p n)
  then show ?case using same_rest init_same(6) by blast
next
  case (clear_event s p)
  then show ?case unfolding KeClearEvent_def using same_rest signal_state_same by blast
next
  case (reset_event s irql p s' x)
  then show ?case using KeResetEvent_rest [of s irql p] by simp
next
  case (set_event s irql p i w s' x)
  then show ?case using KeSetEvent_rest [of s irql p i w] by auto
next
  case (pulse_event s irql p i w s' x)
  then show ?case using KePulseEvent_rest [of s irql p i w] by auto
next
  case (boost_event s irql p s' y)
  then show ?case using KeSetEventBoostPriority_rest [of s irql p] by simp
next
  case (release_semaphore s irql p i a w s' r)
  then show ?case using KeReleaseSemaphore_rest [of s irql p i a w] by auto
next
  case (release_mutant s irql p i b w s' r)
  then show ?case using KeReleaseMutant_rest [of s irql p i b w] by auto
next
  case (set_timer s irql p d now dpc s' b)
  then show ?case using KeSetTimer_rest [of s irql p d now dpc] by auto
next
  case (cancel_timer s irql p s' b)
  then show ?case using KeCancelTimer_rest [of s irql p] by simp
next
  case (expire_timers routine s hand s')
  then show ?case using KiTimerExpiration_moves [of s routine hand] by (auto simp: moves_def)
next
  case (insert_dpc s d s' b)
  then show ?case using same_rest [OF _ KeInsertQueueDpc_same, of s d] by simp
next
  case (remove_dpc s d s' b)
  then show ?case using same_rest [OF _ KeRemoveQueueDpc_same, of s d] by simp
next
  case (insert_queue s irql p e s' x)
  then show ?case using KeInsertQueue_rest [of s irql p e] by simp
next
  case (remove_queue s p m to now irql s' r)
  then show ?case using KeRemoveQueue_rest [of s p m to now irql] by simp
next
  case (rundown_queue s irql p s' e)
  then show ?case using KeRundownQueue_rest [of s irql p] by simp
next
  case (wait_single s p reason m al to now irql s' r)
  then show ?case using KeWaitForSingleObject_rest [of s p reason m al to now irql] by simp
next
  case (wait_multiple s os ty reason m al to now arr irql s' r)
  then show ?case using KeWaitForMultipleObjects_rest [of s os ty reason m al to now arr irql] by simp
next
  case (delay s m al i now irql s' r)
  then show ?case using KeDelayExecutionThread_rest [of s m al i now irql] by simp
next
  case (stack_in s t)
  then show ?case using swap.StackInSwapped_moves [of s t] by (simp add: moves_def)
next
  case (process_in s P s')
  then show ?case using swap.ProcessInSwapped_rest [of s P] by auto
next
  case (process_out s P s')
  then show ?case using swap.ProcessOutSwap_rest [of s P] by auto
next
  case (scan s irql junk s')
  then show ?case using swap.KiScanReadyQueues_rest [of s irql junk] by (auto simp: low_def)
next
  case (ready_thread s t irql)
  then show ?case using KeReadyThread_rest by blast
next
  case (set_priority t new s irql s' old)
  then show ?case using KeSetPriorityThread_rest [of s t new irql] by simp
next
  case (boost_priority t s irql i)
  then show ?case using KeBoostPriorityThread_rest by blast
next
  case (alert t s irql m s' b)
  then show ?case using KeAlertThread_rest [of s t irql m] by simp
next
  case (test_alert s m s' b)
  then show ?case using same_rest [OF _ KeTestAlertThread_same, of s m] by simp
next
  case (init_apc s a t env k n m)
  then show ?case unfolding KeInitializeApc_def using same_rest upd_apc_same by blast
next
  case (insert_apc s a irql x i s' b)
  then show ?case using KeInsertQueueApc_rest [of s a irql x i] by simp
next
  case (remove_apc s irql a s' b)
  then show ?case using KeRemoveQueueApc_rest [of s irql a] by simp
next
  case (flush_apc s irql t m s' p)
  then show ?case using KeFlushQueueApc_rest [of s irql t m] by simp
next
  case (disable_apc s irql t s' b)
  then show ?case using ApcQueuing_rest(1) [of s irql t] by simp
next
  case (enable_apc s irql t s' b)
  then show ?case using ApcQueuing_rest(2) [of s irql t] by simp
next
  case (leave_region s irql)
  then show ?case using KeLeaveCriticalRegion_rest by blast
next
  case (suspend s t irql x s' r)
  then show ?case using KeSuspendThread_rest [of s t irql x] by simp
next
  case (resume s irql t s' n)
  then show ?case using KeResumeThread_rest [of s irql t] by auto
next
  case (alert_resume t s irql s' n)
  then show ?case using KeAlertResumeThread_rest [of s t irql] by auto
next
  case (force_resume s irql t s' n)
  then show ?case using KeForceResumeThread_rest [of s irql t] by auto
next
  case (rundown_thread s irql s')
  then show ?case using KeRundownThread_rest by blast
next
  case (terminate s w i item s')
  then show ?case using KeTerminateThread_rest [of s w i item] by auto
qed

lemma reachable_rest: "reachable s \<Longrightarrow> rest s"
  by (induction rule: reachable.induct) (auto intro: KiInitializeKernel_rest(1) step_rest)

end
