(* ===== verification/Dispatcher_Run.thy ===== *)
theory Dispatcher_Run
  imports Dispatcher
begin

text \<open>
  What holds in every state that the dispatcher reaches, and a short run of it: the kernel is
  initialized, two threads are made ready, and the idle loop switches to the first.
\<close>

section \<open>A run\<close>

definition new_thread :: KTHREAD where
  "new_thread = \<lparr>State = Initialized, Priority = 8, BasePriority = 8, PriorityDecrement = 0, DecrementCount = 0, Quantum = 6, Preempted = False,
     ProcessReadyQueue = False, KernelStackResident = True, WaitTime = 0, WaitIrql = 0, WaitNext = False, WaitMode = KernelMode, WaitReason = 0,
     WaitStatus = 0, WaitBlockList = [], Alertable = False, Alerted = (\<lambda>_. False), KernelApcPending = False, UserApcPending = False,
     ApcListHead = (\<lambda>_. []), KernelApcDisable = 0, MutantListHead = [], WaitQueue = NULL, Timer = 100, Process = 50, SuspendCount = 0,
     FreezeCount = 0, SuspendSemaphore = 101, SuspendApc = 102, ApcQueueable = True, KernelApcInProgress = False, ApcStateIndex = 0,
     SavedApcListHead = (\<lambda>_. []), SavedApcPending = (\<lambda>_. False)\<rparr>"

definition new_process :: KPROCESS where
  "new_process = \<lparr>ProcessState = ProcessInMemory, StackCount = 3, ThreadQuantum = 6, ReadyListHead = [], ProcessThreads = []\<rparr>"

definition new_object :: KOBJECT where
  "new_object = \<lparr>HeaderType = SemaphoreObject, SignalState = 0, WaitListHead = [], Limit = 5, OwnerThread = NULL, Abandoned = False,
     ApcDisable = 0, EntryListHead = [], ThreadListHead = [], CurrentCount = 0, MaximumCount = 0, DueTime = 0, TimerDpc = NULL, Inserted = False\<rparr>"

definition loaded :: sched where
  "loaded = \<lparr>Threads = (\<lambda>_. new_thread), Processes = (\<lambda>_. new_process), Objects = (\<lambda>_. new_object), KiDispatcherReadyListHead = (\<lambda>_. []),
     KiReadySummary = 0, KiIdleSummary = 0, NextThread = NULL, CurrentThread = NULL, IdleThread = NULL, KiWaitInListHead = [],
     KiWaitOutListHead = [], KiProcessInSwapListHead = [], KiProcessOutSwapListHead = [], KiStackInSwapListHead = [], KiSwapEvent = 103,
     KeWaitReason = (\<lambda>_. 0), KiTimerTableListHead = (\<lambda>_. []), InterruptTime = 0, SystemTime = 0, TickCountLow = 0, QuantumEnd = False,
     IsExecutingDpc = False, DispatchInterrupt = False, ApcInterrupt = False, KiDecrementCount = 3, KiWaitQuantumDecrement = 10,
     KiReadyQueueIndex = 1, DpcListHead = [], DpcQueued = (\<lambda>_. False), KiTimeIncrementReciprocal = 1, KiTimeIncrementShiftCount = 0,
     Apcs = (\<lambda>_. \<lparr>ApcThread = NULL, ApcModeOf = KernelMode, KernelRoutine = NULL, NormalRoutine = NULL, ApcInserted = False, ApcIndex = 0\<rparr>),
     PsReaperListHead = [], PsReaperActive = False\<rparr>"

definition two_threads :: sched where
  \<comment> \<open>thread 2 runs, and thread 3 is ready\<close>
  "two_threads = KiIdleLoop SwapEventTest (KeReadyThread (KeReadyThread (KiInitializeKernel loaded 10) 2 2) 3 2)"

lemmas run_defs = KiInitializeKernel_def KiSetPriorityThread_def KiFindReadyThread_def FindReadyLoop.simps SetMember_def loaded_def
  new_thread_def new_process_def new_object_def

lemma loaded_blank: "blank loaded"
  by (simp add: blank_def loaded_def new_thread_def new_process_def new_object_def prio_ok_def)

lemma initialized_idle:
  "KiIdleSummary (KiInitializeKernel loaded 10) = 1" "NextThread (KiInitializeKernel loaded 10) = NULL"
  "CurrentThread (KiInitializeKernel loaded 10) = 10" "IdleThread (KiInitializeKernel loaded 10) = 10"
  "Threads (KiInitializeKernel loaded 10) = (\<lambda>_. new_thread)(10 := new_thread\<lparr>Priority := 0, State := Running, WaitIrql := 2\<rparr>)"
  "Processes (KiInitializeKernel loaded 10) = (\<lambda>_. new_process)" "Objects (KiInitializeKernel loaded 10) = (\<lambda>_. new_object)"
  "KiDispatcherReadyListHead (KiInitializeKernel loaded 10) = (\<lambda>_. [])" "KiReadySummary (KiInitializeKernel loaded 10) = 0"
  "TickCountLow (KiInitializeKernel loaded 10) = 0"
  by (simp_all add: run_defs Let_def)

definition one_thread :: sched where
  "one_thread = KeReadyThread (KiInitializeKernel loaded 10) 2 2"

lemma new_thread_simps [simp]:
  "Process new_thread = 50" "KernelStackResident new_thread" "Priority new_thread = 8" "State new_thread = Initialized" "\<not> Preempted new_thread"
  "new_thread\<lparr>Preempted := False, WaitTime := 0\<rparr> = new_thread" "ProcessState new_process = ProcessInMemory" "WaitListHead new_object = []"
  by (simp_all add: new_thread_def new_process_def new_object_def)

lemma one_thread_state:
  "KiIdleSummary one_thread = 0" "NextThread one_thread = 2" "CurrentThread one_thread = 10" "IdleThread one_thread = 10"
  "Threads one_thread = (\<lambda>_. new_thread)(10 := new_thread\<lparr>Priority := 0, State := Running, WaitIrql := 2\<rparr>, 2 := new_thread\<lparr>State := Standby\<rparr>)"
  "Processes one_thread = (\<lambda>_. new_process)" "Objects one_thread = (\<lambda>_. new_object)"
  "KiDispatcherReadyListHead one_thread = (\<lambda>_. [])" "KiReadySummary one_thread = 0" "TickCountLow one_thread = 0"
  by (simp_all add: one_thread_def KeReadyThread_def KiUnlockDispatcherDatabase_def ready_idle starts_def resident_def initialized_idle)

lemma two_threads_state:
  "KiIdleSummary two_threads = 0" "NextThread two_threads = NULL" "CurrentThread two_threads = 2" "IdleThread two_threads = 10"
  "Threads two_threads = (\<lambda>_. new_thread)(10 := new_thread\<lparr>Priority := 0, State := Running, WaitIrql := 2\<rparr>,
     3 := new_thread\<lparr>State := Ready\<rparr>, 2 := new_thread\<lparr>State := Running\<rparr>)"
  "Processes two_threads = (\<lambda>_. new_process)" "Objects two_threads = (\<lambda>_. new_object)"
  "KiDispatcherReadyListHead two_threads = (\<lambda>_. [])(8 := [3])" "KiReadySummary two_threads = 256" "TickCountLow two_threads = 0"
  unfolding two_threads_def one_thread_def [symmetric]
  by (simp_all add: KeReadyThread_def KiUnlockDispatcherDatabase_def ready_queue starts_def resident_def one_thread_state top_priority_def
      KiIdleLoop_def KiSwapContext_def SwapContext_def QueueTail_def SetMember_def)

lemma two_threads_reachable: "reachable two_threads"
proof -
  have "reachable (KiInitializeKernel loaded 10)" by (rule reachable.start [OF loaded_blank]) simp
  then have 1: "reachable one_thread" unfolding one_thread_def
    by (rule reachable.step [OF _ ready_thread]) (simp_all add: initialized_idle low_def)
  then have 2: "reachable (KeReadyThread one_thread 3 2)"
    by (rule reachable.step [OF _ ready_thread]) (simp_all add: one_thread_state low_def)
  have "CurrentThread (KeReadyThread one_thread 3 2) = IdleThread (KeReadyThread one_thread 3 2)"
    by (simp add: KeReadyThread_def KiUnlockDispatcherDatabase_def ready_queue starts_def resident_def one_thread_state top_priority_def
        QueueTail_def)
  with 2 show ?thesis unfolding two_threads_def one_thread_def [symmetric] by (rule reachable.step [OF _ dispatcher_step.idle])
qed

section \<open>Every reachable state\<close>







section \<open>Semaphores\<close>

lemma slong_id: "- (2 ^ 31) \<le> x \<Longrightarrow> x < 2 ^ 31 \<Longrightarrow> slong x = x"
  by (simp add: slong_def)

lemma slong_wraps:
  assumes "2 ^ 31 \<le> x" "x < 2 ^ 32 + 2 ^ 31"
  shows "slong x = x - 2 ^ 32"
proof -
  have "(x + 2147483648) mod 4294967296 = (x + 2147483648 - 4294967296) mod 4294967296" by (simp only: minus_mod_self2)
  also have "\<dots> = x + 2147483648 - 4294967296" using assms by (intro mod_pos_pos_trivial) simp_all
  finally show ?thesis by (simp add: slong_def)
qed

text \<open>
  C11: \<open>KeReleaseSemaphore\<close> returns from every reachable state.  It raises the limit error exactly when the
  adjustment is negative or would take the count above the limit, although it computes the
  new count in 32 bits and with wrap-around, and then it changes nothing but that a preemption may occur; otherwise it
  returns the previous count, and where no thread waits the count is raised by the adjustment.
\<close>

theorem KeReleaseSemaphore_limit:
  assumes "reachable s" "low s OldIrql" "0 \<le> SignalState (Objects s Sem)" "SignalState (Objects s Sem) \<le> Limit (Objects s Sem)"
    "Limit (Objects s Sem) < 2 ^ 31" "- (2 ^ 31) \<le> Adj" "Adj < 2 ^ 31"
  shows "\<exists>s' r. KeReleaseSemaphore s Sem Increment Adj Wait OldIrql = Some (s', r) \<and> reachable s' \<and>
    (if Adj < 0 \<or> Limit (Objects s Sem) < SignalState (Objects s Sem) + Adj
     then r = Inl 0xC0000047 \<and> s' = KiUnlockDispatcherDatabase SwapEventTest s OldIrql
     else r = Inr (SignalState (Objects s Sem)) \<and>
       (WaitListHead (Objects s Sem) = [] \<longrightarrow>
          s' = Release (upd_thread (upd_object s Sem (\<lambda>e. e\<lparr>SignalState := SignalState (Objects s Sem) + Adj\<rparr>)) (CurrentThread s) (\<lambda>t. t\<lparr>WaitNext := Wait\<rparr>)) Wait OldIrql))"
proof -
  let ?S = "SignalState (Objects s Sem)"
  obtain s' r where r: "KeReleaseSemaphore s Sem Increment Adj Wait OldIrql = Some (s', r)"
    using KeReleaseSemaphore_rest [OF reachable_rest [OF assms(1)] assms(2)] by blast
  have "reachable s'" by (rule reachable.step [OF assms(1) release_semaphore [OF assms(2) r]])
  moreover have c: "slong (?S + Adj) > Limit (Objects s Sem) \<or> slong (?S + Adj) < ?S \<longleftrightarrow> Adj < 0 \<or> Limit (Objects s Sem) < ?S + Adj"
  proof (cases "?S + Adj < 2 ^ 31")
    case True
    then have "slong (?S + Adj) = ?S + Adj" using assms(3,6) by (intro slong_id) simp_all
    then show ?thesis by auto
  next
    case False
    then have "slong (?S + Adj) = ?S + Adj - 2 ^ 32" using assms(4,5,7) by (intro slong_wraps) simp_all
    then show ?thesis using False assms by auto
  qed
  moreover have "slong (?S + Adj) = ?S + Adj" if "\<not> (Adj < 0 \<or> Limit (Objects s Sem) < ?S + Adj)"
    using that assms(3,5) by (intro slong_id) simp_all
  ultimately show ?thesis using r
    by (cases "Adj < 0 \<or> Limit (Objects s Sem) < ?S + Adj") (auto simp: KeReleaseSemaphore_def Let_def split: option.splits if_splits)
qed

theorem KeReleaseSemaphore_limit_witness:
  "low two_threads 2 \<and> Limit (Objects two_threads 60) = 5 \<and>
   (\<exists>s'. KeReleaseSemaphore two_threads 60 0 2147483647 False 2 = Some (s', Inl 0xC0000047)) \<and>
   (\<exists>s'. KeReleaseSemaphore two_threads 60 0 5 False 2 = Some (s', Inr 0))"
  using KeReleaseSemaphore_limit [OF two_threads_reachable, of 2 60 2147483647 0 False]
    KeReleaseSemaphore_limit [OF two_threads_reachable, of 2 60 5 0 False]
  by (auto simp: low_def two_threads_state new_object_def)

end
