(* ===== verification/Round_Robin.thy ===== *)
theory Round_Robin
  imports Dispatcher_Run
begin

text \<open>
  The quantum as a scheduling guarantee: under the clock interrupt, the threads that are ready at
  the priority of the running thread take turns, and each of them runs after a bounded time.
\<close>

section \<open>A tick of the clock\<close>

definition RunTick :: "sched \<Rightarrow> sched" where
  \<comment> \<open>the running thread is charged a tick, and the dispatch interrupt is taken if it is requested\<close>
  "RunTick s =
     (let s = ChargeQuantum s
      in if DispatchInterrupt s then KiDispatchInterrupt SwapEventTest (s\<lparr>DispatchInterrupt := False\<rparr>) else s)"

definition turn :: "int \<Rightarrow> sched \<Rightarrow> ptr \<Rightarrow> bool" where
  \<comment> \<open>a thread in memory that was not preempted, at its base priority or at a realtime priority, with a quantum of at most \<open>Q\<close>\<close>
  "turn Q s t \<longleftrightarrow> resident s t \<and> \<not> Preempted (Threads s t) \<and>
     (Priority (Threads s t) = BasePriority (Threads s t) \<or> 16 \<le> Priority (Threads s t)) \<and>
     Quantum (Threads s t) \<in> {-127..Q} \<and> ThreadQuantum (Processes s (Process (Threads s t))) \<in> {-127..Q}"

definition turns :: "int \<Rightarrow> sched \<Rightarrow> bool" where
  \<comment> \<open>a thread runs, and it and the ready threads of its priority can take turns\<close>
  "turns Q s \<longleftrightarrow> CurrentThread s \<noteq> IdleThread s \<and> NextThread s = NULL \<and>
     (\<forall>t \<in> insert (CurrentThread s) (set (KiDispatcherReadyListHead s (Priority (Threads s (CurrentThread s))))). turn Q s t)"

lemma turnD:
  assumes "turns Q s"
  shows "CurrentThread s \<noteq> IdleThread s" "NextThread s = NULL" "turn Q s (CurrentThread s)"
    "t \<in> set (KiDispatcherReadyListHead s (Priority (Threads s (CurrentThread s)))) \<Longrightarrow> turn Q s t"
  using assms by (auto simp: turns_def)

lemma charge_keeps [simp]:
  "Processes (ChargeQuantum s) = Processes s" "KiDispatcherReadyListHead (ChargeQuantum s) = KiDispatcherReadyListHead s"
  "CurrentThread (ChargeQuantum s) = CurrentThread s" "IdleThread (ChargeQuantum s) = IdleThread s" "NextThread (ChargeQuantum s) = NextThread s"
  "KiIdleSummary (ChargeQuantum s) = KiIdleSummary s" "KiReadySummary (ChargeQuantum s) = KiReadySummary s"
  "Threads (ChargeQuantum s) = (Threads s)(CurrentThread s := Threads s (CurrentThread s)\<lparr>Quantum := schar (Quantum (Threads s (CurrentThread s)) - 1)\<rparr>)"
  by (simp_all add: ChargeQuantum_def Let_def)

lemma tick_runs:
  assumes t: "turns Q s" "Q \<le> 127" and q: "1 < Quantum (Threads s (CurrentThread s))"
  shows "Threads (RunTick s) = (Threads s)(CurrentThread s := Threads s (CurrentThread s)\<lparr>Quantum := Quantum (Threads s (CurrentThread s)) - 1\<rparr>)"
    "Processes (RunTick s) = Processes s" "KiDispatcherReadyListHead (RunTick s) = KiDispatcherReadyListHead s"
    "CurrentThread (RunTick s) = CurrentThread s" "IdleThread (RunTick s) = IdleThread s" "NextThread (RunTick s) = NextThread s"
proof -
  have c: "schar (Quantum (Threads s (CurrentThread s)) - 1) = Quantum (Threads s (CurrentThread s)) - 1"
    by (rule schar_id) (use turnD(3) [OF t(1)] t(2) q in \<open>simp_all add: turn_def\<close>)
  then have "KiQuantumEnd SwapEventTest (ChargeQuantum s\<lparr>DispatchInterrupt := False, QuantumEnd := False\<rparr>) =
      ChargeQuantum s\<lparr>DispatchInterrupt := False, QuantumEnd := False\<rparr>" using q by (simp add: KiQuantumEnd_def)
  then have "RunTick s = (if DispatchInterrupt (ChargeQuantum s) then
      ChargeQuantum s\<lparr>DispatchInterrupt := False, QuantumEnd := False\<rparr> else ChargeQuantum s)"
    using turnD(2) [OF t(1)] by (simp add: RunTick_def KiDispatchInterrupt_def Let_def)
  then show "Threads (RunTick s) = (Threads s)(CurrentThread s := Threads s (CurrentThread s)\<lparr>Quantum := Quantum (Threads s (CurrentThread s)) - 1\<rparr>)"
    "Processes (RunTick s) = Processes s" "KiDispatcherReadyListHead (RunTick s) = KiDispatcherReadyListHead s"
    "CurrentThread (RunTick s) = CurrentThread s" "IdleThread (RunTick s) = IdleThread s" "NextThread (RunTick s) = NextThread s"
    using c by simp_all
qed

lemma RunTick_rest:
  assumes "rest s" "CurrentThread s \<noteq> IdleThread s"
  shows "rest (RunTick s)"
proof -
  have 1: "rest (ChargeQuantum s)" by (rule same_rest [OF assms(1) ChargeQuantum_same])
  have 2: "rest (ChargeQuantum s\<lparr>DispatchInterrupt := False\<rparr>)" by (rule same_rest [OF 1]) (simp add: same_def)
  show ?thesis using swap.KiDispatchInterrupt_rest [OF 2] assms(2) 1 by (simp add: RunTick_def Let_def)
qed

lemma find_head:
  assumes "queues_ok s" "p < 32" "KiDispatcherReadyListHead s p = t # ts"
  shows "KiFindReadyThread s p p = (Dequeue s p t, t)"
proof -
  obtain s' u where f: "KiFindReadyThread s p p = (s', u)" by (cases "KiFindReadyThread s p p")
  show ?thesis using KiFindReadyThread_found [OF assms(1,2,2), unfolded f]
  proof (cases rule: found_cases)
    case (1 q)
    then have "q = p" by simp
    then show ?thesis using 1(4,5) f assms(3) by simp
  next
    case 2
    then show ?thesis using assms(3) by simp
  qed
qed

lemma upd_thread_twice: "upd_thread (upd_thread s t f) t g = upd_thread s t (\<lambda>x. g (f x))"
  by (simp add: upd_thread_def)

definition renew :: "sched \<Rightarrow> nat \<Rightarrow> KTHREAD \<Rightarrow> KTHREAD" where
  \<comment> \<open>the fields that the end of a quantum resets\<close>
  "renew s p x = x\<lparr>Quantum := ThreadQuantum (Processes s (Process x)), PriorityDecrement := (if p < 16 then 0 else PriorityDecrement x)\<rparr>"

lemma quantum_next:
  assumes q: "queues_ok s" and n: "NextThread s = NULL" and c: "CurrentThread s = C"
    and P: "Priority (Threads s C) = p" "p < 32" "p = BasePriority (Threads s C) \<or> 16 \<le> p" "0 \<le> PriorityDecrement (Threads s C)"
    and C: "Quantum (Threads s C) \<le> 0" and l: "KiDispatcherReadyListHead s p = t # ts" "t \<noteq> NULL"
  shows "KiQuantumEnd SwapEventTest s =
     upd_thread (Dequeue (upd_thread s C (renew s p)) p t) t (\<lambda>x. x\<lparr>State := Standby\<rparr>)\<lparr>NextThread := t\<rparr>"
proof -
  have f: "KiFindReadyThread (upd_thread s C g) p p = (Dequeue (upd_thread s C g) p t, t)"
    if "\<And>x. State (g x) = State x \<and> Priority (g x) = Priority x \<and> ProcessReadyQueue (g x) = ProcessReadyQueue x" for g
    by (rule find_head [where ts = ts]) (use q that P(2) l in \<open>simp_all add: queues_ok_def\<close>)
  show ?thesis
  proof (cases "p < 16")
    case True
    then have m: "max (int p - PriorityDecrement (Threads s C) - 1) (int (BasePriority (Threads s C))) = int p" using P(3,4) by auto
    show ?thesis using True C P(1) n c l(2)
      by (simp add: KiQuantumEnd_def Let_def upd_thread_twice m f renew_def [abs_def])
  next
    case False
    then show ?thesis using C P(1) n c l(2) by (simp add: KiQuantumEnd_def Let_def f renew_def [abs_def])
  qed
qed

lemma quantum_switch:
  assumes q: "queues_ok s" "KiIdleSummary s = 0" and n: "NextThread s = NULL" and c: "CurrentThread s = C"
    and P: "Priority (Threads s C) = p" "p < 32" "p = BasePriority (Threads s C) \<or> 16 \<le> p" "0 \<le> PriorityDecrement (Threads s C)"
    and C: "resident s C" "\<not> Preempted (Threads s C)" "Quantum (Threads s C) \<le> 0"
    and l: "KiDispatcherReadyListHead s p = t # ts" "t \<noteq> C" "t \<noteq> NULL" "Priority (Threads s t) = p"
  defines "s' \<equiv> SwitchToNext SwapEventTest (KiQuantumEnd SwapEventTest s)"
  shows "CurrentThread s' = t" "IdleThread s' = IdleThread s" "NextThread s' = NULL" "Processes s' = Processes s"
    "KiDispatcherReadyListHead s' = (KiDispatcherReadyListHead s)(p := ts @ [C])"
    "Threads s' = (Threads s)(C := (renew s p (Threads s C))\<lparr>State := Ready, Preempted := False, WaitTime := TickCountLow s\<rparr>,
       t := (Threads s t)\<lparr>State := Running\<rparr>)"
proof -
  let ?q = "upd_thread (Dequeue (upd_thread s C (renew s p)) p t) t (\<lambda>x. x\<lparr>State := Standby\<rparr>)"
  note d = quantum_next [OF q(1) n c P C(3) l(1,3)]
  let ?r = "?q\<lparr>NextThread := NULL, CurrentThread := t\<rparr>"
  have "KiReadyThread SwapEventTest ?r C = QueueTail (upd_thread (starts ?r C) C (\<lambda>t. t\<lparr>State := Ready\<rparr>)) p C"
    using ready_queue [of ?r C SwapEventTest] C(1,2) q(2) P(1) l(2,4) by (simp add: resident_def top_priority_def renew_def)
  then have e: "s' = SwapContext (QueueTail (upd_thread (starts ?r C) C (\<lambda>t. t\<lparr>State := Ready\<rparr>)) p C) t"
    by (simp add: SwitchToNext_def Let_def d c s'_def)
  show "CurrentThread s' = t" "IdleThread s' = IdleThread s" "NextThread s' = NULL" "Processes s' = Processes s"
    "KiDispatcherReadyListHead s' = (KiDispatcherReadyListHead s)(p := ts @ [C])"
    using l(1) by (simp_all add: e SwapContext_def starts_def fun_eq_iff)
  show "Threads s' = (Threads s)(C := (renew s p (Threads s C))\<lparr>State := Ready, Preempted := False, WaitTime := TickCountLow s\<rparr>,
       t := (Threads s t)\<lparr>State := Running\<rparr>)"
    using l(2) by (simp add: e SwapContext_def starts_def fun_eq_iff)
qed

lemma tick_ends:
  assumes r: "rest s" and t: "turns Q s" "Q \<le> 127" and q: "Quantum (Threads s (CurrentThread s)) \<le> 1"
    and p: "Priority (Threads s (CurrentThread s)) = p" and l: "KiDispatcherReadyListHead s p = t # ts"
  shows "turns Q (RunTick s)" "CurrentThread (RunTick s) = t" "Priority (Threads (RunTick s) t) = p"
    "KiDispatcherReadyListHead (RunTick s) p = ts @ [CurrentThread s]"
proof -
  let ?C = "CurrentThread s" and ?s = "ChargeQuantum s\<lparr>DispatchInterrupt := False, QuantumEnd := False\<rparr>"
  note o = restD [OF r] and k = sched_okD [OF restD(1) [OF r]] and u = turnD [OF t(1)]
  note l' = queues_okD(3) [OF k(1), of t p, unfolded l, simplified]
  have C: "turn Q s ?C" and T: "\<And>x. x \<in> set (t # ts) \<Longrightarrow> turn Q s x" using u(3) u(4) p l by auto
  have n: "t \<noteq> ?C" "t \<noteq> NULL" "t \<noteq> IdleThread s" "Priority (Threads s t) = p" using l' o(2,3) by auto
  have i: "KiIdleSummary s = 0" using o(7) u(1) by blast
  have c: "schar (Quantum (Threads s ?C) - 1) \<le> 0" using schar_id [of "Quantum (Threads s ?C) - 1"] C q by (simp add: turn_def)
  have pr: "p < 32" "0 \<le> PriorityDecrement (Threads s ?C)" using k(10) [of ?C] p by (auto simp: prio_ok_def)
  have qo: "queues_ok ?s" using k(1) by (simp add: queues_ok_def)
  have b: "p = BasePriority (Threads ?s ?C) \<or> 16 \<le> p" "resident ?s ?C" "\<not> Preempted (Threads ?s ?C)"
    using C p by (auto simp: turn_def resident_def)
  have n': "NextThread (KiQuantumEnd SwapEventTest ?s) = t"
    using quantum_next [of ?s ?C p t ts] qo u(2) p pr b(1) c l n(2) by simp
  have e: "RunTick s = SwitchToNext SwapEventTest (KiQuantumEnd SwapEventTest ?s)"
    using q n' n(2) by (simp add: RunTick_def KiDispatchInterrupt_def Let_def ChargeQuantum_def)
  note w = quantum_switch [of ?s ?C p t ts, folded e]
  have f: "CurrentThread (RunTick s) = t" "IdleThread (RunTick s) = IdleThread s" "NextThread (RunTick s) = NULL" "Processes (RunTick s) = Processes s"
    "KiDispatcherReadyListHead (RunTick s) = (KiDispatcherReadyListHead s)(p := ts @ [?C])"
    "Threads (RunTick s) = (Threads s)(?C := (renew ?s p (Threads ?s ?C))\<lparr>State := Ready, Preempted := False, WaitTime := TickCountLow ?s\<rparr>,
       t := (Threads s t)\<lparr>State := Running\<rparr>)"
    using w qo i u(2) p pr b c l n by simp_all
  show "CurrentThread (RunTick s) = t" "Priority (Threads (RunTick s) t) = p" "KiDispatcherReadyListHead (RunTick s) p = ts @ [?C]"
    using f n by simp_all
  have "turn Q (RunTick s) x" if "x \<in> insert ?C (set (t # ts))" for x
    using that C T [of x] f(4,6) n(1) by (auto simp: turn_def resident_def renew_def)
  then show "turns Q (RunTick s)" using f n by (simp add: turns_def)
qed

lemma tick_turns:
  assumes t: "turns Q s" "Q \<le> 127" and q: "1 < Quantum (Threads s (CurrentThread s))"
  shows "turns Q (RunTick s)" "CurrentThread (RunTick s) = CurrentThread s" "Quantum (Threads (RunTick s) (CurrentThread s)) = Quantum (Threads s (CurrentThread s)) - 1"
    "Priority (Threads (RunTick s) x) = Priority (Threads s x)" "KiDispatcherReadyListHead (RunTick s) = KiDispatcherReadyListHead s"
proof -
  note f = tick_runs [OF t q]
  show 1: "CurrentThread (RunTick s) = CurrentThread s" "Quantum (Threads (RunTick s) (CurrentThread s)) = Quantum (Threads s (CurrentThread s)) - 1"
    "KiDispatcherReadyListHead (RunTick s) = KiDispatcherReadyListHead s" and 2: "\<And>x. Priority (Threads (RunTick s) x) = Priority (Threads s x)"
    using f by simp_all
  have "turn Q (RunTick s) x" if "turn Q s x" for x using that f(1,2) q by (auto simp: turn_def resident_def)
  then show "turns Q (RunTick s)" using t(1) 1(1) f(3,5,6) 2 by (simp add: turns_def)
qed

lemma next_turn:
  assumes "rest s" "turns Q s" "Q \<le> 127" "Priority (Threads s (CurrentThread s)) = p" "KiDispatcherReadyListHead s p = t # ts" "1 \<le> Q"
  shows "\<exists>n \<le> nat Q. rest ((RunTick ^^ n) s) \<and> turns Q ((RunTick ^^ n) s) \<and> CurrentThread ((RunTick ^^ n) s) = t \<and>
    Priority (Threads ((RunTick ^^ n) s) t) = p \<and> KiDispatcherReadyListHead ((RunTick ^^ n) s) p = ts @ [CurrentThread s]"
proof -
  have "\<exists>n \<le> max 1 k. rest ((RunTick ^^ n) s) \<and> turns Q ((RunTick ^^ n) s) \<and> CurrentThread ((RunTick ^^ n) s) = t \<and>
    Priority (Threads ((RunTick ^^ n) s) t) = p \<and> KiDispatcherReadyListHead ((RunTick ^^ n) s) p = ts @ [CurrentThread s]"
    if "nat (Quantum (Threads s (CurrentThread s))) = k" for k
    using that assms
  proof (induction k arbitrary: s rule: less_induct)
    case (less k)
    note r = RunTick_rest [OF less.prems(2) turnD(1) [OF less.prems(3)]]
    show ?case
    proof (cases "Quantum (Threads s (CurrentThread s)) \<le> 1")
      case True
      show ?thesis using r tick_ends [OF less.prems(2-4) True less.prems(5,6)] by (intro exI [of _ 1]) simp
    next
      case False
      then have q: "1 < Quantum (Threads s (CurrentThread s))" by simp
      note f = tick_turns [OF less.prems(3,4) q]
      have k: "nat (Quantum (Threads s (CurrentThread s)) - 1) < k" "max 1 (nat (Quantum (Threads s (CurrentThread s)) - 1)) + 1 \<le> max 1 k"
        using q less.prems(1) by auto
      obtain n where n: "n \<le> max 1 (nat (Quantum (Threads s (CurrentThread s)) - 1))"
        "rest ((RunTick ^^ n) (RunTick s)) \<and> turns Q ((RunTick ^^ n) (RunTick s)) \<and> CurrentThread ((RunTick ^^ n) (RunTick s)) = t \<and>
         Priority (Threads ((RunTick ^^ n) (RunTick s)) t) = p \<and> KiDispatcherReadyListHead ((RunTick ^^ n) (RunTick s)) p = ts @ [CurrentThread s]"
        using less.IH [OF k(1), of "RunTick s"] r f less.prems by auto
      then show ?thesis using k(2) by (intro exI [of _ "Suc n"]) (simp add: funpow_swap1)
    qed
  qed
  moreover have "max 1 (nat (Quantum (Threads s (CurrentThread s)))) \<le> nat Q" using turnD(3) [OF assms(2)] assms(6) by (auto simp: turn_def nat_le_eq_zle intro: nat_mono)
  ultimately show ?thesis by (meson order_trans)
qed

section \<open>Every ready thread of the priority runs\<close>

lemma turns_taken:
  assumes "rest s" "turns Q s" "1 \<le> Q" "Q \<le> 127" "Priority (Threads s (CurrentThread s)) = p" "i < length (KiDispatcherReadyListHead s p)"
  shows "\<exists>n \<le> (i + 1) * nat Q. rest ((RunTick ^^ n) s) \<and> CurrentThread ((RunTick ^^ n) s) = KiDispatcherReadyListHead s p ! i"
  using assms
proof (induction i arbitrary: s)
  case 0
  then obtain t ts where l: "KiDispatcherReadyListHead s p = t # ts" by (cases "KiDispatcherReadyListHead s p") simp_all
  show ?case using next_turn [OF 0(1,2,4,5) l 0(3)] l by auto
next
  case (Suc i)
  then obtain t ts where l: "KiDispatcherReadyListHead s p = t # ts" by (cases "KiDispatcherReadyListHead s p") simp_all
  obtain n where n: "n \<le> nat Q" "rest ((RunTick ^^ n) s)" "turns Q ((RunTick ^^ n) s)" "CurrentThread ((RunTick ^^ n) s) = t"
    "Priority (Threads ((RunTick ^^ n) s) t) = p" "KiDispatcherReadyListHead ((RunTick ^^ n) s) p = ts @ [CurrentThread s]"
    using next_turn [OF Suc.prems(1,2,4,5) l Suc.prems(3)] by blast
  obtain m where m: "m \<le> (i + 1) * nat Q" "rest ((RunTick ^^ m) ((RunTick ^^ n) s))"
    "CurrentThread ((RunTick ^^ m) ((RunTick ^^ n) s)) = KiDispatcherReadyListHead ((RunTick ^^ n) s) p ! i"
    using Suc.IH [OF n(2,3) Suc.prems(3,4)] n(4-6) Suc.prems(6) l by auto
  have "m + n \<le> (Suc i + 1) * nat Q" using m(1) n(1) by simp
  moreover have "KiDispatcherReadyListHead ((RunTick ^^ n) s) p ! i = KiDispatcherReadyListHead s p ! Suc i"
    using n(6) l Suc.prems(6) by (simp add: nth_append)
  ultimately show ?case using m(2,3) by (intro exI [of _ "m + n"]) (simp add: funpow_add)
qed



end
