(* ===== verification/Timer_Index.thy ===== *)
theory Timer_Index
  imports Wait_Services
begin

text \<open>
  The index of a timer in the timer table: the 32-bit steps of \<open>KE/I386/TIMINDEX.ASM\<close> compute the
  high half of the 128-bit product of the due time and the reciprocal of the time increment, which
  \<open>KiComputeReciprocal\<close> of \<open>KE/KIINIT.C\<close> computes; together they divide.
\<close>

section \<open>The reciprocal\<close>

partial_function (option) ReciprocalLoop :: "int \<Rightarrow> nat \<Rightarrow> int \<Rightarrow> nat \<Rightarrow> (nat \<times> int \<times> nat) option" where
  \<comment> \<open>\<open>Fraction\<close> is the 64-bit value of the two halves; its high part is negative from \<open>2 ^ 63\<close> on\<close>
  "ReciprocalLoop Divisor Fraction Remainder NumberBits =
     (if Fraction < 9223372036854775808 then
        let NumberBits = NumberBits + 1; Fraction = 2 * Fraction; Remainder = slong (2 * Remainder)
        in if Remainder \<ge> Divisor then ReciprocalLoop Divisor (Fraction + 1) (slong (Remainder - Divisor)) NumberBits
           else ReciprocalLoop Divisor Fraction Remainder NumberBits
      else Some (Fraction, Remainder, NumberBits))"

definition KiComputeReciprocal :: "int \<Rightarrow> (nat \<times> int) option" where
  \<comment> \<open>the reciprocal and the shift count\<close>
  "KiComputeReciprocal Divisor =
     (case ReciprocalLoop Divisor 0 1 0 of
        None \<Rightarrow> None
      | Some (Fraction, Remainder, NumberBits) \<Rightarrow>
          Some (if Remainder \<noteq> 0 then
                  if Fraction = 18446744073709551615 then (9223372036854775808, int NumberBits - 1 - 64)
                  else (Fraction + 1, int NumberBits - 64)
                else (Fraction, int NumberBits - 64)))"

section \<open>The product\<close>

lemma adc_step:
  \<comment> \<open>an addition to a 64-bit number in two registers\<close>
  assumes "adc eax x = (eax', c)" "edx * 4294967296 + eax + x < 18446744073709551616" "eax < 4294967296"
  shows "u32 (edx + c) * 4294967296 + eax' = edx * 4294967296 + eax + x" "eax' < 4294967296"
proof -
  have e: "eax' = (eax + x) mod 4294967296" "c = (eax + x) div 4294967296" using assms(1) by (auto simp: adc_def u32_def)
  have m: "(eax + x) div 4294967296 * 4294967296 + (eax + x) mod 4294967296 = eax + x" by simp
  have "edx + c < 4294967296"
  proof (rule ccontr)
    assume "\<not> edx + c < 4294967296"
    then have "4294967296 * 4294967296 \<le> (edx + c) * 4294967296" by simp
    then show False using assms(2) m unfolding e by (simp add: algebra_simps)
  qed
  then have "u32 (edx + c) = edx + c" by (simp add: u32_def)
  then show "u32 (edx + c) * 4294967296 + eax' = edx * 4294967296 + eax + x" using m unfolding e by (simp add: algebra_simps)
  show "eax' < 4294967296" by (simp add: e)
qed

lemma split_div: "(x * B + y) div B = x + y div B" if "0 < B" for x y B :: nat
  using that by simp

lemma product_high:
  fixes a b c d B :: nat
  assumes B: "0 < B"
  shows "(c * B + a) * (d * B + b) div (B * B) =
    c * d + (a * d) div B + (c * b) div B + ((c * b) mod B + (a * d) mod B + (a * b) div B) div B"
proof -
  have "(c * B + a) * (d * B + b) = ((c * d) * B + (a * d + c * b)) * B + a * b" by (simp add: algebra_simps)
  then have "(c * B + a) * (d * B + b) div B = (c * d) * B + (a * d + c * b + (a * b) div B)" using split_div [OF B] by simp
  then have "(c * B + a) * (d * B + b) div (B * B) = c * d + (a * d + c * b + (a * b) div B) div B"
    unfolding div_mult2_eq using split_div [OF B] by simp
  also have "a * d + c * b + (a * b) div B = ((a * d) div B + (c * b) div B) * B + ((c * b) mod B + (a * d) mod B + (a * b) div B)"
    by (simp add: algebra_simps)
  finally show ?thesis using split_div [OF B] by simp
qed

lemma carries: "(x + y) div B + ((x + y) mod B + z) div B = (x + y + z) div B" if "0 < B" for x y z B :: nat
proof -
  have "x + y + z = (x + y) div B * B + ((x + y) mod B + z)" by simp
  then show ?thesis using split_div [OF that] by metis
qed

lemma high_bound:
  fixes D R :: nat
  assumes "D < 18446744073709551616" "R < 18446744073709551616"
  shows "D * R div 18446744073709551616 < 18446744073709551616"
  using mult_strict_mono' [OF assms] by (simp add: div_less_iff_less_mult)

lemma KiComputeTimerTableIndex_high:
  assumes D: "D < 18446744073709551616" and R: "R < 18446744073709551616"
  shows "KiComputeTimerTableIndex R S D = D * R div 2 ^ 64 div 2 ^ (S mod 32) mod 128"
proof -
  define B :: nat where "B = 4294967296"
  define a where "a = u32 D"
  define c where "c = D div B"
  define b where "b = u32 R"
  define d where "d = R div B"
  have l: "a < B" "b < B" "c < B" "d < B" using D R by (simp_all add: a_def b_def c_def d_def u32_def B_def)
  have DR: "D = c * B + a" "R = d * B + b" by (simp_all add: a_def b_def c_def d_def u32_def B_def)
  obtain e1 c1 where 1: "adc (u32 (c * b)) (u32 (a * d)) = (e1, c1)" by force
  obtain e2 c2 where 2: "adc e1 (a * b div B) = (e2, c2)" by force
  obtain e3 c3 where 3: "adc (u32 (c * d)) (c1 + c2) = (e3, c3)" by force
  obtain e4 c4 where 4: "adc e3 (c * b div B) = (e4, c4)" by force
  obtain e5 c5 where 5: "adc e4 (a * d div B) = (e5, c5)" by force
  let ?x3 = "u32 (c * d div B + c3)" let ?x4 = "u32 (?x3 + c4)" let ?x5 = "u32 (?x4 + c5)"
  have i: "KiComputeTimerTableIndex R S D = u32 ((?x5 * B + e5) div 2 ^ (S mod 32)) mod 128"
    using 1 2 3 4 5 by (simp add: KiComputeTimerTableIndex_def Let_def a_def b_def c_def d_def B_def)
  have cc: "c1 + c2 = ((c * b) mod B + (a * d) mod B + (a * b) div B) div B"
    using 1 2 carries [of B "(c * b) mod B" "(a * d) mod B" "(a * b) div B"] by (auto simp: adc_def u32_def B_def)
  define H where "H = D * R div (B * B)"
  have H: "H = c * d + (a * d) div B + (c * b) div B + (c1 + c2)"
    unfolding H_def cc DR by (rule product_high) (simp add: B_def)
  have BB: "B * B = 18446744073709551616" by (simp add: B_def)
  have Hb: "H < B * B" unfolding H_def BB by (rule high_bound [OF D R])
  have p4: "c * d = (c * d div B) * B + u32 (c * d)" by (simp add: u32_def B_def)
  note s3 = adc_step [OF 3, of "c * d div B", folded B_def BB]
  have "c * d div B * B + u32 (c * d) + (c1 + c2) < B * B" using Hb H p4 by linarith
  then have e3: "?x3 * B + e3 = c * d + (c1 + c2)" "e3 < B" using s3 p4 by (simp_all add: u32_def B_def)
  note s4 = adc_step [OF 4, of ?x3, folded B_def BB]
  have e4: "?x4 * B + e4 = c * d + (c1 + c2) + c * b div B" "e4 < B" using s4 e3 Hb H by simp_all
  note s5 = adc_step [OF 5, of ?x4, folded B_def BB]
  have "?x5 * B + e5 = H" using s5 e4 Hb H by simp
  then have "KiComputeTimerTableIndex R S D = u32 (H div 2 ^ (S mod 32)) mod 128" using i by simp
  also have "\<dots> = H div 2 ^ (S mod 32) mod 128" by (simp add: u32_def mod_mod_cancel)
  finally show ?thesis unfolding H_def BB by simp
qed

section \<open>The quotient\<close>

lemma ReciprocalLoop_exact:
  assumes "int f * d + r = 2 ^ n" "0 \<le> r" "r < d" "f < 18446744073709551616" "2 \<le> d" "d \<le> 1073741824"
  shows "\<exists>f' r' n'. ReciprocalLoop d f r n = Some (f', r', n') \<and> int f' * d + r' = 2 ^ n' \<and> 0 \<le> r' \<and> r' < d \<and>
    9223372036854775808 \<le> f' \<and> f' < 18446744073709551616"
  using assms
proof (induction "94 - n" arbitrary: f r n rule: less_induct)
  case less
  show ?case
  proof (cases "f < 9223372036854775808")
    case True
    have "int f * d \<le> 9223372036854775807 * 1073741824" using True less.prems(5,6) by (intro mult_mono) simp_all
    then have "(2 :: int) ^ n < 2 ^ 94" using less.prems(1,3,6) by simp
    then have n: "n < 94" by (rule power_less_imp_less_exp [rotated]) simp
    have s: "slong (2 * r) = 2 * r" "slong (2 * r - d) = 2 * r - d" using less.prems(2,3,5,6) by (simp_all add: slong_def)
    have e: "2 * (int f * d) + 2 * r = 2 ^ (n + 1)" using less.prems(1) by simp
    show ?thesis
    proof (cases "2 * r \<ge> d")
      case ge: True
      have "\<exists>f' r' n'. ReciprocalLoop d (2 * f + 1) (2 * r - d) (n + 1) = Some (f', r', n') \<and> int f' * d + r' = 2 ^ n' \<and> 0 \<le> r' \<and> r' < d \<and>
          9223372036854775808 \<le> f' \<and> f' < 18446744073709551616"
        by (rule less.hyps) (use n ge e True less.prems in \<open>simp_all add: algebra_simps\<close>)
      then show ?thesis using True ge s by (subst ReciprocalLoop.simps) simp
    next
      case lt: False
      have "\<exists>f' r' n'. ReciprocalLoop d (2 * f) (2 * r) (n + 1) = Some (f', r', n') \<and> int f' * d + r' = 2 ^ n' \<and> 0 \<le> r' \<and> r' < d \<and>
          9223372036854775808 \<le> f' \<and> f' < 18446744073709551616"
        by (rule less.hyps) (use n lt e True less.prems in simp_all)
      then show ?thesis using True lt s by (subst ReciprocalLoop.simps) simp
    qed
  next
    case False
    then show ?thesis using less.prems by (subst ReciprocalLoop.simps) simp
  qed
qed

lemma half_way:
  fixes p d r :: nat
  assumes "2 * p = 18446744073709551615 * d + r" "r < d"
  shows "p \<le> 9223372036854775808 * d" "9223372036854775808 * d < p + d"
  using assms by linarith+

lemma carry_equation:
  assumes "n = Suc (64 + k)" "f * d + r = (2 :: nat) ^ n" "f = 18446744073709551615"
  shows "2 * 2 ^ (64 + k) = 18446744073709551615 * d + r"
proof -
  have q: "(2 :: nat) ^ n = 2 * 2 ^ (64 + k)" unfolding assms(1) by (rule power_Suc)
  have "f * d + r = 2 * 2 ^ (64 + k)" using assms(2) unfolding q .
  then show ?thesis unfolding assms(3) by (rule sym)
qed

lemma KiComputeReciprocal_ceiling:
  assumes d: "2 \<le> d" "d \<le> 1073741824"
  shows "\<exists>R S. KiComputeReciprocal (int d) = Some (R, int S) \<and> 2 ^ (64 + S) \<le> R * d \<and> R * d < 2 ^ (64 + S) + d \<and>
    9223372036854775808 \<le> R \<and> R < 18446744073709551616 \<and> S < 32"
proof -
  obtain f r' n where l: "ReciprocalLoop (int d) 0 1 0 = Some (f, r', n)" "int f * int d + r' = 2 ^ n" "0 \<le> r'" "r' < int d"
    and f: "9223372036854775808 \<le> f" "f < 18446744073709551616" using ReciprocalLoop_exact [of 0 "int d" 1 0] d by auto
  obtain r where r: "r' = int r" using l(3) zero_le_imp_eq_int by blast
  have "int (f * d + r) = int (2 ^ n)" using l(2) by (simp add: r)
  then have e: "f * d + r = 2 ^ n" "r < d" using l(4) r by (simp_all only: of_nat_eq_iff of_nat_less_iff)
  have "9223372036854775808 * 2 \<le> f * d" using f d by (intro mult_mono) simp_all
  then have "(2 :: nat) ^ 64 \<le> 2 ^ n" using e by simp
  then have n: "64 \<le> n" by (rule power_le_imp_le_exp [rotated]) simp
  have "f * d \<le> 18446744073709551615 * 1073741824" using f d by (intro mult_mono) simp_all
  then have "(2 :: nat) ^ n < 2 ^ 94" using e d by simp
  then have n': "n < 94" by (rule power_less_imp_less_exp [rotated]) simp
  consider (exact) "r = 0" | (round) "r \<noteq> 0" "f \<noteq> 18446744073709551615" | (carry) "r \<noteq> 0" "f = 18446744073709551615" by blast
  then show ?thesis
  proof cases
    case exact
    then show ?thesis using l(1) r e f n n' d by (intro exI [of _ f] exI [of _ "n - 64"]) (simp add: KiComputeReciprocal_def)
  next
    case round
    then show ?thesis using l(1) r e f n n' by (intro exI [of _ "f + 1"] exI [of _ "n - 64"]) (simp add: KiComputeReciprocal_def)
  next
    case carry
    have "18446744073709551615 * 2 \<le> f * d" using carry d by (intro mult_mono) simp_all
    then have "(2 :: nat) ^ 64 < 2 ^ n" using e by simp
    then have m: "64 < n" by (rule power_less_imp_less_exp [rotated]) simp
    then obtain k where k: "n = Suc (64 + k)" using less_imp_Suc_add by blast
    have p: "2 * 2 ^ (64 + k) = 18446744073709551615 * d + r" by (rule carry_equation [OF k e(1) carry(2)])
    have c: "KiComputeReciprocal (int d) = Some (9223372036854775808, int k)" "k < 32"
      using l(1) r carry k n' by (simp_all add: KiComputeReciprocal_def)
    show ?thesis by (rule exI [of _ 9223372036854775808], rule exI [of _ k]) (intro conjI c half_way [OF p e(2)], simp_all)
  qed
qed

lemma reciprocal_divides:
  fixes D R d N :: nat
  assumes "N \<le> R * d" "R * d < N + d" "H \<le> R" "D < H" "0 < d" "d \<le> H"
  shows "D * R div N = D div d"
proof (rule div_nat_eqI)
  let ?k = "D div d"
  have k: "?k * d \<le> D" "D + 1 \<le> (?k + 1) * d" using assms(5) dividend_less_div_times [of d D] by (simp_all add: algebra_simps)
  have "N * ?k \<le> R * d * ?k" using assms(1) by simp
  also have "\<dots> \<le> D * R" using mult_le_mono1 [OF k(1), of R] by (simp add: algebra_simps)
  finally show "N * ?k \<le> D * R" .
  have "(D + 1) * (d - 1) \<le> H * (d - 1)" using assms(4) by (intro mult_le_mono1) simp
  also have "\<dots> \<le> R * (d - 1)" using assms(3) by simp
  also have "\<dots> < N" using assms(2,3,5,6) by (cases d) (simp_all add: algebra_simps)
  finally have h: "(D + 1) * (d - 1) < N" .
  obtain e where e: "R * d = N + e" using assms(1) le_Suc_ex by blast
  then have e': "e \<le> d - 1" using assms(2) by linarith
  have "D * R * d = D * N + D * e" by (simp only: mult.assoc e add_mult_distrib2)
  also have "D * e \<le> D * (d - 1)" using e' by simp
  also have "D * N + D * (d - 1) < D * N + N" using le_less_trans [OF mult_le_mono1 [of D "D + 1" "d - 1"] h] by simp
  also have "\<dots> = (D + 1) * N" by simp
  also have "\<dots> \<le> (?k + 1) * d * N" using k(2) by (rule mult_le_mono1)
  finally have "D * R * d < N * Suc ?k * d" by (simp add: algebra_simps)
  then show "D * R < N * Suc ?k" by simp
qed

text \<open>
  C4: The 32-bit multiplications of \<open>KiComputeTimerTableIndex\<close> divide: for every time increment up to \<open>2 ^ 30\<close> the
  computation of its reciprocal at start-up ends, and with this reciprocal and shift count the index of a timer
  that is due at \<open>Due\<close> is the documented (due time / increment) mod 128, for every due time below \<open>2 ^ 63\<close>.
\<close>

theorem KiComputeTimerTableIndex_divides:
  assumes "2 \<le> Increment" "Increment \<le> 1073741824" "Due < 9223372036854775808"
  shows "\<exists>Reciprocal ShiftCount. KiComputeReciprocal (int Increment) = Some (Reciprocal, int ShiftCount) \<and>
    KiComputeTimerTableIndex Reciprocal ShiftCount Due = Due div Increment mod 128"
proof -
  obtain R S where r: "KiComputeReciprocal (int Increment) = Some (R, int S)" "2 ^ (64 + S) \<le> R * Increment" "R * Increment < 2 ^ (64 + S) + Increment"
    "9223372036854775808 \<le> R" "R < 18446744073709551616" "S < 32" using KiComputeReciprocal_ceiling [OF assms(1,2)] by blast
  have "Due * R div 2 ^ 64 div 2 ^ S = Due * R div 2 ^ (64 + S)" by (simp add: div_mult2_eq power_add)
  also have "\<dots> = Due div Increment" by (rule reciprocal_divides [OF r(2-4) assms(3)]) (use assms in simp_all)
  finally have "KiComputeTimerTableIndex R S Due = Due div Increment mod 128"
    using KiComputeTimerTableIndex_high [of Due R S] assms(3) r(5,6) by simp
  then show ?thesis using r(1) by blast
qed

theorem KiComputeTimerTableIndex_divides_witness:
  "\<exists>Reciprocal ShiftCount. KiComputeReciprocal 100144 = Some (Reciprocal, int ShiftCount) \<and>
    KiComputeTimerTableIndex Reciprocal ShiftCount 123456789 = 80"
  using KiComputeTimerTableIndex_divides [of 100144 123456789] by simp

end
