(* ===== verification/Spec2Isabelle.thy ===== *)
theory Spec2Isabelle
  imports Bitmap_Alloc Bitmap_Runs Bitmap_Count Fcb_Table Round_Robin Timer_Index
begin

text \<open>
  Header.
\<close>

end
